(* ===== verification/Go_Prelude.thy ===== *)
theory Go_Prelude
  imports Main "HOL-Library.Finite_Map" "HOL-Library.Monad_Syntax"
begin

text \<open>
  The part of the Go language that the sources rely on, and the lemmas every component shares.

  A Go statement that can panic (an index out of range, a failed type assertion, closing a
  closed channel) is a computation in \<open>'a option\<close>: \<open>None\<close> is the panic, \<open>Some\<close> the normal
  result, and the \<open>do\<close> notation sequences statements. Slices and fixed-size arrays are lists,
  Go maps are finite maps (\<open>fmap\<close>); a loop whose iteration order could matter takes the order as
  an argument. The counters of the program (terms, log indices, sequence numbers, configuration
  numbers) are 64-bit \<open>int\<close>s that start near zero and only ever grow by one, and are \<open>int\<close> here.
\<close>

section \<open>Collections of rewrite rules\<close>

named_theorems go_simps \<open>slices, maps and channels of the Go runtime\<close>

section \<open>Slices\<close>

text \<open>\<open>xs[i]\<close>, \<open>xs[i] = v\<close>, \<open>xs[lo:]\<close>, \<open>xs[:hi]\<close> and \<open>xs[lo:hi]\<close>. Go checks a slice expression
  against the capacity; a bound beyond the length is reported as a panic here, and the
  properties show that the code never produces one.\<close>

definition slice_get :: "'a list \<Rightarrow> int \<Rightarrow> 'a option" where
  "slice_get xs i = (if 0 \<le> i \<and> i < int (length xs) then Some (xs ! nat i) else None)"

definition slice_set :: "'a list \<Rightarrow> int \<Rightarrow> 'a \<Rightarrow> 'a list option" where
  "slice_set xs i v =
     (if 0 \<le> i \<and> i < int (length xs) then Some (xs[nat i := v]) else None)"

definition slice_from :: "'a list \<Rightarrow> int \<Rightarrow> 'a list option" where
  "slice_from xs lo = (if 0 \<le> lo \<and> lo \<le> int (length xs) then Some (drop (nat lo) xs) else None)"

definition slice_range :: "'a list \<Rightarrow> int \<Rightarrow> int \<Rightarrow> 'a list option" where
  "slice_range xs lo hi =
     (if 0 \<le> lo \<and> lo \<le> hi \<and> hi \<le> int (length xs)
      then Some (take (nat hi - nat lo) (drop (nat lo) xs)) else None)"

section \<open>Maps\<close>

text \<open>\<open>m[k]\<close> on a Go map yields the zero value of the element type when \<open>k\<close> is absent.\<close>

definition map_get :: "'v \<Rightarrow> ('k, 'v) fmap \<Rightarrow> 'k \<Rightarrow> 'v" where
  "map_get zero m k = (case fmlookup m k of None \<Rightarrow> zero | Some v \<Rightarrow> v)"

text \<open>\<open>if _, ok := m[k]; !ok { m[k] = 0 }\<close>, as the servers initialise a client's session.\<close>

definition touch :: "(int, int) fmap \<Rightarrow> int \<Rightarrow> (int, int) fmap" where
  "touch m k = (if fmlookup m k = None then fmupd k 0 m else m)"

lemma map_get_touch [simp]: "map_get 0 (touch m k) j = map_get 0 m j"
  by (simp add: touch_def map_get_def)

text \<open>The library's congruence rule keeps the simplifier away from the map that is filtered.\<close>

declare fmfilter_cong [cong del]

section \<open>Buffered channels\<close>

text \<open>A channel made with \<open>make(chan T, 1)\<close>. Sending on a closed channel and closing a closed
  channel panic; a send to a full buffer blocks, and every send of the sources gives up after a
  timeout, so a full buffer drops the message. A receive from a closed and drained channel
  yields the zero value with \<open>ok = false\<close>.\<close>

record 'a channel =
  buffer :: "'a list"
  closed :: bool

definition make_channel :: "'a channel" where
  "make_channel = \<lparr>buffer = [], closed = False\<rparr>"

definition chan_send :: "'a channel \<Rightarrow> 'a \<Rightarrow> 'a channel option" where
  "chan_send c v =
     (if closed c then None
      else if length (buffer c) < 1 then Some (c\<lparr>buffer := buffer c @ [v]\<rparr>) else Some c)"

definition chan_close :: "'a channel \<Rightarrow> 'a channel option" where
  "chan_close c = (if closed c then None else Some (c\<lparr>closed := True\<rparr>))"

section \<open>Lemmas on slices\<close>

lemma slice_get_nth [go_simps]:
  "0 \<le> i \<Longrightarrow> i < int (length xs) \<Longrightarrow> slice_get xs i = Some (xs ! nat i)"
  by (simp add: slice_get_def)

lemma slice_get_nat [go_simps]:
  "i < length xs \<Longrightarrow> slice_get xs (int i) = Some (xs ! i)"
  by (simp add: slice_get_def)

lemma slice_get_None_iff: "slice_get xs i = None \<longleftrightarrow> i < 0 \<or> int (length xs) \<le> i"
  by (auto simp: slice_get_def)

lemma slice_set_Some [go_simps]:
  "0 \<le> i \<Longrightarrow> i < int (length xs) \<Longrightarrow> slice_set xs i v = Some (xs[nat i := v])"
  by (simp add: slice_set_def)

lemma slice_set_nat [go_simps]:
  "i < length xs \<Longrightarrow> slice_set xs (int i) v = Some (xs[i := v])"
  by (simp add: slice_set_def)

lemma slice_set_length: "slice_set xs i v = Some ys \<Longrightarrow> length ys = length xs"
  by (auto simp: slice_set_def split: if_splits)

lemma slice_from_Some [go_simps]:
  "0 \<le> lo \<Longrightarrow> lo \<le> int (length xs) \<Longrightarrow> slice_from xs lo = Some (drop (nat lo) xs)"
  by (simp add: slice_from_def)

lemma slice_range_Some [go_simps]:
  "0 \<le> lo \<Longrightarrow> lo \<le> hi \<Longrightarrow> hi \<le> int (length xs) \<Longrightarrow>
   slice_range xs lo hi = Some (take (nat hi - nat lo) (drop (nat lo) xs))"
  by (simp add: slice_range_def)

lemma map_get_upd [go_simps]: "map_get z (fmupd k v m) k' = (if k' = k then v else map_get z m k')"
  by (simp add: map_get_def)

lemma map_get_empty [go_simps]: "map_get z fmempty k = z"
  by (simp add: map_get_def)

lemma map_get_Some [go_simps]: "fmlookup m k = Some v \<Longrightarrow> map_get z m k = v"
  by (simp add: map_get_def)

lemma map_get_None [go_simps]: "fmlookup m k = None \<Longrightarrow> map_get z m k = z"
  by (simp add: map_get_def)

section \<open>Majorities\<close>

text \<open>Two sets that each hold more than half of the peers intersect.\<close>

lemma majorities_meet:
  assumes "finite P" and "A \<subseteq> P" and "B \<subseteq> P"
    and "card P div 2 < card A" and "card P div 2 < card B"
  shows "\<exists>p. p \<in> A \<and> p \<in> B"
proof (rule ccontr)
  assume "\<not> ?thesis"
  then have disj: "A \<inter> B = {}" by blast
  have "card (A \<union> B) = card A + card B"
    using assms(1-3) disj by (meson card_Un_disjoint finite_subset)
  moreover have "card (A \<union> B) \<le> card P"
    using assms(1-3) by (simp add: card_mono)
  ultimately show False using assms(4,5) by linarith
qed

end
