(* ===== verification/Persister.thy ===== *)
theory Persister
  imports Go_Prelude
begin

text \<open>
  Stable storage: \<open>src/raft/persister.go\<close>. A byte slice written through \<open>labgob\<close> is the list of
  the values encoded into it, in order: \<open>Encode\<close> appends a value, \<open>Decode\<close> takes the next one, and
  an empty list is the nil or empty slice. Raft stores its own stream (\<open>'r\<close>) beside the
  service's snapshot stream (\<open>'s\<close>); \<open>clone\<close> copies a slice, which is the identity on values.
  The length of a stream in bytes is a property of the encoder and is a parameter where it is used.
\<close>

record ('r, 's) Persister =
  raftstate :: "'r list"
  snapshot :: "'s list"

definition MakePersister :: "('r, 's) Persister" where
  "MakePersister = \<lparr>raftstate = [], snapshot = []\<rparr>"

definition clone :: "'a list \<Rightarrow> 'a list" where
  "clone orig = map (\<lambda>i. orig ! i) [0..<length orig]"

definition Copy :: "('r, 's) Persister \<Rightarrow> ('r, 's) Persister" where
  "Copy ps = MakePersister\<lparr>raftstate := raftstate ps, snapshot := snapshot ps\<rparr>"

definition SaveRaftState :: "('r, 's) Persister \<Rightarrow> 'r list \<Rightarrow> ('r, 's) Persister" where
  "SaveRaftState ps st = ps\<lparr>raftstate := clone st\<rparr>"

definition ReadRaftState :: "('r, 's) Persister \<Rightarrow> 'r list" where
  "ReadRaftState ps = clone (raftstate ps)"

definition RaftStateSize :: "('r list \<Rightarrow> int) \<Rightarrow> ('r, 's) Persister \<Rightarrow> int" where
  "RaftStateSize byteLen ps = byteLen (raftstate ps)"

definition SaveStateAndSnapshot ::
  "('r, 's) Persister \<Rightarrow> 'r list \<Rightarrow> 's list \<Rightarrow> ('r, 's) Persister" where
  "SaveStateAndSnapshot ps st snap = ps\<lparr>raftstate := clone st, snapshot := clone snap\<rparr>"

definition ReadSnapshot :: "('r, 's) Persister \<Rightarrow> 's list" where
  "ReadSnapshot ps = clone (snapshot ps)"

definition SnapshotSize :: "('s list \<Rightarrow> int) \<Rightarrow> ('r, 's) Persister \<Rightarrow> int" where
  "SnapshotSize byteLen ps = byteLen (snapshot ps)"

section \<open>Stable storage as an interface\<close>

text \<open>What raft relies on: a read returns the last value written, saving the raft state leaves
  the snapshot alone, and the combined save replaces both at once.\<close>

locale stable_storage =
  fixes empty :: 'p
    and save :: "'p \<Rightarrow> 'r list \<Rightarrow> 'p"
    and save_both :: "'p \<Rightarrow> 'r list \<Rightarrow> 's list \<Rightarrow> 'p"
    and read :: "'p \<Rightarrow> 'r list"
    and read_snapshot :: "'p \<Rightarrow> 's list"
  assumes read_empty: "read empty = []"
    and read_snapshot_empty: "read_snapshot empty = []"
    and read_save: "read (save p st) = st"
    and read_snapshot_save: "read_snapshot (save p st) = read_snapshot p"
    and read_save_both: "read (save_both p st sn) = st"
    and read_snapshot_save_both: "read_snapshot (save_both p st sn) = sn"
begin

lemma save_keeps_snapshot:
  "read_snapshot (fold (\<lambda>st p. save p st) sts p) = read_snapshot p"
  by (induction sts arbitrary: p) (simp_all add: read_snapshot_save)

lemma last_write_wins:
  "read (fold (\<lambda>st p. save p st) (sts @ [st]) p) = st"
  by (simp add: read_save)

lemma snapshot_survives_saves:
  "read_snapshot (fold (\<lambda>st p. save p st) sts (save_both p st0 sn)) = sn"
  by (simp add: save_keeps_snapshot read_snapshot_save_both)

end

lemma clone_id [simp]: "clone xs = xs"
  by (simp add: clone_def map_nth)

lemma persister_simps [simp]:
  "ReadRaftState (SaveRaftState ps st) = st"
  "ReadSnapshot (SaveRaftState ps st) = ReadSnapshot ps"
  "ReadRaftState (SaveStateAndSnapshot ps st sn) = st"
  "ReadSnapshot (SaveStateAndSnapshot ps st sn) = sn"
  "ReadRaftState MakePersister = []"
  "ReadSnapshot MakePersister = []"
  by (simp_all add: ReadRaftState_def SaveRaftState_def ReadSnapshot_def
      SaveStateAndSnapshot_def MakePersister_def)

interpretation ps: stable_storage MakePersister SaveRaftState SaveStateAndSnapshot
  ReadRaftState ReadSnapshot
  by unfold_locales simp_all

end
