(* ===== verification/Raft_Node.thy ===== *)
theory Raft_Node
  imports Persister
begin

text \<open>
  One raft peer: \<open>src/raft/raft.go\<close>. The record \<open>Raft\<close> has the fields of the Go struct, except
  that \<open>peers\<close> is the number of peers (the endpoints belong to the network) and that messages
  for \<open>applyCh\<close> are returned by the operation that spawns the sending goroutine. Every operation
  is the code of one critical section of \<open>rf.mu\<close>; a goroutine that releases the lock around an
  RPC is split there into the part before the call (suffix \<open>_send\<close>) and the part that handles
  the reply (suffix \<open>_reply\<close>). \<open>time.Now()\<close> is an argument, in nanoseconds. Debug printing is
  left out. Panics are \<open>None\<close>.
\<close>

section \<open>Data\<close>

datatype role = UNKNOWN | LEADER | FOLLOWER | CANDIDATE

record 'c LogEntry =
  eTerm :: int
  eCommand :: "'c option"
  eIndex :: int

record ('c, 's) ApplyMsg =
  CommandValid :: bool
  Command :: "'c option"
  CommandIndex :: int
  SnapshotValid :: bool
  Snapshot_data :: "'s list"
  SnapshotTerm :: int
  SnapshotIndex :: int

text \<open>The values raft encodes into its stable state.\<close>

datatype 'c raft_gob = GInt int | GLog "'c LogEntry list"

record ('c, 's) Raft =
  peers :: nat
  persister :: "('c raft_gob, 's) Persister"
  me :: int
  dead :: bool
  lastTimeHeared :: int
  state :: role
  Log :: "'c LogEntry list"
  currentTerm :: int
  votedFor :: int
  commitIndex :: int
  lastApplied :: int
  getVotesNum :: int
  nextIndex :: "int list"
  matchIndex :: "int list"
  lastIncludedIndex :: int
  lastIncludedTerm :: int
  snapShot :: "'s list"

record RequestVoteArgs =
  rvTerm :: int
  CandidateId :: int
  LastLogIndex :: int
  LastLogTerm :: int

record RequestVoteReply =
  rvrTerm :: int
  VoteGranted :: bool

record 's InstallSnapshotArgs =
  isTerm :: int
  isLeaderId :: int
  isLastIncludedIndex :: int
  isLastIncludedTerm :: int
  isData :: "'s list"

record InstallSnapshotReply =
  isrTerm :: int

record 'c AppendEntriesArgs =
  aeTerm :: int
  LeaderId :: int
  PrevLogIndex :: int
  PrevLogTerm :: int
  Entries :: "'c LogEntry list"
  LeaderCommit :: int

record AppendEntriesReply =
  aerTerm :: int
  Success :: bool
  LogInconsistency :: bool
  XTerm :: int
  XIndex :: int
  XLen :: int

text \<open>The zero values: \<open>LogEntry{}\<close> and the reply structs as the caller allocates them.\<close>

definition zeroEntry :: "'c LogEntry" where
  "zeroEntry = \<lparr>eTerm = 0, eCommand = None, eIndex = 0\<rparr>"

definition zeroVoteReply :: RequestVoteReply where
  "zeroVoteReply = \<lparr>rvrTerm = 0, VoteGranted = False\<rparr>"

definition zeroAppendReply :: AppendEntriesReply where
  "zeroAppendReply = \<lparr>aerTerm = 0, Success = False, LogInconsistency = False,
     XTerm = 0, XIndex = 0, XLen = 0\<rparr>"

definition zeroSnapshotReply :: InstallSnapshotReply where
  "zeroSnapshotReply = \<lparr>isrTerm = 0\<rparr>"

section \<open>Reading the log\<close>

definition getRealLogIndex :: "('c, 's) Raft \<Rightarrow> int \<Rightarrow> int" where
  "getRealLogIndex rf logicalIndex = logicalIndex - lastIncludedIndex rf"

definition getLogAt :: "('c, 's) Raft \<Rightarrow> int \<Rightarrow> (bool \<times> int \<times> int) option" where
  "getLogAt rf realIndex =
     (if realIndex \<ge> int (length (Log rf)) then Some (False, -1, -1)
      else if realIndex = 0 then Some (True, lastIncludedIndex rf, lastIncludedTerm rf)
      else do {
        entry \<leftarrow> slice_get (Log rf) realIndex;
        Some (True, lastIncludedIndex rf + realIndex, eTerm entry)
      })"

definition getLastLogIndex :: "('c, 's) Raft \<Rightarrow> int option" where
  "getLastLogIndex rf = do {
     (_, index, _) \<leftarrow> getLogAt rf (int (length (Log rf)) - 1);
     Some index
   }"

definition getLastLogTerm :: "('c, 's) Raft \<Rightarrow> int option" where
  "getLastLogTerm rf = do {
     (_, _, term) \<leftarrow> getLogAt rf (int (length (Log rf)) - 1);
     Some term
   }"

definition NeedEmptyLogEntry :: "('c, 's) Raft \<Rightarrow> bool option" where
  "NeedEmptyLogEntry rf = do {
     (_, _, term) \<leftarrow> getLogAt rf (int (length (Log rf)) - 1);
     Some (state rf = LEADER \<and> term \<noteq> currentTerm rf)
   }"

text \<open>The loop \<open>for i = realIndex; i > 0 && rf.Log[i-1].Term == sameTerm; i--\<close>.\<close>

fun sameTermLoop :: "'c LogEntry list \<Rightarrow> int \<Rightarrow> nat \<Rightarrow> int option" where
  "sameTermLoop log sameTerm 0 = Some 0"
| "sameTermLoop log sameTerm (Suc i) = do {
     entry \<leftarrow> slice_get log (int i);
     if eTerm entry = sameTerm then sameTermLoop log sameTerm i else Some (int (Suc i))
   }"

definition getSameTermFirst :: "('c, 's) Raft \<Rightarrow> int \<Rightarrow> int option" where
  "getSameTermFirst rf realIndex =
     (if realIndex = 0 then Some 0
      else do {
        (_, _, sameTerm) \<leftarrow> getLogAt rf realIndex;
        if realIndex < 0 then Some realIndex
        else sameTermLoop (Log rf) sameTerm (nat realIndex)
      })"

section \<open>Persistence\<close>

definition getStatePersistData :: "('c, 's) Raft \<Rightarrow> 'c raft_gob list" where
  "getStatePersistData rf =
     [GInt (currentTerm rf), GInt (votedFor rf), GLog (Log rf),
      GInt (lastIncludedIndex rf), GInt (lastIncludedTerm rf)]"

definition persist :: "('c, 's) Raft \<Rightarrow> ('c, 's) Raft" where
  "persist rf = rf\<lparr>persister := SaveRaftState (persister rf) (getStatePersistData rf)\<rparr>"

text \<open>\<open>Decode\<close> of the next value into an \<open>int\<close> or a log; \<open>None\<close> is a non-nil error.\<close>

fun decodeInt :: "'c raft_gob list \<Rightarrow> (int \<times> 'c raft_gob list) option" where
  "decodeInt (GInt i # rest) = Some (i, rest)"
| "decodeInt _ = None"

fun decodeLog :: "'c raft_gob list \<Rightarrow> ('c LogEntry list \<times> 'c raft_gob list) option" where
  "decodeLog (GLog l # rest) = Some (l, rest)"
| "decodeLog _ = None"

definition decodeRaftState ::
  "'c raft_gob list \<Rightarrow> (int \<times> int \<times> 'c LogEntry list \<times> int \<times> int) option" where
  "decodeRaftState data = do {
     (term, d1) \<leftarrow> decodeInt data;
     (voted, d2) \<leftarrow> decodeInt d1;
     (log, d3) \<leftarrow> decodeLog d2;
     (lii, d4) \<leftarrow> decodeInt d3;
     (lit, _) \<leftarrow> decodeInt d4;
     Some (term, voted, log, lii, lit)
   }"

definition readPersist :: "('c, 's) Raft \<Rightarrow> 'c raft_gob list \<Rightarrow> ('c, 's) Raft" where
  "readPersist rf data =
     (if data = [] then rf
      else case decodeRaftState data of
        None \<Rightarrow> rf
      | Some (term, voted, log, lii, lit) \<Rightarrow>
          rf\<lparr>currentTerm := term, votedFor := voted, Log := log, lastIncludedIndex := lii,
             lastIncludedTerm := lit, lastApplied := lii, commitIndex := lii\<rparr>)"

definition GetStateSize :: "('c raft_gob list \<Rightarrow> int) \<Rightarrow> ('c, 's) Raft \<Rightarrow> int" where
  "GetStateSize byteLen rf = RaftStateSize byteLen (persister rf)"

definition GetSnapshot :: "('c, 's) Raft \<Rightarrow> 's list" where
  "GetSnapshot rf = ReadSnapshot (persister rf)"

section \<open>Role changes\<close>

text \<open>The loop of \<open>LeaderState\<close> over the peers.\<close>

fun leaderStateLoop :: "('c, 's) Raft \<Rightarrow> nat list \<Rightarrow> ('c, 's) Raft option" where
  "leaderStateLoop rf [] = Some rf"
| "leaderStateLoop rf (i # is) = do {
     last \<leftarrow> getLastLogIndex rf;
     next \<leftarrow> slice_set (nextIndex rf) (int i) (last + 1);
     mtch \<leftarrow> slice_set (matchIndex rf) (int i) (-1);
     leaderStateLoop (rf\<lparr>nextIndex := next, matchIndex := mtch\<rparr>) is
   }"

definition LeaderState :: "('c, 's) Raft \<Rightarrow> ('c, 's) Raft option" where
  "LeaderState rf = leaderStateLoop (rf\<lparr>state := LEADER\<rparr>) [0..<peers rf]"

definition FollowerState :: "('c, 's) Raft \<Rightarrow> int \<Rightarrow> ('c, 's) Raft" where
  "FollowerState rf newTerm =
     persist (rf\<lparr>state := FOLLOWER, currentTerm := newTerm, votedFor := -1, getVotesNum := 0\<rparr>)"

definition CandidateState :: "('c, 's) Raft \<Rightarrow> ('c, 's) Raft" where
  "CandidateState rf =
     persist (rf\<lparr>state := CANDIDATE, currentTerm := currentTerm rf + 1, votedFor := me rf,
                 getVotesNum := 1\<rparr>)"

definition GetState :: "('c, 's) Raft \<Rightarrow> int \<times> bool" where
  "GetState rf = (currentTerm rf, state rf = LEADER)"

definition Kill :: "('c, 's) Raft \<Rightarrow> ('c, 's) Raft" where
  "Kill rf = rf\<lparr>dead := True\<rparr>"

definition killed :: "('c, 's) Raft \<Rightarrow> bool" where
  "killed rf = dead rf"

section \<open>Counting replicas\<close>

text \<open>The first real index whose entry has the current term, and the number of peers that match
  up to a logical index (the leader itself counts once).\<close>

fun realIndexStartLoop :: "('c, 's) Raft \<Rightarrow> nat list \<Rightarrow> int \<Rightarrow> int option" where
  "realIndexStartLoop rf [] dflt = Some dflt"
| "realIndexStartLoop rf (i # is) dflt = do {
     (_, index, term) \<leftarrow> getLogAt rf (int i);
     if term = currentTerm rf then Some (index - lastIncludedIndex rf)
     else realIndexStartLoop rf is dflt
   }"

fun replicaLoop :: "('c, 's) Raft \<Rightarrow> int \<Rightarrow> nat list \<Rightarrow> int \<Rightarrow> int option" where
  "replicaLoop rf target [] replica = Some replica"
| "replicaLoop rf target (j # js) replica =
     (if int j = me rf then replicaLoop rf target js replica
      else do {
        m \<leftarrow> slice_get (matchIndex rf) (int j);
        replicaLoop rf target js (if m \<ge> target then replica + 1 else replica)
      })"

text \<open>The loop from the last entry down to the first entry of the term, above the commit index.\<close>

fun commitLoop :: "('c, 's) Raft \<Rightarrow> int \<Rightarrow> nat list \<Rightarrow> int option" where
  "commitLoop rf start [] = Some (commitIndex rf)"
| "commitLoop rf start (i # is) =
     (if int i + lastIncludedIndex rf > commitIndex rf \<and> int i \<ge> start
      then do {
        replica \<leftarrow> replicaLoop rf (int i + lastIncludedIndex rf) [0..<peers rf] 1;
        if replica > int (peers rf) div 2 then Some (int i + lastIncludedIndex rf)
        else commitLoop rf start is
      }
      else Some (commitIndex rf))"

definition countReplica :: "('c, 's) Raft \<Rightarrow> int option" where
  "countReplica rf = do {
     lastTerm \<leftarrow> getLastLogTerm rf;
     if lastTerm \<noteq> currentTerm rf
     then Some (if lastIncludedIndex rf \<ge> commitIndex rf then lastIncludedIndex rf
                else commitIndex rf)
     else do {
       start \<leftarrow> realIndexStartLoop rf [0..<length (Log rf)] (int (length (Log rf)) - 1);
       N \<leftarrow> commitLoop rf start (rev [0..<length (Log rf)]);
       Some (if N < lastIncludedIndex rf then lastIncludedIndex rf else N)
     }
   }"

section \<open>Snapshots\<close>

text \<open>The search of \<open>CondInstallSnapshot\<close> for the entry the snapshot ends with, from the back.\<close>

fun trimIndexLoop :: "('c, 's) Raft \<Rightarrow> int \<Rightarrow> int \<Rightarrow> nat list \<Rightarrow> nat \<Rightarrow> nat option" where
  "trimIndexLoop rf lit lii [] trimIndex = Some trimIndex"
| "trimIndexLoop rf lit lii (i # is) trimIndex = do {
     (_, entryIndex, entryTerm) \<leftarrow> getLogAt rf (int i);
     if entryTerm = lit \<and> entryIndex = lii then Some (i + 1)
     else trimIndexLoop rf lit lii is trimIndex
   }"

definition CondInstallSnapshot ::
  "('c, 's) Raft \<Rightarrow> int \<Rightarrow> int \<Rightarrow> 's list \<Rightarrow> (('c, 's) Raft \<times> bool) option" where
  "CondInstallSnapshot rf lit lii snap =
     (if lii \<le> commitIndex rf then Some (rf, False)
      else do {
        trimIndex \<leftarrow> trimIndexLoop rf lit lii (rev [0..<length (Log rf)]) (length (Log rf));
        let rf1 = rf\<lparr>Log := zeroEntry # drop trimIndex (Log rf),
                     lastIncludedIndex := lii, lastIncludedTerm := lit\<rparr>;
        let rf2 = (if commitIndex rf1 < lii then rf1\<lparr>commitIndex := lii\<rparr> else rf1);
        let rf3 = (if lastApplied rf2 < lii then rf2\<lparr>lastApplied := lii\<rparr> else rf2);
        Some (rf3\<lparr>persister := SaveStateAndSnapshot (persister rf3) (getStatePersistData rf3) snap\<rparr>,
              True)
      })"

text \<open>The search of \<open>Snapshot\<close> for the entry at \<open>index\<close>. When the loop runs off the end,
  \<open>entryIndex\<close> and \<open>entryTerm\<close> keep the values of the last iteration and \<open>realIndex\<close> is still 0.\<close>

fun snapshotLoop ::
  "('c, 's) Raft \<Rightarrow> int \<Rightarrow> nat list \<Rightarrow> int \<times> int \<times> nat \<Rightarrow> (int \<times> int \<times> nat) option" where
  "snapshotLoop rf index [] acc = Some acc"
| "snapshotLoop rf index (i # is) acc = do {
     (_, entryIndex, entryTerm) \<leftarrow> getLogAt rf (int i);
     if entryIndex = index then Some (entryIndex, entryTerm, i)
     else snapshotLoop rf index is (entryIndex, entryTerm, 0)
   }"

definition Snapshot :: "('c, 's) Raft \<Rightarrow> int \<Rightarrow> 's list \<Rightarrow> ('c, 's) Raft option" where
  "Snapshot rf index snap =
     (if index \<le> lastIncludedIndex rf then Some rf
      else do {
        (entryIndex, entryTerm, realIndex) \<leftarrow>
          snapshotLoop rf index [0..<length (Log rf)] (0, 0, 0);
        let rf1 = rf\<lparr>lastIncludedIndex := entryIndex, lastIncludedTerm := entryTerm\<rparr>;
        let rf2 = (if lastApplied rf1 < index then rf1\<lparr>lastApplied := index\<rparr> else rf1);
        let rf3 = (if commitIndex rf2 < index then rf2\<lparr>commitIndex := index\<rparr> else rf2);
        tail \<leftarrow> slice_from (Log rf3) (int realIndex + 1);
        let rf4 = rf3\<lparr>Log := zeroEntry # tail\<rparr>;
        Some (rf4\<lparr>persister := SaveStateAndSnapshot (persister rf4) (getStatePersistData rf4) snap\<rparr>)
      })"

section \<open>RPC handlers\<close>

definition RequestVote ::
  "int \<Rightarrow> ('c, 's) Raft \<Rightarrow> RequestVoteArgs \<Rightarrow> (('c, 's) Raft \<times> RequestVoteReply) option" where
  "RequestVote now rf0 args =
     (let rf = (if rvTerm args > currentTerm rf0 then FollowerState rf0 (rvTerm args) else rf0) in
      if rvTerm args < currentTerm rf
      then Some (persist rf, \<lparr>rvrTerm = currentTerm rf, VoteGranted = False\<rparr>)
      else do {
        currentLastLogIndex \<leftarrow> getLastLogIndex rf;
        currentLastLogTerm \<leftarrow> getLastLogTerm rf;
        let upToDate = (LastLogTerm args > currentLastLogTerm \<or>
          (LastLogTerm args = currentLastLogTerm \<and> LastLogIndex args \<ge> currentLastLogIndex));
        if (votedFor rf = -1 \<or> votedFor rf = CandidateId args) \<and> upToDate
        then Some ((persist (rf\<lparr>votedFor := CandidateId args\<rparr>))\<lparr>lastTimeHeared := now\<rparr>,
                   \<lparr>rvrTerm = currentTerm rf, VoteGranted = True\<rparr>)
        else Some (rf, \<lparr>rvrTerm = currentTerm rf, VoteGranted = False\<rparr>)
      })"

text \<open>Deleting a conflicting suffix: \<open>for i, j := 0, realIndex+1; ...\<close>. The flag is \<open>needPersist\<close>.\<close>

fun conflictLoop ::
  "'c LogEntry list \<Rightarrow> nat \<Rightarrow> 'c LogEntry list \<Rightarrow> 'c LogEntry list \<times> bool" where
  "conflictLoop log j [] = (log, False)"
| "conflictLoop log j (e # es) =
     (if j < length log
      then if eTerm e \<noteq> eTerm (log ! j) then (take j log, True)
           else conflictLoop log (Suc j) es
      else (log, False))"

text \<open>Appending what is new: the first branch when the log ends at \<open>startAppendIndex\<close>, else the
  loop that appends the entries whose position is past the end.\<close>

fun appendLoop ::
  "'c LogEntry list \<Rightarrow> nat \<Rightarrow> 'c LogEntry list \<Rightarrow> bool \<Rightarrow> 'c LogEntry list \<times> bool" where
  "appendLoop log pos [] needPersist = (log, needPersist)"
| "appendLoop log pos (e # es) needPersist =
     (if pos \<ge> length log then appendLoop (log @ [e]) (Suc pos) es True
      else appendLoop log (Suc pos) es needPersist)"

definition appendNewEntries ::
  "'c LogEntry list \<Rightarrow> nat \<Rightarrow> 'c LogEntry list \<Rightarrow> bool \<Rightarrow> 'c LogEntry list \<times> bool" where
  "appendNewEntries log startAppendIndex es needPersist =
     (if startAppendIndex \<ge> length log then (log @ es, True)
      else appendLoop log startAppendIndex es needPersist)"

text \<open>The part of \<open>AppendEntries\<close> after the consistency check has succeeded at \<open>realIndex\<close>.\<close>

definition acceptEntries ::
  "('c, 's) Raft \<Rightarrow> 'c AppendEntriesArgs \<Rightarrow> nat \<Rightarrow> int \<Rightarrow> ('c, 's) Raft \<times> AppendEntriesReply" where
  "acceptEntries rf args realIndex lastLogIndex =
     (let (log1, np1) = conflictLoop (Log rf) (realIndex + 1) (Entries args);
          (log2, np2) = appendNewEntries log1 (realIndex + 1) (Entries args) np1;
          rf1 = rf\<lparr>Log := log2\<rparr>;
          rf2 = (if np2 then persist rf1 else rf1);
          rf3 = (if LeaderCommit args > commitIndex rf2
                 then if LeaderCommit args < lastLogIndex
                      then rf2\<lparr>commitIndex := LeaderCommit args\<rparr>
                      else rf2\<lparr>commitIndex := lastLogIndex\<rparr>
                 else rf2)
      in (rf3, zeroAppendReply\<lparr>aerTerm := currentTerm rf3, Success := True\<rparr>))"

definition checkPrevLog ::
  "('c, 's) Raft \<Rightarrow> 'c AppendEntriesArgs \<Rightarrow> (('c, 's) Raft \<times> AppendEntriesReply) option" where
  "checkPrevLog rf args = do {
     let firstLogIndex = lastIncludedIndex rf;
     lastLogIndex \<leftarrow> getLastLogIndex rf;
     if PrevLogIndex args < firstLogIndex
     then Some (rf, zeroAppendReply\<lparr>Success := False, aerTerm := currentTerm rf, XTerm := -1,
                      XIndex := firstLogIndex + 1, LogInconsistency := True\<rparr>)
     else do {
       (realIndex, contains, prevIndex, prevTerm) \<leftarrow>
         (if PrevLogIndex args > lastLogIndex then Some (0, False, 0, 0)
          else do {
            let realIndex = PrevLogIndex args - lastIncludedIndex rf;
            (c, pi, pt) \<leftarrow> getLogAt rf realIndex;
            Some (realIndex, c, pi, pt)
          });
       if \<not> contains \<or> prevTerm \<noteq> PrevLogTerm args
       then if \<not> contains
            then Some (rf, zeroAppendReply\<lparr>aerTerm := currentTerm rf, Success := False,
                             LogInconsistency := True, XTerm := -1, XIndex := lastLogIndex + 1\<rparr>)
            else do {
              first \<leftarrow> getSameTermFirst rf realIndex;
              Some (rf, zeroAppendReply\<lparr>aerTerm := currentTerm rf, Success := False,
                          LogInconsistency := True, XTerm := prevTerm,
                          XIndex := first + lastIncludedIndex rf\<rparr>)
            }
       else Some (acceptEntries rf args (nat realIndex) lastLogIndex)
     }
   }"

definition AppendEntries ::
  "int \<Rightarrow> ('c, 's) Raft \<Rightarrow> 'c AppendEntriesArgs \<Rightarrow>
   (('c, 's) Raft \<times> AppendEntriesReply) option" where
  "AppendEntries now rf0 args =
     (let rf1 = (if aeTerm args > currentTerm rf0 \<or>
                    (aeTerm args = currentTerm rf0 \<and> state rf0 = CANDIDATE)
                 then FollowerState rf0 (aeTerm args) else rf0) in
      if aeTerm args < currentTerm rf1
      then Some (rf1, zeroAppendReply\<lparr>aerTerm := currentTerm rf1, Success := False\<rparr>)
      else checkPrevLog (rf1\<lparr>lastTimeHeared := now\<rparr>) args)"

text \<open>\<open>InstallSnapshot\<close> hands the snapshot to the service through \<open>applyCh\<close>: the third component
  is what the spawned goroutine sends.\<close>

definition InstallSnapshot ::
  "int \<Rightarrow> ('c, 's) Raft \<Rightarrow> 's InstallSnapshotArgs \<Rightarrow>
   ('c, 's) Raft \<times> InstallSnapshotReply \<times> ('c, 's) ApplyMsg list" where
  "InstallSnapshot now rf0 args =
     (if currentTerm rf0 > isTerm args
      then (rf0, \<lparr>isrTerm = currentTerm rf0\<rparr>, [])
      else
        let rf1 = (if isTerm args > currentTerm rf0 then FollowerState rf0 (isTerm args) else rf0);
            rf = rf1\<lparr>lastTimeHeared := now\<rparr>
        in if isLastIncludedIndex args \<le> commitIndex rf
           then (rf, \<lparr>isrTerm = currentTerm rf\<rparr>, [])
           else (rf\<lparr>snapShot := clone (isData args)\<rparr>, \<lparr>isrTerm = currentTerm rf\<rparr>,
                 [\<lparr>CommandValid = False, Command = None, CommandIndex = 0, SnapshotValid = True,
                   Snapshot_data = clone (isData args), SnapshotTerm = isLastIncludedTerm args,
                   SnapshotIndex = isLastIncludedIndex args\<rparr>]))"

section \<open>The leader\<close>

text \<open>\<open>leaderAppendEntries\<close> spawns one goroutine per other peer.\<close>

definition leaderAppendEntries :: "('c, 's) Raft \<Rightarrow> nat list" where
  "leaderAppendEntries rf = (if killed rf then [] else filter (\<lambda>i. int i \<noteq> me rf) [0..<peers rf])"

datatype ('c, 's) leader_send =
    NoSend
  | SendSnapshot "'s InstallSnapshotArgs"
  | SendAppend "'c AppendEntriesArgs"

text \<open>The goroutine for peer \<open>index\<close> up to the RPC.\<close>

definition leaderAppendEntries_send ::
  "('c, 's) Raft \<Rightarrow> int \<Rightarrow> (('c, 's) Raft \<times> ('c, 's) leader_send) option" where
  "leaderAppendEntries_send rf index = do {
     ni \<leftarrow> slice_get (nextIndex rf) index;
     let prevLogIndex = ni - 1;
     if prevLogIndex < lastIncludedIndex rf
     then if state rf \<noteq> LEADER then Some (rf, NoSend)
          else Some (rf, SendSnapshot
                 \<lparr>isTerm = currentTerm rf, isLeaderId = me rf,
                  isLastIncludedIndex = lastIncludedIndex rf,
                  isLastIncludedTerm = lastIncludedTerm rf,
                  isData = ReadSnapshot (persister rf)\<rparr>)
     else do {
       (_, _, entryTerm) \<leftarrow> getLogAt rf (getRealLogIndex rf prevLogIndex);
       last \<leftarrow> getLastLogIndex rf;
       entries \<leftarrow> (if last \<ge> ni then slice_from (Log rf) (getRealLogIndex rf ni) else Some []);
       let args = \<lparr>aeTerm = currentTerm rf, LeaderId = me rf, PrevLogIndex = prevLogIndex,
                   PrevLogTerm = entryTerm, Entries = entries, LeaderCommit = commitIndex rf\<rparr>;
       next \<leftarrow> slice_set (nextIndex rf) (me rf) (last + 1);
       mtch \<leftarrow> slice_set (matchIndex rf) (me rf) last;
       let rf1 = rf\<lparr>nextIndex := next, matchIndex := mtch\<rparr>;
       if state rf1 \<noteq> LEADER \<or> currentTerm rf1 \<noteq> aeTerm args then Some (rf1, NoSend)
       else Some (rf1, SendAppend args)
     }
   }"

text \<open>The search of \<open>handleLogInconsistency\<close> for the last own entry of the conflicting term,
  \<open>for i := len(rf.Log) - 1; i > 0; i--\<close>.\<close>

fun conflictTermLoop :: "('c, 's) Raft \<Rightarrow> int \<Rightarrow> nat list \<Rightarrow> int \<Rightarrow> int option" where
  "conflictTermLoop rf xterm [] target = Some target"
| "conflictTermLoop rf xterm (i # is) target = do {
     (_, entryIndex, entryTerm) \<leftarrow> getLogAt rf (int i);
     if entryTerm = xterm then Some (entryIndex + 1)
     else conflictTermLoop rf xterm is target
   }"

definition handleLogInconsistency ::
  "('c, 's) Raft \<Rightarrow> int \<Rightarrow> AppendEntriesReply \<Rightarrow> ('c, 's) Raft option" where
  "handleLogInconsistency rf index reply =
     (if XTerm reply = -1
      then do {
        m \<leftarrow> slice_get (matchIndex rf) index;
        next \<leftarrow> slice_set (nextIndex rf) index
                  (if XIndex reply \<le> m then m + 1 else XIndex reply);
        Some (rf\<lparr>nextIndex := next\<rparr>)
      }
      else do {
        target \<leftarrow> conflictTermLoop rf (XTerm reply) (rev [1..<length (Log rf)]) (XIndex reply);
        next \<leftarrow> slice_set (nextIndex rf) index target;
        Some (rf\<lparr>nextIndex := next\<rparr>)
      })"

text \<open>The goroutine for peer \<open>index\<close> after the \<open>AppendEntries\<close> RPC has returned \<open>ok\<close>.\<close>

definition leaderAppendEntries_reply ::
  "('c, 's) Raft \<Rightarrow> int \<Rightarrow> 'c AppendEntriesArgs \<Rightarrow> bool \<Rightarrow> AppendEntriesReply \<Rightarrow>
   ('c, 's) Raft option" where
  "leaderAppendEntries_reply rf index args ok reply =
     (if \<not> ok then Some rf
      else if aerTerm reply > currentTerm rf then Some (FollowerState rf (aerTerm reply))
      else if state rf \<noteq> LEADER \<or> currentTerm rf \<noteq> aeTerm args then Some rf
      else do {
        rf1 \<leftarrow>
          (if Success reply
           then do {
             let m = PrevLogIndex args + int (length (Entries args));
             mtch \<leftarrow> slice_set (matchIndex rf) index m;
             next \<leftarrow> slice_set (nextIndex rf) index (m + 1);
             Some (rf\<lparr>matchIndex := mtch, nextIndex := next\<rparr>)
           }
           else if LogInconsistency reply then handleLogInconsistency rf index reply
           else Some rf);
        N \<leftarrow> countReplica rf1;
        Some (rf1\<lparr>commitIndex := N\<rparr>)
      })"

text \<open>The goroutine for peer \<open>index\<close> after the \<open>InstallSnapshot\<close> RPC. The reply's term is looked at
  before \<open>ok\<close>; a failed call leaves the zero reply.\<close>

definition leaderInstallSnapshot_reply ::
  "('c, 's) Raft \<Rightarrow> int \<Rightarrow> 's InstallSnapshotArgs \<Rightarrow> bool \<Rightarrow> InstallSnapshotReply \<Rightarrow>
   ('c, 's) Raft option" where
  "leaderInstallSnapshot_reply rf index args ok reply =
     (if isrTerm reply > currentTerm rf then Some (FollowerState rf (isrTerm reply))
      else if state rf \<noteq> LEADER then Some rf
      else if \<not> ok then Some rf
      else do {
        rf1 \<leftarrow>
          (if isrTerm reply = currentTerm rf
           then do {
             m \<leftarrow> slice_get (matchIndex rf) index;
             if m \<le> isLastIncludedIndex args
             then do {
               mtch \<leftarrow> slice_set (matchIndex rf) index (isLastIncludedIndex args);
               next \<leftarrow> slice_set (nextIndex rf) index (isLastIncludedIndex args + 1);
               Some (rf\<lparr>matchIndex := mtch, nextIndex := next\<rparr>)
             }
             else Some rf
           }
           else Some rf);
        N \<leftarrow> countReplica rf1;
        Some (rf1\<lparr>commitIndex := N\<rparr>)
      })"

section \<open>The candidate\<close>

text \<open>\<open>candidateRequestVote\<close>: the arguments of the election and the peers that get a goroutine.\<close>

definition candidateRequestVote ::
  "('c, 's) Raft \<Rightarrow> (RequestVoteArgs \<times> nat list) option" where
  "candidateRequestVote rf = do {
     lastIdx \<leftarrow> getLastLogIndex rf;
     lastTerm \<leftarrow> getLastLogTerm rf;
     let args = \<lparr>rvTerm = currentTerm rf, CandidateId = me rf, LastLogIndex = lastIdx,
                 LastLogTerm = lastTerm\<rparr>;
     Some (args, if killed rf \<and> state rf \<noteq> CANDIDATE then []
                 else filter (\<lambda>i. int i \<noteq> me rf) [0..<peers rf])
   }"

text \<open>The goroutine's retry loop: at most four attempts, each with the outcome of one call
  (\<open>None\<close> for a lost request or reply).\<close>

fun requestVoteRetry :: "nat \<Rightarrow> RequestVoteReply option list \<Rightarrow> RequestVoteReply option" where
  "requestVoteRetry retry [] = None"
| "requestVoteRetry retry (None # rest) =
     (if retry < 3 then requestVoteRetry (Suc retry) rest else None)"
| "requestVoteRetry retry (Some reply # rest) = Some reply"

definition candidateRequestVote_reply ::
  "('c, 's) Raft \<Rightarrow> RequestVoteArgs \<Rightarrow> RequestVoteReply \<Rightarrow> ('c, 's) Raft option" where
  "candidateRequestVote_reply rf args reply =
     (if rvrTerm reply > currentTerm rf then Some (FollowerState rf (rvrTerm reply))
      else if state rf \<noteq> CANDIDATE \<or> currentTerm rf \<noteq> rvTerm args then Some rf
      else if rvrTerm reply = currentTerm rf \<and> state rf = CANDIDATE \<and> VoteGranted reply
      then let rf1 = rf\<lparr>getVotesNum := getVotesNum rf + 1\<rparr>
           in if getVotesNum rf1 > int (peers rf) div 2 then LeaderState rf1 else Some rf1
      else Some rf)"

section \<open>The service interface and the background goroutines\<close>

definition Start :: "('c, 's) Raft \<Rightarrow> 'c \<Rightarrow> (('c, 's) Raft \<times> int \<times> int \<times> bool \<times> nat list) option" where
  "Start rf command =
     (if killed rf then Some (rf, -1, -1, False, [])
      else do {
        last \<leftarrow> getLastLogIndex rf;
        let index = last + 1;
        let term = currentTerm rf;
        if state rf \<noteq> LEADER then Some (rf, -1, -1, False, [])
        else do {
          let entry = \<lparr>eTerm = term, eCommand = Some command,
                       eIndex = lastIncludedIndex rf + int (length (Log rf))\<rparr>;
          let rf1 = persist (rf\<lparr>Log := Log rf @ [entry]\<rparr>);
          Some (rf1, index, term, True, leaderAppendEntries rf1)
        }
      })"

text \<open>One iteration of \<open>heartBeat\<close> after its timer fired: the peers that get a goroutine.\<close>

definition heartBeat :: "('c, 's) Raft \<Rightarrow> nat list" where
  "heartBeat rf = (if state rf \<noteq> LEADER then [] else leaderAppendEntries rf)"

text \<open>One iteration of \<open>ticker\<close> after its timer fired. \<open>randTime\<close> is the current election timeout
  in nanoseconds and \<open>rnd\<close> the next \<open>rand.Intn(500)\<close>; the result is the node, the timeout and the
  election to run, if any.\<close>

definition ticker ::
  "int \<Rightarrow> int \<Rightarrow> int \<Rightarrow> ('c, 's) Raft \<Rightarrow>
   (('c, 's) Raft \<times> int \<times> (RequestVoteArgs \<times> nat list) option) option" where
  "ticker now randTime rnd rf =
     (if state rf = LEADER then Some (rf, randTime, None)
      else if now - lastTimeHeared rf < randTime then Some (rf, randTime, None)
      else do {
        let rf1 = CandidateState (rf\<lparr>lastTimeHeared := now\<rparr>);
        election \<leftarrow> candidateRequestVote rf1;
        Some (rf1, (1000 + rnd) * 1000000, Some election)
      })"

text \<open>One round of \<open>applyChecker\<close>: \<open>None\<close> inside the result means that the goroutine waits.
  \<open>applyChecker_done\<close> is the second critical section, after the messages have been sent.\<close>

definition applyMsgOf :: "'c LogEntry \<Rightarrow> ('c, 's) ApplyMsg" where
  "applyMsgOf entry = \<lparr>CommandValid = True, Command = eCommand entry, CommandIndex = eIndex entry,
     SnapshotValid = False, Snapshot_data = [], SnapshotTerm = 0, SnapshotIndex = 0\<rparr>"

definition applyChecker :: "('c, 's) Raft \<Rightarrow> (int \<times> ('c, 's) ApplyMsg list) option option" where
  "applyChecker rf =
     (if lastApplied rf \<ge> commitIndex rf then Some None
      else do {
        entries \<leftarrow> slice_range (Log rf) (lastApplied rf + 1 - lastIncludedIndex rf)
                                        (commitIndex rf + 1 - lastIncludedIndex rf);
        Some (Some (commitIndex rf, map applyMsgOf entries))
      })"

definition applyChecker_done :: "('c, 's) Raft \<Rightarrow> int \<Rightarrow> ('c, 's) Raft" where
  "applyChecker_done rf ci = (if ci > lastApplied rf then rf\<lparr>lastApplied := ci\<rparr> else rf)"

definition Make ::
  "int \<Rightarrow> nat \<Rightarrow> int \<Rightarrow> ('c raft_gob, 's) Persister \<Rightarrow> ('c, 's) Raft" where
  "Make now n i ps =
     readPersist
       \<lparr>peers = n, persister = ps, me = i, dead = False, lastTimeHeared = now, state = FOLLOWER,
        Log = [zeroEntry], currentTerm = 0, votedFor = -1, commitIndex = 0, lastApplied = 0,
        getVotesNum = 0, nextIndex = replicate n 1, matchIndex = replicate n 0,
        lastIncludedIndex = 0, lastIncludedTerm = 0, snapShot = []\<rparr>
       (ReadRaftState ps)"

end
