(* ===== verification/Raft_Inv.thy ===== *)
theory Raft_Inv
  imports Raft_Node
begin

text \<open>
  The invariant of a single raft peer and the behaviour of its operations under it: no operation
  panics, the log keeps its shape, the commit index only grows, and stable storage always holds
  the persistent fields.
\<close>

section \<open>The log as a sequence of logical indices\<close>

text \<open>The logical index of the last entry, and the terms from the snapshot on.\<close>

definition lastLog :: "('c, 's) Raft \<Rightarrow> int" where
  "lastLog rf = lastIncludedIndex rf + int (length (Log rf)) - 1"

definition logTerms :: "('c, 's) Raft \<Rightarrow> int list" where
  "logTerms rf = lastIncludedTerm rf # map eTerm (tl (Log rf))"

text \<open>The entry stored under a logical index, if it is still in the log.\<close>

definition entryAt :: "('c, 's) Raft \<Rightarrow> int \<Rightarrow> 'c LogEntry option" where
  "entryAt rf idx =
     (if lastIncludedIndex rf < idx \<and> idx \<le> lastLog rf
      then Some (Log rf ! nat (idx - lastIncludedIndex rf)) else None)"

definition log_wf :: "('c, 's) Raft \<Rightarrow> bool" where
  "log_wf rf \<longleftrightarrow>
     Log rf \<noteq> [] \<and> 0 \<le> lastIncludedIndex rf \<and>
     (\<forall>i. 0 < i \<and> i < length (Log rf) \<longrightarrow> eIndex (Log rf ! i) = lastIncludedIndex rf + int i) \<and>
     sorted (logTerms rf) \<and> (\<forall>t \<in> set (logTerms rf). 0 \<le> t \<and> t \<le> currentTerm rf)"

definition index_wf :: "('c, 's) Raft \<Rightarrow> bool" where
  "index_wf rf \<longleftrightarrow>
     lastIncludedIndex rf \<le> lastApplied rf \<and> lastApplied rf \<le> commitIndex rf \<and>
     commitIndex rf \<le> lastLog rf"

definition peers_wf :: "('c, 's) Raft \<Rightarrow> bool" where
  "peers_wf rf \<longleftrightarrow>
     0 \<le> me rf \<and> me rf < int (peers rf) \<and>
     length (nextIndex rf) = peers rf \<and> length (matchIndex rf) = peers rf"

definition raft_wf :: "('c, 's) Raft \<Rightarrow> bool" where
  "raft_wf rf \<longleftrightarrow> log_wf rf \<and> index_wf rf \<and> peers_wf rf"

lemmas raft_wf_defs = raft_wf_def log_wf_def index_wf_def peers_wf_def

lemma raft_wfI:
  "log_wf rf \<Longrightarrow> index_wf rf \<Longrightarrow> peers_wf rf \<Longrightarrow> raft_wf rf"
  by (simp add: raft_wf_def)

lemma raft_wfD [dest]:
  assumes "raft_wf rf"
  shows "log_wf rf" "index_wf rf" "peers_wf rf" "Log rf \<noteq> []"
  using assms by (auto simp: raft_wf_def log_wf_def)

lemma logTerms_nth:
  assumes "Log rf \<noteq> []" and "i < length (Log rf)"
  shows "logTerms rf ! i = (if i = 0 then lastIncludedTerm rf else eTerm (Log rf ! i))"
  using assms by (cases i) (auto simp: logTerms_def nth_tl)

lemma length_logTerms: "Log rf \<noteq> [] \<Longrightarrow> length (logTerms rf) = length (Log rf)"
  by (cases "Log rf") (auto simp: logTerms_def)

lemma getLogAt_in:
  assumes "i < length (Log rf)"
  shows "getLogAt rf (int i) = Some (True, lastIncludedIndex rf + int i, logTerms rf ! i)"
proof -
  have "Log rf \<noteq> []" using assms by auto
  with assms show ?thesis
    by (auto simp: getLogAt_def go_simps logTerms_nth)
qed

lemma getLogAt_beyond: "int (length (Log rf)) \<le> i \<Longrightarrow> getLogAt rf i = Some (False, -1, -1)"
  by (simp add: getLogAt_def)

lemma getLogAt_int:
  assumes "0 \<le> i" and "i < int (length (Log rf))"
  shows "getLogAt rf i = Some (True, lastIncludedIndex rf + i, logTerms rf ! nat i)"
  using getLogAt_in [of "nat i" rf] assms by (simp add: nat_less_iff)

lemma getLastLogIndex_eq: "Log rf \<noteq> [] \<Longrightarrow> getLastLogIndex rf = Some (lastLog rf)"
  by (auto simp: getLastLogIndex_def lastLog_def getLogAt_int Suc_leI)

lemma logTerms_not_Nil [simp]: "logTerms rf \<noteq> []"
  by (simp add: logTerms_def)

lemma last_logTerms: "Log rf \<noteq> [] \<Longrightarrow> last (logTerms rf) = logTerms rf ! (length (Log rf) - 1)"
  by (simp add: last_conv_nth length_logTerms)

lemma getLastLogTerm_eq: "Log rf \<noteq> [] \<Longrightarrow> getLastLogTerm rf = Some (last (logTerms rf))"
  by (simp add: getLastLogTerm_def getLogAt_int last_logTerms nat_diff_distrib Suc_leI)

lemmas log_reads = getLogAt_in getLogAt_beyond getLastLogIndex_eq getLastLogTerm_eq

section \<open>Frames\<close>

lemma persist_frame [simp]:
  "peers (persist rf) = peers rf" "me (persist rf) = me rf" "dead (persist rf) = dead rf"
  "lastTimeHeared (persist rf) = lastTimeHeared rf" "state (persist rf) = state rf"
  "Log (persist rf) = Log rf" "currentTerm (persist rf) = currentTerm rf"
  "votedFor (persist rf) = votedFor rf" "commitIndex (persist rf) = commitIndex rf"
  "lastApplied (persist rf) = lastApplied rf" "getVotesNum (persist rf) = getVotesNum rf"
  "nextIndex (persist rf) = nextIndex rf" "matchIndex (persist rf) = matchIndex rf"
  "lastIncludedIndex (persist rf) = lastIncludedIndex rf"
  "lastIncludedTerm (persist rf) = lastIncludedTerm rf"
  by (simp_all add: persist_def)

lemma FollowerState_frame [simp]:
  "peers (FollowerState rf t) = peers rf" "me (FollowerState rf t) = me rf"
  "dead (FollowerState rf t) = dead rf" "state (FollowerState rf t) = FOLLOWER"
  "Log (FollowerState rf t) = Log rf" "currentTerm (FollowerState rf t) = t"
  "votedFor (FollowerState rf t) = -1" "commitIndex (FollowerState rf t) = commitIndex rf"
  "lastApplied (FollowerState rf t) = lastApplied rf" "getVotesNum (FollowerState rf t) = 0"
  "nextIndex (FollowerState rf t) = nextIndex rf" "matchIndex (FollowerState rf t) = matchIndex rf"
  "lastIncludedIndex (FollowerState rf t) = lastIncludedIndex rf"
  "lastIncludedTerm (FollowerState rf t) = lastIncludedTerm rf"
  by (simp_all add: FollowerState_def)

lemma CandidateState_frame [simp]:
  "peers (CandidateState rf) = peers rf" "me (CandidateState rf) = me rf"
  "dead (CandidateState rf) = dead rf" "state (CandidateState rf) = CANDIDATE"
  "Log (CandidateState rf) = Log rf" "currentTerm (CandidateState rf) = currentTerm rf + 1"
  "votedFor (CandidateState rf) = me rf" "commitIndex (CandidateState rf) = commitIndex rf"
  "lastApplied (CandidateState rf) = lastApplied rf" "getVotesNum (CandidateState rf) = 1"
  "nextIndex (CandidateState rf) = nextIndex rf" "matchIndex (CandidateState rf) = matchIndex rf"
  "lastIncludedIndex (CandidateState rf) = lastIncludedIndex rf"
  "lastIncludedTerm (CandidateState rf) = lastIncludedTerm rf"
  by (simp_all add: CandidateState_def)

text \<open>The invariant only reads some of the fields.\<close>

lemma lastLog_cong:
  "Log rf' = Log rf \<Longrightarrow> lastIncludedIndex rf' = lastIncludedIndex rf \<Longrightarrow> lastLog rf' = lastLog rf"
  by (simp add: lastLog_def)

lemma logTerms_cong:
  "Log rf' = Log rf \<Longrightarrow> lastIncludedTerm rf' = lastIncludedTerm rf \<Longrightarrow> logTerms rf' = logTerms rf"
  by (simp add: logTerms_def)

lemma log_wf_mono:
  assumes "log_wf rf" and "Log rf' = Log rf" and "lastIncludedIndex rf' = lastIncludedIndex rf"
    and "lastIncludedTerm rf' = lastIncludedTerm rf" and "currentTerm rf \<le> currentTerm rf'"
  shows "log_wf rf'"
  using assms logTerms_cong [of rf' rf] by (fastforce simp: log_wf_def)

lemma index_wf_cong:
  assumes "index_wf rf" and "Log rf' = Log rf" and "lastIncludedIndex rf' = lastIncludedIndex rf"
    and "lastApplied rf' = lastApplied rf" and "commitIndex rf' = commitIndex rf"
  shows "index_wf rf'"
  using assms lastLog_cong [of rf' rf] by (simp add: index_wf_def)

lemma peers_wf_cong:
  assumes "peers_wf rf" and "peers rf' = peers rf" and "me rf' = me rf"
    and "length (nextIndex rf') = length (nextIndex rf)"
    and "length (matchIndex rf') = length (matchIndex rf)"
  shows "peers_wf rf'"
  using assms by (simp add: peers_wf_def)

lemma raft_wf_frame:
  assumes "raft_wf rf" and "Log rf' = Log rf" and "lastIncludedIndex rf' = lastIncludedIndex rf"
    and "lastIncludedTerm rf' = lastIncludedTerm rf" and "currentTerm rf \<le> currentTerm rf'"
    and "lastApplied rf' = lastApplied rf" and "commitIndex rf' = commitIndex rf"
    and "peers rf' = peers rf" and "me rf' = me rf"
    and "length (nextIndex rf') = length (nextIndex rf)"
    and "length (matchIndex rf') = length (matchIndex rf)"
  shows "raft_wf rf'"
  using assms log_wf_mono [of rf rf'] index_wf_cong [of rf rf'] peers_wf_cong [of rf rf']
  by (auto simp: raft_wf_def)

lemma raft_wf_FollowerState:
  "raft_wf rf \<Longrightarrow> currentTerm rf \<le> t \<Longrightarrow> raft_wf (FollowerState rf t)"
  by (rule raft_wf_frame) auto

lemma raft_wf_CandidateState: "raft_wf rf \<Longrightarrow> raft_wf (CandidateState rf)"
  by (rule raft_wf_frame) auto

lemma raft_wf_persist: "raft_wf rf \<Longrightarrow> raft_wf (persist rf)"
  by (rule raft_wf_frame) auto

section \<open>Votes\<close>

text \<open>The node after it has looked at the term of a request.\<close>

definition bumpTerm :: "('c, 's) Raft \<Rightarrow> int \<Rightarrow> ('c, 's) Raft" where
  "bumpTerm rf t = (if t > currentTerm rf then FollowerState rf t else rf)"

definition upToDate :: "('c, 's) Raft \<Rightarrow> RequestVoteArgs \<Rightarrow> bool" where
  "upToDate rf args \<longleftrightarrow>
     LastLogTerm args > last (logTerms rf) \<or>
     (LastLogTerm args = last (logTerms rf) \<and> LastLogIndex args \<ge> lastLog rf)"

definition grantsVote :: "('c, 's) Raft \<Rightarrow> RequestVoteArgs \<Rightarrow> bool" where
  "grantsVote rf args \<longleftrightarrow>
     rvTerm args \<ge> currentTerm rf \<and> upToDate rf args \<and>
     (rvTerm args > currentTerm rf \<or> votedFor rf = -1 \<or> votedFor rf = CandidateId args)"

lemma bumpTerm_log [simp]:
  "Log (bumpTerm rf t) = Log rf" "lastLog (bumpTerm rf t) = lastLog rf"
  "logTerms (bumpTerm rf t) = logTerms rf" "peers (bumpTerm rf t) = peers rf"
  "me (bumpTerm rf t) = me rf" "currentTerm (bumpTerm rf t) = max (currentTerm rf) t"
  by (auto simp: bumpTerm_def lastLog_def logTerms_def)

lemma raft_wf_bumpTerm: "raft_wf rf \<Longrightarrow> raft_wf (bumpTerm rf t)"
  by (auto simp: bumpTerm_def intro: raft_wf_FollowerState)

lemma RequestVote_eq:
  assumes "Log rf \<noteq> []"
  shows "RequestVote now rf args =
    Some (if grantsVote rf args
          then ((persist ((bumpTerm rf (rvTerm args))\<lparr>votedFor := CandidateId args\<rparr>))
                  \<lparr>lastTimeHeared := now\<rparr>, \<lparr>rvrTerm = rvTerm args, VoteGranted = True\<rparr>)
          else (if rvTerm args < currentTerm rf then persist rf else bumpTerm rf (rvTerm args),
                \<lparr>rvrTerm = max (currentTerm rf) (rvTerm args), VoteGranted = False\<rparr>))"
  using assms
  by (auto simp: RequestVote_def Let_def log_reads grantsVote_def upToDate_def bumpTerm_def
      lastLog_def logTerms_def)

lemma RequestVote_wf:
  assumes "raft_wf rf"
  shows "\<exists>rf' reply. RequestVote now rf args = Some (rf', reply) \<and> raft_wf rf'"
proof -
  have b: "raft_wf (bumpTerm rf (rvTerm args))" by (rule raft_wf_bumpTerm) fact
  then have g: "raft_wf (persist ((bumpTerm rf (rvTerm args))\<lparr>votedFor := v\<rparr>)\<lparr>lastTimeHeared := now\<rparr>)"
    for v by (rule raft_wf_frame) auto
  have "raft_wf (persist rf)" using assms by (rule raft_wf_persist)
  with b g show ?thesis
    using raft_wfD(4) [OF assms] by (simp add: RequestVote_eq)
qed

section \<open>Merging entries into a log\<close>

text \<open>The reference definition: walk along both sequences, keep the old entry while the terms
  agree, and from the first disagreement on take the new entries only.\<close>

fun mergeTail :: "'c LogEntry list \<Rightarrow> 'c LogEntry list \<Rightarrow> 'c LogEntry list" where
  "mergeTail old [] = old"
| "mergeTail [] (e # es) = e # es"
| "mergeTail (x # xs) (e # es) = (if eTerm e \<noteq> eTerm x then e # es else x # mergeTail xs es)"

fun cutTail :: "'c LogEntry list \<Rightarrow> 'c LogEntry list \<Rightarrow> 'c LogEntry list" where
  "cutTail old [] = old"
| "cutTail [] (e # es) = []"
| "cutTail (x # xs) (e # es) = (if eTerm e \<noteq> eTerm x then [] else x # cutTail xs es)"

lemma conflictLoop_cut:
  "j \<le> length log \<Longrightarrow> fst (conflictLoop log j es) = take j log @ cutTail (drop j log) es"
proof (induction log j es rule: conflictLoop.induct)
  case (2 log j e es)
  show ?case
  proof (cases "j < length log")
    case True
    then have "drop j log = log ! j # drop (Suc j) log" by (simp add: Cons_nth_drop_Suc)
    with 2 True show ?thesis by (simp add: take_Suc_conv_app_nth)
  next
    case False
    with 2 show ?thesis by simp
  qed
qed simp

lemma appendLoop_eq:
  "pos \<le> length log \<Longrightarrow> fst (appendLoop log pos es np) = log @ drop (length log - pos) es"
  by (induction log pos es np rule: appendLoop.induct) (auto simp: Suc_diff_le drop_Cons')

lemma appendNewEntries_eq:
  "p \<le> length log \<Longrightarrow> fst (appendNewEntries log p es np) = log @ drop (length log - p) es"
  by (auto simp: appendNewEntries_def appendLoop_eq)

lemma cut_append_merge: "cutTail old es @ drop (length (cutTail old es)) es = mergeTail old es"
  by (induction old es rule: mergeTail.induct) auto

lemma acceptLog_merge:
  assumes "p \<le> length log"
  shows "fst (appendNewEntries (fst (conflictLoop log p es)) p es np) =
         take p log @ mergeTail (drop p log) es"
proof -
  let ?l = "take p log @ cutTail (drop p log) es"
  have "fst (appendNewEntries ?l p es np) = ?l @ drop (length ?l - p) es"
    using assms by (intro appendNewEntries_eq) simp
  also have "\<dots> = take p log @ mergeTail (drop p log) es"
    using assms by (simp add: cut_append_merge [symmetric])
  finally show ?thesis using assms by (simp add: conflictLoop_cut)
qed

text \<open>The flag tells whether the log changed.\<close>

lemma conflictLoop_flag: "\<not> snd (conflictLoop log j es) \<Longrightarrow> fst (conflictLoop log j es) = log"
  by (induction log j es rule: conflictLoop.induct) (auto split: if_splits)

lemma appendLoop_keeps_flag: "snd (appendLoop log pos es True)"
  by (induction log pos es "True" rule: appendLoop.induct) auto

lemma appendLoop_flag:
  "\<not> snd (appendLoop log pos es np) \<Longrightarrow> \<not> np \<and> fst (appendLoop log pos es np) = log"
  by (induction log pos es np rule: appendLoop.induct)
    (auto simp: appendLoop_keeps_flag split: if_splits)

lemma acceptLog_flag:
  assumes "\<not> snd (appendNewEntries (fst (conflictLoop log p es)) p es (snd (conflictLoop log p es)))"
  shows "fst (appendNewEntries (fst (conflictLoop log p es)) p es (snd (conflictLoop log p es))) = log"
  using assms conflictLoop_flag [of log p es] appendLoop_flag
  by (fastforce simp: appendNewEntries_def split: if_splits)

text \<open>What the merged log holds.\<close>

lemma mergeTail_terms:
  "mergeTail old es = old \<or> map eTerm (mergeTail old es) = map eTerm es"
  by (induction old es rule: mergeTail.induct) auto

lemma mergeTail_covers:
  "length es \<le> length (mergeTail old es)" 
  "map eTerm (take (length es) (mergeTail old es)) = map eTerm es"
  by (induction old es rule: mergeTail.induct) auto

lemma mergeTail_nth:
  "i < length (mergeTail old es) \<Longrightarrow>
   (i < length old \<and> mergeTail old es ! i = old ! i) \<or>
   (i < length es \<and> mergeTail old es ! i = es ! i)"
proof (induction old es arbitrary: i rule: mergeTail.induct)
  case (3 x xs e es)
  then show ?case by (cases i) (auto split: if_splits)
qed auto

lemma mergeTail_keeps:
  "\<forall>i<k. i < length old \<and> i < length es \<longrightarrow> eTerm (old ! i) = eTerm (es ! i) \<Longrightarrow>
   i < k \<Longrightarrow> i < length old \<Longrightarrow>
   i < length (mergeTail old es) \<and> mergeTail old es ! i = old ! i"
proof (induction old es arbitrary: i k rule: mergeTail.induct)
  case (3 x xs e es)
  have eq: "eTerm x = eTerm e" using 3(2,3) by force
  show ?case
  proof (cases i)
    case 0
    with eq show ?thesis by simp
  next
    case (Suc m)
    have "\<forall>i<k - 1. i < length xs \<and> i < length es \<longrightarrow> eTerm (xs ! i) = eTerm (es ! i)"
    proof (intro allI impI)
      fix n assume "n < k - 1" and "n < length xs \<and> n < length es"
      then show "eTerm (xs ! n) = eTerm (es ! n)" using 3(2) [rule_format, of "Suc n"] by simp
    qed
    moreover have "m < k - 1" and "m < length xs" using Suc 3(3,4) by auto
    ultimately show ?thesis using 3(1) [of "k - 1" m] eq Suc by auto
  qed
qed auto

section \<open>AppendEntries\<close>

text \<open>What a correct leader sends: consecutive indices, non-decreasing terms up to its own, and a
  commit index inside the log it describes.\<close>

definition ae_wf :: "'c AppendEntriesArgs \<Rightarrow> bool" where
  "ae_wf args \<longleftrightarrow>
     (\<forall>i < length (Entries args). eIndex (Entries args ! i) = PrevLogIndex args + 1 + int i) \<and>
     sorted (PrevLogTerm args # map eTerm (Entries args)) \<and>
     (\<forall>e \<in> set (Entries args). eTerm e \<le> aeTerm args) \<and>
     LeaderCommit args \<le> PrevLogIndex args + int (length (Entries args))"

text \<open>The entries do not contradict what the peer has committed.\<close>

definition committed_agrees :: "('c, 's) Raft \<Rightarrow> 'c AppendEntriesArgs \<Rightarrow> bool" where
  "committed_agrees rf args \<longleftrightarrow>
     (\<forall>i < length (Entries args). \<forall>e.
        PrevLogIndex args + 1 + int i \<le> commitIndex rf \<longrightarrow>
        entryAt rf (PrevLogIndex args + 1 + int i) = Some e \<longrightarrow>
        eTerm e = eTerm (Entries args ! i))"

text \<open>Whether the consistency check succeeds, on a node whose term is not above the leader's.\<close>

definition prevMatches :: "('c, 's) Raft \<Rightarrow> 'c AppendEntriesArgs \<Rightarrow> bool" where
  "prevMatches rf args \<longleftrightarrow>
     lastIncludedIndex rf \<le> PrevLogIndex args \<and> PrevLogIndex args \<le> lastLog rf \<and>
     logTerms rf ! nat (PrevLogIndex args - lastIncludedIndex rf) = PrevLogTerm args"

definition aeNode :: "int \<Rightarrow> ('c, 's) Raft \<Rightarrow> 'c AppendEntriesArgs \<Rightarrow> ('c, 's) Raft" where
  "aeNode now rf args =
     (if aeTerm args > currentTerm rf \<or> (aeTerm args = currentTerm rf \<and> state rf = CANDIDATE)
      then FollowerState rf (aeTerm args) else rf)\<lparr>lastTimeHeared := now\<rparr>"

lemma aeNode_frame [simp]:
  "Log (aeNode now rf args) = Log rf" "lastLog (aeNode now rf args) = lastLog rf"
  "logTerms (aeNode now rf args) = logTerms rf" "peers (aeNode now rf args) = peers rf"
  "me (aeNode now rf args) = me rf" "commitIndex (aeNode now rf args) = commitIndex rf"
  "lastApplied (aeNode now rf args) = lastApplied rf"
  "lastIncludedIndex (aeNode now rf args) = lastIncludedIndex rf"
  "lastIncludedTerm (aeNode now rf args) = lastIncludedTerm rf"
  "nextIndex (aeNode now rf args) = nextIndex rf" "matchIndex (aeNode now rf args) = matchIndex rf"
  "currentTerm (aeNode now rf args) = max (currentTerm rf) (aeTerm args)"
  by (auto simp: aeNode_def lastLog_def logTerms_def)

lemma entryAt_aeNode [simp]: "entryAt (aeNode now rf args) idx = entryAt rf idx"
  by (simp add: entryAt_def)

lemma raft_wf_aeNode: "raft_wf rf \<Longrightarrow> raft_wf (aeNode now rf args)"
  by (rule raft_wf_frame) auto

lemma sameTermLoop_Some:
  "i \<le> length log \<Longrightarrow> \<exists>r. sameTermLoop log t i = Some r \<and> 0 \<le> r \<and> r \<le> int i"
  by (induction i) (auto simp: go_simps intro: order_trans)

lemma getSameTermFirst_Some:
  assumes "0 \<le> i" and "i < int (length (Log rf))"
  shows "\<exists>r. getSameTermFirst rf i = Some r \<and> 0 \<le> r \<and> r \<le> i"
  using assms sameTermLoop_Some [of "nat i" "Log rf" "logTerms rf ! nat i"]
  by (auto simp: getSameTermFirst_def getLogAt_int)

text \<open>The three outcomes of the handler: a stale term, a failed consistency check, acceptance.\<close>

lemma AppendEntries_stale:
  assumes "aeTerm args < currentTerm rf"
  shows "AppendEntries now rf args = Some (rf, zeroAppendReply\<lparr>aerTerm := currentTerm rf\<rparr>)"
  using assms by (simp add: AppendEntries_def zeroAppendReply_def)

lemma AppendEntries_fresh:
  assumes "Log rf \<noteq> []" and "currentTerm rf \<le> aeTerm args"
  shows "AppendEntries now rf args =
    (let rf' = aeNode now rf args; r = PrevLogIndex args - lastIncludedIndex rf in
     if PrevLogIndex args < lastIncludedIndex rf
     then Some (rf', zeroAppendReply\<lparr>aerTerm := aeTerm args, LogInconsistency := True, XTerm := -1,
                       XIndex := lastIncludedIndex rf + 1\<rparr>)
     else if PrevLogIndex args > lastLog rf
     then Some (rf', zeroAppendReply\<lparr>aerTerm := aeTerm args, LogInconsistency := True, XTerm := -1,
                       XIndex := lastLog rf + 1\<rparr>)
     else if logTerms rf ! nat r \<noteq> PrevLogTerm args
     then map_option (\<lambda>first. (rf', zeroAppendReply\<lparr>aerTerm := aeTerm args, LogInconsistency := True,
                       XTerm := logTerms rf ! nat r, XIndex := first + lastIncludedIndex rf\<rparr>))
            (getSameTermFirst rf' r)
     else Some (acceptEntries rf' args (nat r) (lastLog rf)))"
    (is "_ = ?thesis_rhs")
proof -
  let ?rf = "aeNode now rf args"
  have t: "currentTerm ?rf = aeTerm args" using assms(2) by simp
  have last: "getLastLogIndex ?rf = Some (lastLog rf)"
    using assms(1) by (simp add: getLastLogIndex_eq)
  have at: "getLogAt ?rf (PrevLogIndex args - lastIncludedIndex rf) =
      Some (True, PrevLogIndex args, logTerms rf ! nat (PrevLogIndex args - lastIncludedIndex rf))"
    if "\<not> PrevLogIndex args < lastIncludedIndex rf" "\<not> PrevLogIndex args > lastLog rf"
    using that by (subst getLogAt_int) (auto simp: lastLog_def)
  have "AppendEntries now rf args = checkPrevLog ?rf args"
    using assms(2) by (auto simp: AppendEntries_def Let_def aeNode_def)
  also have "\<dots> = ?thesis_rhs"
    unfolding checkPrevLog_def Let_def last
    using t by (simp add: at map_conv_bind_option comp_def zeroAppendReply_def)
  finally show ?thesis .
qed

lemma AppendEntries_mismatch:
  assumes "Log rf \<noteq> []" and "currentTerm rf \<le> aeTerm args" and "\<not> prevMatches rf args"
  shows "\<exists>reply. AppendEntries now rf args = Some (aeNode now rf args, reply) \<and>
    \<not> Success reply \<and> LogInconsistency reply \<and> aerTerm reply = aeTerm args \<and>
    (PrevLogIndex args < lastIncludedIndex rf \<longrightarrow>
       XTerm reply = -1 \<and> XIndex reply = lastIncludedIndex rf + 1) \<and>
    (PrevLogIndex args > lastLog rf \<longrightarrow> lastIncludedIndex rf \<le> PrevLogIndex args \<longrightarrow>
       XTerm reply = -1 \<and> XIndex reply = lastLog rf + 1)"
  using assms getSameTermFirst_Some [of "PrevLogIndex args - lastIncludedIndex rf" "aeNode now rf args"]
  by (auto simp: AppendEntries_fresh prevMatches_def Let_def zeroAppendReply_def lastLog_def)

lemma AppendEntries_accept:
  assumes "Log rf \<noteq> []" and "currentTerm rf \<le> aeTerm args" and "prevMatches rf args"
  shows "AppendEntries now rf args =
    Some (acceptEntries (aeNode now rf args) args
            (nat (PrevLogIndex args - lastIncludedIndex rf)) (lastLog rf))"
  using assms by (simp add: AppendEntries_fresh prevMatches_def Let_def)

text \<open>The accepted log and commit index.\<close>

lemma acceptEntries_Log:
  assumes "p < length (Log rf)"
  shows "Log (fst (acceptEntries rf args p l)) =
         take (Suc p) (Log rf) @ mergeTail (drop (Suc p) (Log rf)) (Entries args)"
  using acceptLog_merge [of "Suc p" "Log rf" "Entries args"] assms
  by (simp add: acceptEntries_def Let_def split_beta)

lemma acceptEntries_commit:
  "commitIndex (fst (acceptEntries rf args p l)) =
   (if LeaderCommit args > commitIndex rf then min (LeaderCommit args) l else commitIndex rf)"
  by (auto simp: acceptEntries_def Let_def split_beta)

lemma acceptEntries_frame [simp]:
  "peers (fst (acceptEntries rf args p l)) = peers rf"
  "me (fst (acceptEntries rf args p l)) = me rf"
  "state (fst (acceptEntries rf args p l)) = state rf"
  "currentTerm (fst (acceptEntries rf args p l)) = currentTerm rf"
  "votedFor (fst (acceptEntries rf args p l)) = votedFor rf"
  "getVotesNum (fst (acceptEntries rf args p l)) = getVotesNum rf"
  "lastApplied (fst (acceptEntries rf args p l)) = lastApplied rf"
  "nextIndex (fst (acceptEntries rf args p l)) = nextIndex rf"
  "matchIndex (fst (acceptEntries rf args p l)) = matchIndex rf"
  "lastIncludedIndex (fst (acceptEntries rf args p l)) = lastIncludedIndex rf"
  "lastIncludedTerm (fst (acceptEntries rf args p l)) = lastIncludedTerm rf"
  "dead (fst (acceptEntries rf args p l)) = dead rf"
  by (auto simp: acceptEntries_def Let_def split_beta)

lemma acceptEntries_reply [simp]:
  "aerTerm (snd (acceptEntries rf args p l)) = currentTerm rf"
  "Success (snd (acceptEntries rf args p l))"
  by (auto simp: acceptEntries_def Let_def split_beta)

lemma logTerms_accept:
  assumes "p < length (Log rf)"
  shows "logTerms (fst (acceptEntries rf args p l)) =
    take (Suc p) (logTerms rf) @ map eTerm (mergeTail (drop (Suc p) (Log rf)) (Entries args))"
  using assms
  by (cases "Log rf") (auto simp: logTerms_def acceptEntries_Log take_map)

lemma take_logTerms_drop:
  "p < length (Log rf) \<Longrightarrow>
   take (Suc p) (logTerms rf) @ map eTerm (drop (Suc p) (Log rf)) = logTerms rf"
  by (cases "Log rf") (auto simp: logTerms_def simp flip: map_append drop_map take_map)

text \<open>A sorted sequence stays sorted when a sorted continuation of its element at \<open>p\<close> replaces
  what follows.\<close>

lemma sorted_take_append:
  assumes "sorted xs" and "p < length xs" and "sorted (xs ! p # ys)"
  shows "sorted (take (Suc p) xs @ ys)"
proof -
  have "x \<le> xs ! p" if "x \<in> set (take (Suc p) xs)" for x
    using that assms(1,2) by (auto simp: in_set_conv_nth less_Suc_eq_le intro: sorted_nth_mono)
  moreover have "xs ! p \<le> y" if "y \<in> set ys" for y using that assms(3) by simp
  ultimately have "x \<le> y" if "x \<in> set (take (Suc p) xs)" "y \<in> set ys" for x y
    using that order_trans by blast
  then show ?thesis using assms(1,3) by (simp add: sorted_append sorted_wrt_take)
qed

lemma acceptEntries_log_wf:
  assumes wf: "log_wf rf" and p: "p < length (Log rf)"
    and prev: "PrevLogIndex args = lastIncludedIndex rf + int p"
    and pterm: "logTerms rf ! p = PrevLogTerm args"
    and cur: "currentTerm rf = aeTerm args" and args: "ae_wf args"
  shows "log_wf (fst (acceptEntries rf args p l))"
proof -
  let ?rf = "fst (acceptEntries rf args p l)"
  let ?old = "drop (Suc p) (Log rf)" and ?es = "Entries args"
  let ?M = "mergeTail ?old ?es"
  have lenT: "p < length (logTerms rf)" using p wf by (simp add: length_logTerms log_wf_def)
  have log: "Log ?rf = take (Suc p) (Log rf) @ ?M" using p by (rule acceptEntries_Log)
  have idx: "eIndex (Log ?rf ! i) = lastIncludedIndex rf + int i"
    if i: "0 < i" "i < length (Log ?rf)" for i
  proof (cases "i \<le> p")
    case True
    then show ?thesis using i wf p by (simp add: log nth_append log_wf_def)
  next
    case False
    then have *: "Log ?rf ! i = ?M ! (i - Suc p)" and "i - Suc p < length ?M"
      using i p by (auto simp: log nth_append)
    from mergeTail_nth [OF this(2)] show ?thesis
    proof
      assume "i - Suc p < length ?old \<and> ?M ! (i - Suc p) = ?old ! (i - Suc p)"
      then have "i < length (Log rf)" and "Log ?rf ! i = Log rf ! i" using False p * by auto
      then show ?thesis using i(1) wf by (simp add: log_wf_def)
    next
      assume "i - Suc p < length ?es \<and> ?M ! (i - Suc p) = ?es ! (i - Suc p)"
      then show ?thesis using False * prev args by (simp add: ae_wf_def of_nat_diff)
    qed
  qed
  have terms: "sorted (logTerms ?rf) \<and> (\<forall>t \<in> set (logTerms ?rf). 0 \<le> t \<and> t \<le> currentTerm rf)"
  proof (cases "?M = ?old")
    case True
    then show ?thesis using wf p by (simp add: logTerms_accept take_logTerms_drop log_wf_def)
  next
    case False
    then have M: "map eTerm ?M = map eTerm ?es" using mergeTail_terms by blast
    have T: "logTerms ?rf = take (Suc p) (logTerms rf) @ map eTerm ?es"
      using p by (simp add: logTerms_accept M)
    have "sorted (logTerms ?rf)"
      unfolding T using wf lenT args pterm
      by (intro sorted_take_append) (auto simp: log_wf_def ae_wf_def)
    moreover have "0 \<le> PrevLogTerm args" using wf lenT pterm nth_mem by (fastforce simp: log_wf_def)
    then have "0 \<le> t \<and> t \<le> currentTerm rf" if "t \<in> set (map eTerm ?es)" for t
      using that args cur by (fastforce simp: ae_wf_def)
    ultimately show ?thesis
      using wf by (auto simp: T log_wf_def dest: in_set_takeD)
  qed
  show ?thesis using idx terms wf p by (auto simp: log_wf_def log)
qed

text \<open>What is committed stays where it is.\<close>

lemma acceptEntries_keeps_committed:
  assumes wf: "log_wf rf" and p: "p < length (Log rf)"
    and prev: "PrevLogIndex args = lastIncludedIndex rf + int p"
    and agree: "committed_agrees rf args"
    and i: "i < length (Log rf)" "lastIncludedIndex rf + int i \<le> commitIndex rf"
  shows "i < length (Log (fst (acceptEntries rf args p l))) \<and>
         Log (fst (acceptEntries rf args p l)) ! i = Log rf ! i"
proof (cases "i \<le> p")
  case True
  then show ?thesis using p by (simp add: acceptEntries_Log nth_append)
next
  case False
  let ?old = "drop (Suc p) (Log rf)" and ?es = "Entries args"
  define k where "k = Suc (i - Suc p)"
  have "\<forall>n<k. n < length ?old \<and> n < length ?es \<longrightarrow> eTerm (?old ! n) = eTerm (?es ! n)"
  proof (intro allI impI)
    fix n assume n: "n < k" "n < length ?old \<and> n < length ?es"
    have "entryAt rf (PrevLogIndex args + 1 + int n) = Some (?old ! n)"
      using n(2) p prev by (auto simp: entryAt_def lastLog_def nat_add_distrib)
    moreover have "PrevLogIndex args + 1 + int n \<le> commitIndex rf"
      using n(1) False i(2) prev by (simp add: k_def)
    ultimately show "eTerm (?old ! n) = eTerm (?es ! n)"
      using agree n(2) by (auto simp: committed_agrees_def)
  qed
  then have "i - Suc p < length (mergeTail ?old ?es) \<and>
      mergeTail ?old ?es ! (i - Suc p) = ?old ! (i - Suc p)"
    by (rule mergeTail_keeps) (use False i k_def in auto)
  with False i p show ?thesis by (auto simp: acceptEntries_Log nth_append)
qed

lemma acceptEntries_wf:
  assumes wf: "raft_wf rf" and p: "p < length (Log rf)"
    and prev: "PrevLogIndex args = lastIncludedIndex rf + int p"
    and pterm: "logTerms rf ! p = PrevLogTerm args"
    and cur: "currentTerm rf = aeTerm args" and args: "ae_wf args"
    and agree: "committed_agrees rf args"
  shows "raft_wf (fst (acceptEntries rf args p (lastLog rf)))"
proof -
  let ?rf = "fst (acceptEntries rf args p (lastLog rf))"
  have "log_wf ?rf"
    using wf p prev pterm cur args by (intro acceptEntries_log_wf) auto
  moreover have "peers_wf ?rf"
    using raft_wfD(3) [OF wf] by (rule peers_wf_cong) simp_all
  moreover have "index_wf ?rf"
  proof -
    have bounds: "lastIncludedIndex rf \<le> commitIndex rf" "commitIndex rf \<le> lastLog rf"
      using wf by (auto simp: raft_wf_def index_wf_def)
    define i where "i = nat (commitIndex rf - lastIncludedIndex rf)"
    have i: "i < length (Log rf)" "lastIncludedIndex rf + int i = commitIndex rf"
      using bounds by (auto simp: i_def lastLog_def)
    have "i < length (Log ?rf)"
      using acceptEntries_keeps_committed [OF raft_wfD(1) [OF wf] p prev agree, of i] i by simp
    then have 1: "commitIndex rf \<le> lastLog ?rf" using i(2) by (simp add: lastLog_def)
    have "length (Entries args) \<le> length (mergeTail (drop (Suc p) (Log rf)) (Entries args))"
      by (rule mergeTail_covers)
    then have "PrevLogIndex args + int (length (Entries args)) \<le> lastLog ?rf"
      using p prev by (simp add: lastLog_def acceptEntries_Log)
    then have 2: "LeaderCommit args \<le> lastLog ?rf" using args by (simp add: ae_wf_def)
    show ?thesis
      using wf 1 2 by (auto simp: raft_wf_def index_wf_def acceptEntries_commit min_le_iff_disj)
  qed
  ultimately show ?thesis by (simp add: raft_wf_def)
qed

text \<open>The whole handler.\<close>

lemma AppendEntries_wf:
  assumes wf: "raft_wf rf" and args: "ae_wf args" and agree: "committed_agrees rf args"
  shows "\<exists>rf' reply. AppendEntries now rf args = Some (rf', reply) \<and> raft_wf rf'"
proof (cases "aeTerm args < currentTerm rf")
  case True
  with wf show ?thesis by (simp add: AppendEntries_stale)
next
  case False
  have ne: "Log rf \<noteq> []" using wf by auto
  let ?rf = "aeNode now rf args"
  show ?thesis
  proof (cases "prevMatches rf args")
    case True
    define p where "p = nat (PrevLogIndex args - lastIncludedIndex rf)"
    have p: "p < length (Log ?rf)" "PrevLogIndex args = lastIncludedIndex ?rf + int p"
      "logTerms ?rf ! p = PrevLogTerm args"
      using True by (auto simp: p_def prevMatches_def lastLog_def)
    have "committed_agrees ?rf args" using agree by (simp only: committed_agrees_def entryAt_aeNode aeNode_frame)
    with p have "raft_wf (fst (acceptEntries ?rf args p (lastLog ?rf)))"
      using False wf args by (intro acceptEntries_wf) (auto intro: raft_wf_aeNode)
    moreover have "AppendEntries now rf args = Some (acceptEntries ?rf args p (lastLog ?rf))"
      using False True ne by (simp add: AppendEntries_accept p_def)
    ultimately show ?thesis by (cases "acceptEntries ?rf args p (lastLog ?rf)") simp
  next
    case False
    obtain reply where "AppendEntries now rf args = Some (?rf, reply)"
      using AppendEntries_mismatch [OF ne _ False, of now] \<open>\<not> aeTerm args < currentTerm rf\<close>
      by (meson not_less)
    then show ?thesis using raft_wf_aeNode [OF wf] by simp
  qed
qed

end
