(* ===== verification/Raft_Commit.thy ===== *)
theory Raft_Commit
  imports Raft_Inv
begin

text \<open>
  The commit rule of the leader: \<open>countReplica\<close> of \<open>src/raft/raft.go\<close> against the rule of the raft
  paper, and the leader's handling of replies.
\<close>

section \<open>The rule\<close>

text \<open>The other peers known to store the log up to \<open>idx\<close>, the majority condition (the leader counts
  itself), and the rule: the entry has the current term and a majority stores it.\<close>

definition replicasAt :: "('c, 's) Raft \<Rightarrow> int \<Rightarrow> nat set" where
  "replicasAt rf idx = {j. j < peers rf \<and> int j \<noteq> me rf \<and> matchIndex rf ! j \<ge> idx}"

definition majorityAt :: "('c, 's) Raft \<Rightarrow> int \<Rightarrow> bool" where
  "majorityAt rf idx \<longleftrightarrow> 1 + card (replicasAt rf idx) > peers rf div 2"

definition committable :: "('c, 's) Raft \<Rightarrow> int \<Rightarrow> bool" where
  "committable rf idx \<longleftrightarrow>
     commitIndex rf < idx \<and> idx \<le> lastLog rf \<and> majorityAt rf idx \<and>
     logTerms rf ! nat (idx - lastIncludedIndex rf) = currentTerm rf"

lemma replicaLoop_eq:
  assumes "length (matchIndex rf) = peers rf" and "set js \<subseteq> {..<peers rf}"
  shows "replicaLoop rf target js n =
    Some (n + int (length (filter (\<lambda>j. int j \<noteq> me rf \<and> matchIndex rf ! j \<ge> target) js)))"
  using assms by (induction js arbitrary: n) (auto simp: go_simps)

lemma replicaLoop_card:
  assumes "length (matchIndex rf) = peers rf"
  shows "replicaLoop rf target [0..<peers rf] 1 = Some (1 + int (card (replicasAt rf target)))"
proof -
  let ?P = "\<lambda>j. int j \<noteq> me rf \<and> matchIndex rf ! j \<ge> target"
  have "length (filter ?P [0..<peers rf]) = card (set (filter ?P [0..<peers rf]))"
    by (intro distinct_card [symmetric]) simp
  also have "set (filter ?P [0..<peers rf]) = replicasAt rf target"
    by (auto simp: replicasAt_def)
  finally show ?thesis using assms by (subst replicaLoop_eq) auto
qed

lemma majorityAt_int: "majorityAt rf idx \<longleftrightarrow> int (peers rf) div 2 < 1 + int (card (replicasAt rf idx))"
  unfolding majorityAt_def by presburger

text \<open>The start of the loop is the first entry of the current term.\<close>

lemma realIndexStartLoop_eq:
  assumes "set is \<subseteq> {..<length (Log rf)}"
  shows "realIndexStartLoop rf is d =
    Some (case find (\<lambda>i. logTerms rf ! i = currentTerm rf) is of None \<Rightarrow> d | Some i \<Rightarrow> int i)"
  using assms by (induction "is") (auto simp: getLogAt_in)

lemma realIndexStart_first:
  assumes "Log rf \<noteq> []" and "last (logTerms rf) = currentTerm rf"
  shows "\<exists>k. realIndexStartLoop rf [0..<length (Log rf)] d = Some (int k) \<and> k < length (Log rf) \<and>
    logTerms rf ! k = currentTerm rf \<and> (\<forall>i<k. logTerms rf ! i \<noteq> currentTerm rf)"
proof -
  let ?P = "\<lambda>i. logTerms rf ! i = currentTerm rf"
  have "?P (length (Log rf) - 1)" using assms by (simp add: last_logTerms)
  then obtain k where k: "find ?P [0..<length (Log rf)] = Some k"
    using assms(1) by (cases "find ?P [0..<length (Log rf)]") (auto simp: find_None_iff)
  then have "k < length (Log rf) \<and> ?P k \<and> (\<forall>i<k. \<not> ?P i)"
    by (auto simp: find_Some_iff)
  moreover have "realIndexStartLoop rf [0..<length (Log rf)] d = Some (int k)"
    using k by (subst realIndexStartLoop_eq) auto
  ultimately show ?thesis by blast
qed

text \<open>In a sorted log whose last term is the current one, the entries from the first of the term on
  all have it.\<close>

lemma current_term_suffix:
  assumes "log_wf rf" and "k < length (Log rf)" and "logTerms rf ! k = currentTerm rf"
    and "k \<le> i" and "i < length (Log rf)"
  shows "logTerms rf ! i = currentTerm rf"
proof -
  have len: "length (logTerms rf) = length (Log rf)"
    using assms(1) by (simp add: length_logTerms log_wf_def)
  have "logTerms rf ! k \<le> logTerms rf ! i"
    using assms len by (intro sorted_nth_mono) (auto simp: log_wf_def)
  moreover have "logTerms rf ! i \<le> currentTerm rf"
    using assms len by (auto simp: log_wf_def)
  ultimately show ?thesis using assms(3) by simp
qed

lemma commitLoop_spec:
  assumes len: "length (matchIndex rf) = peers rf"
  shows "\<exists>N. commitLoop rf start (rev [0..<n]) = Some N \<and>
    ((N = commitIndex rf \<and>
      (\<forall>i<n. start \<le> int i \<and> commitIndex rf < int i + lastIncludedIndex rf \<longrightarrow>
             \<not> majorityAt rf (int i + lastIncludedIndex rf))) \<or>
     (\<exists>i<n. N = int i + lastIncludedIndex rf \<and> start \<le> int i \<and> commitIndex rf < N \<and>
        majorityAt rf N \<and> (\<forall>k<n. i < k \<longrightarrow> \<not> majorityAt rf (int k + lastIncludedIndex rf))))"
    (is "\<exists>N. _ = _ \<and> ?spec n N")
proof (induction n)
  case 0
  show ?case by simp
next
  case (Suc n)
  let ?idx = "int n + lastIncludedIndex rf"
  have unf: "commitLoop rf start (rev [0..<Suc n]) =
      (if ?idx > commitIndex rf \<and> int n \<ge> start
       then if majorityAt rf ?idx then Some ?idx else commitLoop rf start (rev [0..<n])
       else Some (commitIndex rf))"
    using len by (simp add: replicaLoop_card majorityAt_int)
  consider (stop) "\<not> (?idx > commitIndex rf \<and> int n \<ge> start)"
    | (hit) "?idx > commitIndex rf \<and> int n \<ge> start" "majorityAt rf ?idx"
    | (down) "?idx > commitIndex rf \<and> int n \<ge> start" "\<not> majorityAt rf ?idx" by blast
  then show ?case
  proof cases
    case stop
    then have "?spec (Suc n) (commitIndex rf)" by (auto simp: less_Suc_eq)
    with stop show ?thesis unfolding unf by auto
  next
    case hit
    then have "?spec (Suc n) ?idx" by auto
    with hit show ?thesis unfolding unf by auto
  next
    case down
    from Suc obtain N where N: "commitLoop rf start (rev [0..<n]) = Some N" "?spec n N" by blast
    then have "?spec (Suc n) N" using down by (auto simp: less_Suc_eq)
    with N down show ?thesis unfolding unf by auto
  qed
qed

text \<open>\<open>countReplica\<close> returns the largest index that may be committed, or the commit index.\<close>

lemma countReplica_spec:
  assumes wf: "raft_wf rf"
  shows "\<exists>N. countReplica rf = Some N \<and> commitIndex rf \<le> N \<and> N \<le> lastLog rf \<and>
    (N \<noteq> commitIndex rf \<longrightarrow> committable rf N) \<and> (\<forall>idx. committable rf idx \<longrightarrow> idx \<le> N)"
proof -
  note ne = raft_wfD(4) [OF wf] and lw = raft_wfD(1) [OF wf]
  have len: "length (matchIndex rf) = peers rf" using wf by (simp add: raft_wf_def peers_wf_def)
  have b: "lastIncludedIndex rf \<le> commitIndex rf" "commitIndex rf \<le> lastLog rf"
    using wf by (auto simp: raft_wf_def index_wf_def)
  have real: "\<exists>i. idx = int i + lastIncludedIndex rf \<and> i < length (Log rf)"
    if "committable rf idx" for idx
    using that b by (intro exI [of _ "nat (idx - lastIncludedIndex rf)"])
      (auto simp: committable_def lastLog_def)
  show ?thesis
  proof (cases "last (logTerms rf) = currentTerm rf")
    case False
    have "\<not> committable rf idx" for idx
    proof
      assume c: "committable rf idx"
      then obtain i where i: "idx = int i + lastIncludedIndex rf" "i < length (Log rf)"
        using real by blast
      then have "logTerms rf ! i = currentTerm rf" using c by (simp add: committable_def)
      then have "logTerms rf ! (length (Log rf) - 1) = currentTerm rf"
        by (rule current_term_suffix [OF lw i(2)]) (use i(2) in auto)
      then show False using False ne by (simp add: last_logTerms)
    qed
    with False b ne show ?thesis by (auto simp: countReplica_def getLastLogTerm_eq)
  next
    case True
    from realIndexStart_first [OF ne True] obtain k where
      k: "realIndexStartLoop rf [0..<length (Log rf)] (int (length (Log rf)) - 1) = Some (int k)"
        "k < length (Log rf)" "logTerms rf ! k = currentTerm rf"
        "\<forall>i<k. logTerms rf ! i \<noteq> currentTerm rf" by blast
    from commitLoop_spec [OF len, of "int k" "length (Log rf)"] obtain N where
      N: "commitLoop rf (int k) (rev [0..<length (Log rf)]) = Some N" and
      spec: "(N = commitIndex rf \<and>
        (\<forall>i<length (Log rf). int k \<le> int i \<and> commitIndex rf < int i + lastIncludedIndex rf \<longrightarrow>
               \<not> majorityAt rf (int i + lastIncludedIndex rf))) \<or>
       (\<exists>i<length (Log rf). N = int i + lastIncludedIndex rf \<and> int k \<le> int i \<and> commitIndex rf < N \<and>
          majorityAt rf N \<and>
          (\<forall>m<length (Log rf). i < m \<longrightarrow> \<not> majorityAt rf (int m + lastIncludedIndex rf)))" by blast
    have ge: "commitIndex rf \<le> N" using spec by auto
    have cr: "countReplica rf = Some N"
      using True ne k N ge b by (simp add: countReplica_def getLastLogTerm_eq)
    have kmin: "k \<le> i" if "committable rf (int i + lastIncludedIndex rf)" for i
    proof (rule ccontr)
      assume "\<not> k \<le> i"
      with that k(4) show False by (simp add: committable_def)
    qed
    have max: "idx \<le> N" if c: "committable rf idx" for idx
    proof -
      obtain i where i: "idx = int i + lastIncludedIndex rf" "i < length (Log rf)"
        using real c by blast
      then have "k \<le> i" "majorityAt rf (int i + lastIncludedIndex rf)" "commitIndex rf < idx"
        using c kmin [of i] by (simp_all add: committable_def)
      note maj = this
      from spec show ?thesis
      proof (elim disjE exE conjE)
        assume "\<forall>i<length (Log rf). int k \<le> int i \<and> commitIndex rf < int i + lastIncludedIndex rf \<longrightarrow>
               \<not> majorityAt rf (int i + lastIncludedIndex rf)"
        then show ?thesis using maj i by simp
      next
        fix j
        assume "N = int j + lastIncludedIndex rf"
          and "\<forall>m<length (Log rf). j < m \<longrightarrow> \<not> majorityAt rf (int m + lastIncludedIndex rf)"
        then show ?thesis using maj(2) i by (cases "j < i") auto
      qed
    qed
    have "committable rf N \<and> N \<le> lastLog rf" if "N \<noteq> commitIndex rf"
    proof -
      from spec that obtain j where j: "j < length (Log rf)" "N = int j + lastIncludedIndex rf"
        "k \<le> j" "commitIndex rf < N" "majorityAt rf N" by auto
      then have "logTerms rf ! j = currentTerm rf" by (intro current_term_suffix [OF lw k(2,3)])
      with j show ?thesis by (simp add: committable_def lastLog_def)
    qed
    with cr ge max b show ?thesis by auto
  qed
qed

section \<open>The leader's goroutines\<close>

lemma leaderStateLoop_eq:
  assumes "Log rf \<noteq> []" and "set is \<subseteq> {..<peers rf}"
    and "length (nextIndex rf) = peers rf" and "length (matchIndex rf) = peers rf"
  shows "leaderStateLoop rf is =
    Some (rf\<lparr>nextIndex := fold (\<lambda>i xs. xs[i := lastLog rf + 1]) is (nextIndex rf),
             matchIndex := fold (\<lambda>i xs. xs[i := -1]) is (matchIndex rf)\<rparr>)"
  using assms
proof (induction "is" arbitrary: rf)
  case (Cons i "is")
  then show ?case by (simp add: getLastLogIndex_eq go_simps lastLog_def)
qed simp

lemma fold_update_all:
  assumes "length xs = n"
  shows "fold (\<lambda>i xs. xs[i := v]) [0..<n] xs = replicate n v"
proof -
  have *: "fold (\<lambda>i xs. xs[i := v]) [0..<m] xs = replicate m v @ drop m xs" if "m \<le> n" for m
    using that assms
    by (induction m) (auto simp: list_update_append Cons_nth_drop_Suc [symmetric] replicate_append_same)
  from * [of n] assms show ?thesis by simp
qed

lemma LeaderState_eq:
  assumes "Log rf \<noteq> []" and "peers_wf rf"
  shows "LeaderState rf =
    Some (rf\<lparr>state := LEADER, nextIndex := replicate (peers rf) (lastLog rf + 1),
             matchIndex := replicate (peers rf) (-1)\<rparr>)"
  using assms
  by (simp add: LeaderState_def leaderStateLoop_eq fold_update_all peers_wf_def lastLog_def
      lessThan_atLeast0)

lemma raft_wf_LeaderState:
  assumes "raft_wf rf"
  shows "\<exists>rf'. LeaderState rf = Some rf' \<and> raft_wf rf' \<and> state rf' = LEADER"
proof -
  have "raft_wf (rf\<lparr>state := LEADER, nextIndex := replicate (peers rf) (lastLog rf + 1),
             matchIndex := replicate (peers rf) (-1)\<rparr>)"
    using assms by (rule raft_wf_frame) (use assms in \<open>auto simp: raft_wf_def peers_wf_def\<close>)
  then show ?thesis using assms by (simp add: LeaderState_eq raft_wfD)
qed

text \<open>The vote counter: a reply either makes the node a follower, is ignored, or is counted.\<close>

lemma candidateRequestVote_reply_wf:
  assumes "raft_wf rf"
  shows "\<exists>rf'. candidateRequestVote_reply rf args reply = Some rf' \<and> raft_wf rf'"
proof -
  have 1: "raft_wf (rf\<lparr>getVotesNum := n\<rparr>)" for n
    using assms by (rule raft_wf_frame) simp_all
  have 2: "raft_wf (FollowerState rf t)" if "currentTerm rf < t" for t
    using assms that by (intro raft_wf_FollowerState) simp_all
  show ?thesis
    using assms 1 2 raft_wf_LeaderState [OF 1, of "getVotesNum rf + 1"]
    by (auto simp: candidateRequestVote_reply_def Let_def)
qed

lemma slice_set_index:
  assumes "peers_wf rf" and "j < peers rf"
  shows "slice_set (nextIndex rf) (int j) v = Some ((nextIndex rf)[j := v])"
    "slice_set (matchIndex rf) (int j) v = Some ((matchIndex rf)[j := v])"
    "slice_get (nextIndex rf) (int j) = Some (nextIndex rf ! j)"
    "slice_get (matchIndex rf) (int j) = Some (matchIndex rf ! j)"
  using assms by (simp_all add: peers_wf_def go_simps)

text \<open>What the leader sends is well formed, so the receiver's conditions hold.\<close>

lemma sendEntries_Some:
  assumes "\<not> ni - 1 < lastIncludedIndex rf"
  shows "\<exists>es. (if lastLog rf \<ge> ni then slice_from (Log rf) (getRealLogIndex rf ni) else Some []) =
    Some es"
  using assms by (cases "lastLog rf \<ge> ni") (simp_all add: slice_from_def getRealLogIndex_def lastLog_def)

lemma getLogAt_nonneg: "0 \<le> r \<Longrightarrow> \<exists>b i t. getLogAt rf r = Some (b, i, t)"
  using getLogAt_int [of r rf] getLogAt_beyond [of rf r] by (cases "r < int (length (Log rf))") auto

lemma leaderAppendEntries_send_wf:
  assumes wf: "raft_wf rf" and j: "j < peers rf"
  shows "\<exists>rf' msg. leaderAppendEntries_send rf (int j) = Some (rf', msg) \<and> raft_wf rf'"
proof -
  let ?r = "getRealLogIndex rf (nextIndex rf ! j - 1)"
  let ?rf = "rf\<lparr>nextIndex := (nextIndex rf)[nat (me rf) := lastLog rf + 1],
                matchIndex := (matchIndex rf)[nat (me rf) := lastLog rf]\<rparr>"
  note ne = raft_wfD(4) [OF wf] and pw = raft_wfD(3) [OF wf]
  have wf': "raft_wf ?rf" using wf by (rule raft_wf_frame) simp_all
  have me: "0 \<le> me rf" "me rf < int (length (nextIndex rf))" "me rf < int (length (matchIndex rf))"
    using pw by (auto simp: peers_wf_def)
  show ?thesis
  proof (cases "nextIndex rf ! j - 1 < lastIncludedIndex rf")
    case True
    then show ?thesis
      using wf by (simp add: leaderAppendEntries_send_def slice_set_index [OF pw j] Let_def)
  next
    case False
    then obtain b i t where at: "getLogAt rf ?r = Some (b, i, t)"
      using getLogAt_nonneg [of ?r rf] by (auto simp: getRealLogIndex_def)
    obtain es where es: "(if lastLog rf \<ge> nextIndex rf ! j
        then slice_from (Log rf) (getRealLogIndex rf (nextIndex rf ! j)) else Some []) = Some es"
      using sendEntries_Some [OF False] by blast
    show ?thesis
      using False at es wf' me ne
      by (simp add: leaderAppendEntries_send_def slice_set_index [OF pw j] getLastLogIndex_eq
          slice_set_Some Let_def)
  qed
qed

lemma drop_logTerms:
  assumes "Log rf \<noteq> []" and "r < length (Log rf)"
  shows "drop r (logTerms rf) = logTerms rf ! r # map eTerm (drop (Suc r) (Log rf))"
proof -
  have "drop r (logTerms rf) = logTerms rf ! r # drop (Suc r) (logTerms rf)"
    using assms by (simp add: Cons_nth_drop_Suc length_logTerms)
  also have "drop (Suc r) (logTerms rf) = map eTerm (drop (Suc r) (Log rf))"
    using assms(1) by (simp add: logTerms_def drop_map drop_Suc)
  finally show ?thesis .
qed

lemma leaderSend_entries_wf:
  assumes wf: "raft_wf rf" and j: "j < peers rf"
    and send: "leaderAppendEntries_send rf (int j) = Some (rf', SendAppend args)"
  shows "ae_wf args \<and> aeTerm args = currentTerm rf \<and> LeaderCommit args = commitIndex rf \<and>
    lastIncludedIndex rf \<le> PrevLogIndex args \<and>
    (PrevLogIndex args \<le> lastLog rf \<longrightarrow>
       prevMatches rf args \<and>
       PrevLogIndex args + int (length (Entries args)) = lastLog rf)"
proof -
  note ne = raft_wfD(4) [OF wf] and pw = raft_wfD(3) [OF wf] and lw = raft_wfD(1) [OF wf]
  define ni where "ni = nextIndex rf ! j"
  define r where "r = ni - 1 - lastIncludedIndex rf"
  have ci: "commitIndex rf \<le> lastLog rf" using wf by (simp add: raft_wf_def index_wf_def)
  have me: "0 \<le> me rf" "me rf < int (length (nextIndex rf))" "me rf < int (length (matchIndex rf))"
    using pw by (auto simp: peers_wf_def)
  have ge: "\<not> ni - 1 < lastIncludedIndex rf"
  proof
    assume "ni - 1 < lastIncludedIndex rf"
    then show False
      using send by (simp add: leaderAppendEntries_send_def slice_set_index [OF pw j] ni_def Let_def
          split: if_splits)
  qed
  then have r0: "0 \<le> r" by (simp add: r_def)
  obtain b i t where at: "getLogAt rf r = Some (b, i, t)" using getLogAt_nonneg [OF r0] by blast
  have rr: "getRealLogIndex rf (ni - 1) = r" "getRealLogIndex rf ni = r + 1"
    by (simp_all add: getRealLogIndex_def r_def)
  obtain es where es: "(if lastLog rf \<ge> ni then slice_from (Log rf) (r + 1) else Some []) = Some es"
    using sendEntries_Some [OF ge] unfolding rr by blast
  have args: "args = \<lparr>aeTerm = currentTerm rf, LeaderId = me rf, PrevLogIndex = ni - 1,
      PrevLogTerm = t, Entries = es, LeaderCommit = commitIndex rf\<rparr>"
    using send ge at es me ne unfolding leaderAppendEntries_send_def
    by (simp add: slice_set_index [OF pw j] getLastLogIndex_eq slice_set_Some Let_def
        ni_def [symmetric] rr split: if_splits)
  show ?thesis
  proof (cases "ni - 1 \<le> lastLog rf")
    case False
    then have "es = []" using es by auto
    with False ci r0 show ?thesis by (simp add: args ae_wf_def r_def)
  next
    case True
    then have r: "r < int (length (Log rf))" by (simp add: r_def lastLog_def)
    then have t: "t = logTerms rf ! nat r" using at r0 by (simp add: getLogAt_int)
    have es': "es = drop (Suc (nat r)) (Log rf)"
    proof (cases "lastLog rf \<ge> ni")
      case True
      with es have "es = drop (nat (r + 1)) (Log rf)" by (auto simp: slice_from_def split: if_splits)
      with r0 show ?thesis by (simp add: nat_add_distrib)
    next
      case False
      then have "length (Log rf) \<le> Suc (nat r)" using r0 by (simp add: r_def lastLog_def)
      with False es show ?thesis by simp
    qed
    have terms: "drop (nat r) (logTerms rf) = t # map eTerm es"
      using drop_logTerms [OF ne, of "nat r"] r r0 by (simp add: t es' nat_less_iff)
    then have sorted: "sorted (t # map eTerm es)"
      using lw sorted_wrt_drop [of "(\<le>)" "logTerms rf" "nat r"] by (simp add: log_wf_def)
    have bound: "eTerm e \<le> currentTerm rf" if "e \<in> set es" for e
    proof -
      have "eTerm e \<in> set (drop (nat r) (logTerms rf))" using that by (simp add: terms)
      then show ?thesis using lw by (auto simp: log_wf_def dest: in_set_dropD)
    qed
    have idx: "eIndex (es ! i) = ni + int i" if "i < length es" for i
      using that lw r0 by (simp add: es' log_wf_def r_def)
    have len: "ni - 1 + int (length es) = lastLog rf"
      using r r0 by (simp add: es' lastLog_def r_def of_nat_diff Suc_le_eq nat_less_iff)
    show ?thesis
      using sorted bound idx len True r0 ci
      by (auto simp: args ae_wf_def prevMatches_def t r_def)
  qed
qed

lemma conflictTermLoop_Some:
  assumes "set is \<subseteq> {..<length (Log rf)}"
  shows "\<exists>t. conflictTermLoop rf x is d = Some t"
  using assms by (induction "is") (auto simp: getLogAt_in)

lemma handleLogInconsistency_wf:
  assumes wf: "raft_wf rf" and j: "j < peers rf"
  shows "\<exists>v. handleLogInconsistency rf (int j) reply = Some (rf\<lparr>nextIndex := (nextIndex rf)[j := v]\<rparr>)"
proof -
  have "set (rev [1..<length (Log rf)]) \<subseteq> {..<length (Log rf)}" by auto
  from conflictTermLoop_Some [OF this] obtain t where
    t: "conflictTermLoop rf (XTerm reply) (rev [1..<length (Log rf)]) (XIndex reply) = Some t" by blast
  define v where "v = (if XTerm reply = -1
      then if XIndex reply \<le> matchIndex rf ! j then matchIndex rf ! j + 1 else XIndex reply else t)"
  have "handleLogInconsistency rf (int j) reply = Some (rf\<lparr>nextIndex := (nextIndex rf)[j := v]\<rparr>)"
    by (simp add: handleLogInconsistency_def slice_set_index [OF raft_wfD(3) [OF wf] j] v_def
        t [unfolded One_nat_def])
  then show ?thesis by blast
qed

lemma raft_wf_progress:
  "raft_wf rf \<Longrightarrow> raft_wf (rf\<lparr>matchIndex := (matchIndex rf)[j := m], nextIndex := (nextIndex rf)[k := n]\<rparr>)"
  by (rule raft_wf_frame) simp_all

lemma raft_wf_nextIndex: "raft_wf rf \<Longrightarrow> raft_wf (rf\<lparr>nextIndex := (nextIndex rf)[k := n]\<rparr>)"
  by (rule raft_wf_frame) simp_all

text \<open>Recomputing the commit index keeps the invariant and never lowers it.\<close>

lemma countReplica_step:
  assumes "raft_wf rf"
  shows "\<exists>N. countReplica rf = Some N \<and> commitIndex rf \<le> N \<and> raft_wf (rf\<lparr>commitIndex := N\<rparr>)"
proof -
  from countReplica_spec [OF assms] obtain N where
    N: "countReplica rf = Some N" "commitIndex rf \<le> N" "N \<le> lastLog rf" by blast
  have "raft_wf (rf\<lparr>commitIndex := N\<rparr>)"
    using assms N(2,3) by (auto simp: raft_wf_defs lastLog_def logTerms_def)
  with N show ?thesis by blast
qed

lemma countReplica_commit:
  assumes "raft_wf rf1" and "commitIndex rf1 = commitIndex rf"
  shows "\<exists>rf'. do { N \<leftarrow> countReplica rf1; Some (rf1\<lparr>commitIndex := N\<rparr>) } = Some rf' \<and> raft_wf rf' \<and>
    commitIndex rf \<le> commitIndex rf'"
  using countReplica_step [OF assms(1)] assms(2) by auto

lemma leaderAppendEntries_reply_wf:
  assumes wf: "raft_wf rf" and j: "j < peers rf"
  shows "\<exists>rf'. leaderAppendEntries_reply rf (int j) args ok reply = Some rf' \<and> raft_wf rf' \<and>
    commitIndex rf \<le> commitIndex rf'"
proof -
  obtain v where v: "handleLogInconsistency rf (int j) reply =
      Some (rf\<lparr>nextIndex := (nextIndex rf)[j := v]\<rparr>)"
    using handleLogInconsistency_wf [OF wf j] by blast
  let ?m = "PrevLogIndex args + int (length (Entries args))"
  let ?acc = "rf\<lparr>matchIndex := (matchIndex rf)[j := ?m], nextIndex := (nextIndex rf)[j := ?m + 1]\<rparr>"
  let ?rej = "rf\<lparr>nextIndex := (nextIndex rf)[j := v]\<rparr>"
  have "raft_wf ?acc" "raft_wf ?rej"
    using wf by (rule raft_wf_progress, rule raft_wf_nextIndex)
  then show ?thesis
    using wf v raft_wf_FollowerState [OF wf] countReplica_commit [of ?acc rf]
      countReplica_commit [of ?rej rf] countReplica_commit [of rf rf]
    by (simp add: leaderAppendEntries_reply_def slice_set_index [OF raft_wfD(3) [OF wf] j] Let_def)
qed

lemma leaderInstallSnapshot_reply_wf:
  assumes wf: "raft_wf rf" and j: "j < peers rf"
  shows "\<exists>rf'. leaderInstallSnapshot_reply rf (int j) args ok reply = Some rf' \<and> raft_wf rf' \<and>
    commitIndex rf \<le> commitIndex rf'"
proof -
  let ?m = "isLastIncludedIndex args"
  let ?acc = "rf\<lparr>matchIndex := (matchIndex rf)[j := ?m], nextIndex := (nextIndex rf)[j := ?m + 1]\<rparr>"
  have "raft_wf ?acc" using wf by (rule raft_wf_progress)
  then show ?thesis
    using wf raft_wf_FollowerState [OF wf] countReplica_commit [of ?acc rf]
      countReplica_commit [of rf rf]
    by (simp add: leaderInstallSnapshot_reply_def slice_set_index [OF raft_wfD(3) [OF wf] j] Let_def)
qed

end
