(* ===== verification/Raft_Snapshot.thy ===== *)
theory Raft_Snapshot
  imports Raft_Commit
begin

text \<open>
  Log compaction (\<open>Snapshot\<close>, \<open>CondInstallSnapshot\<close>, \<open>InstallSnapshot\<close>), delivery of committed
  entries (\<open>applyChecker\<close>), accepting commands (\<open>Start\<close>) and starting a peer (\<open>Make\<close>) of
  \<open>src/raft/raft.go\<close>, under the invariant of a peer.
\<close>

section \<open>Snapshot\<close>

lemma snapshotLoop_find:
  assumes "k \<in> set is" and "set is \<subseteq> {..<length (Log rf)}"
  shows "snapshotLoop rf (lastIncludedIndex rf + int k) is acc =
    Some (lastIncludedIndex rf + int k, logTerms rf ! k, k)"
  using assms by (induction "is" arbitrary: acc) (auto simp: getLogAt_in)

lemma Snapshot_eq:
  assumes "Log rf \<noteq> []" and "0 < k" and "k < length (Log rf)"
  shows "Snapshot rf (lastIncludedIndex rf + int k) snap =
    (let idx = lastIncludedIndex rf + int k;
         rf' = rf\<lparr>Log := zeroEntry # drop (Suc k) (Log rf), lastIncludedIndex := idx,
                  lastIncludedTerm := logTerms rf ! k, lastApplied := max (lastApplied rf) idx,
                  commitIndex := max (commitIndex rf) idx\<rparr>
     in Some (rf'\<lparr>persister := SaveStateAndSnapshot (persister rf) (getStatePersistData rf') snap\<rparr>))"
proof -
  have "snapshotLoop rf (lastIncludedIndex rf + int k) [0..<length (Log rf)] (0, 0, 0) =
      Some (lastIncludedIndex rf + int k, logTerms rf ! k, k)"
    using assms by (intro snapshotLoop_find) auto
  then show ?thesis
    using assms
    by (simp add: Snapshot_def Let_def slice_from_def nat_add_distrib max_def getStatePersistData_def)
qed

lemma tl_zeroEntry_drop: "logTerms (rf\<lparr>Log := zeroEntry # drop k xs, lastIncludedTerm := t\<rparr>) =
    t # map eTerm (drop k xs)"
  by (simp add: logTerms_def)

lemma sorted_drop_terms:
  assumes "log_wf rf" and "k < length (Log rf)"
  shows "sorted (logTerms rf ! k # map eTerm (drop (Suc k) (Log rf)))"
    and "set (logTerms rf ! k # map eTerm (drop (Suc k) (Log rf))) \<subseteq> set (logTerms rf)"
proof -
  have ne: "Log rf \<noteq> []" using assms by auto
  have *: "logTerms rf ! k # map eTerm (drop (Suc k) (Log rf)) = drop k (logTerms rf)"
    using drop_logTerms [OF ne assms(2)] by simp
  show "sorted (logTerms rf ! k # map eTerm (drop (Suc k) (Log rf)))"
    unfolding * using assms(1) by (simp add: log_wf_def sorted_wrt_drop)
  show "set (logTerms rf ! k # map eTerm (drop (Suc k) (Log rf))) \<subseteq> set (logTerms rf)"
    unfolding * by (rule set_drop_subset)
qed

text \<open>The log cut after real index \<open>k\<close> is well formed.\<close>

lemma log_wf_cut:
  assumes wf: "log_wf rf" and k: "k < length (Log rf)"
    and log: "Log rf' = zeroEntry # drop (Suc k) (Log rf)"
    and lii: "lastIncludedIndex rf' = lastIncludedIndex rf + int k"
    and lit: "lastIncludedTerm rf' = logTerms rf ! k" and cur: "currentTerm rf' = currentTerm rf"
  shows "log_wf rf'"
proof -
  have terms: "logTerms rf' = logTerms rf ! k # map eTerm (drop (Suc k) (Log rf))"
    by (simp add: logTerms_def log lit)
  have idx: "eIndex (Log rf' ! i) = lastIncludedIndex rf' + int i"
    if "0 < i" "i < length (Log rf')" for i
  proof -
    from that obtain m where m: "i = Suc m" by (cases i) auto
    with that have "Suc k + m < length (Log rf)" by (simp add: log)
    then show ?thesis using wf m by (simp add: log lii log_wf_def)
  qed
  show ?thesis
    using wf idx sorted_drop_terms [OF wf k]
    unfolding log_wf_def terms by (auto simp: log lii cur)
qed

lemma lastLog_cut:
  "k < length (Log rf) \<Longrightarrow> Log rf' = zeroEntry # drop (Suc k) (Log rf) \<Longrightarrow>
   lastIncludedIndex rf' = lastIncludedIndex rf + int k \<Longrightarrow> lastLog rf' = lastLog rf"
  by (simp add: lastLog_def of_nat_diff)

lemma Snapshot_wf:
  assumes wf: "raft_wf rf" and idx: "index \<le> lastLog rf"
  shows "\<exists>rf'. Snapshot rf index snap = Some rf' \<and> raft_wf rf' \<and> lastLog rf' = lastLog rf \<and>
    (\<forall>j > index. entryAt rf' j = entryAt rf j) \<and> commitIndex rf \<le> commitIndex rf'"
proof (cases "index \<le> lastIncludedIndex rf")
  case True
  with wf show ?thesis by (simp add: Snapshot_def)
next
  case False
  define k where "k = nat (index - lastIncludedIndex rf)"
  have k: "0 < k" "k < length (Log rf)" and index: "index = lastIncludedIndex rf + int k"
    using False idx by (auto simp: k_def lastLog_def)
  obtain rf' where s: "Snapshot rf index snap = Some rf'"
    and f: "Log rf' = zeroEntry # drop (Suc k) (Log rf)" "lastIncludedIndex rf' = index"
      "lastIncludedTerm rf' = logTerms rf ! k" "currentTerm rf' = currentTerm rf"
      "lastApplied rf' = max (lastApplied rf) index" "commitIndex rf' = max (commitIndex rf) index"
      "peers rf' = peers rf" "me rf' = me rf" "nextIndex rf' = nextIndex rf"
      "matchIndex rf' = matchIndex rf"
    using Snapshot_eq [OF raft_wfD(4) [OF wf] k, of snap] by (simp add: index Let_def)
  have "log_wf rf'" by (rule log_wf_cut [OF raft_wfD(1) [OF wf] k(2)]) (use f index in auto)
  moreover have last: "lastLog rf' = lastLog rf"
    by (rule lastLog_cut [OF k(2)]) (use f index in auto)
  moreover have "index_wf rf'"
    using wf idx last f by (auto simp: raft_wf_def index_wf_def)
  moreover have "peers_wf rf'" using wf f by (auto simp: raft_wf_def peers_wf_def)
  moreover have "entryAt rf' j = entryAt rf j" if "j > index" for j
  proof -
    have "nat (j - index) = Suc (nat (j - index - 1))" using that by simp
    moreover have "Suc k + nat (j - index - 1) = nat (j - lastIncludedIndex rf)"
      using that index by simp
    ultimately show ?thesis
      using that last f k(2) index by (auto simp: entryAt_def lastLog_def)
  qed
  ultimately show ?thesis using s f by (auto simp: raft_wf_def)
qed

section \<open>Installing a snapshot from the leader\<close>

lemma trimIndexLoop_find:
  assumes "set is \<subseteq> {..<length (Log rf)}"
  shows "trimIndexLoop rf lit (lastIncludedIndex rf + int k) is d =
    Some (if k \<in> set is \<and> logTerms rf ! k = lit then Suc k else d)"
  using assms by (induction "is") (auto simp: getLogAt_in)

text \<open>The log keeps what follows the snapshot if it holds the snapshot's last entry, and is
  discarded otherwise.\<close>

definition snapshotTail :: "('c, 's) Raft \<Rightarrow> int \<Rightarrow> int \<Rightarrow> 'c LogEntry list" where
  "snapshotTail rf lit lii =
     (if lii \<le> lastLog rf \<and> logTerms rf ! nat (lii - lastIncludedIndex rf) = lit
      then drop (Suc (nat (lii - lastIncludedIndex rf))) (Log rf) else [])"

lemma CondInstallSnapshot_refuse:
  "lii \<le> commitIndex rf \<Longrightarrow> CondInstallSnapshot rf lit lii snap = Some (rf, False)"
  by (simp add: CondInstallSnapshot_def)

lemma CondInstallSnapshot_install:
  assumes wf: "raft_wf rf" and lii: "commitIndex rf < lii"
  shows "CondInstallSnapshot rf lit lii snap =
    (let rf' = rf\<lparr>Log := zeroEntry # snapshotTail rf lit lii, lastIncludedIndex := lii,
                  lastIncludedTerm := lit, lastApplied := lii, commitIndex := lii\<rparr>
     in Some (rf'\<lparr>persister := SaveStateAndSnapshot (persister rf) (getStatePersistData rf') snap\<rparr>,
              True))"
proof -
  define k where "k = nat (lii - lastIncludedIndex rf)"
  have b: "lastIncludedIndex rf \<le> lastApplied rf" "lastApplied rf \<le> commitIndex rf"
    using wf by (auto simp: raft_wf_def index_wf_def)
  have lii': "lii = lastIncludedIndex rf + int k" using lii b by (simp add: k_def)
  have "trimIndexLoop rf lit lii (rev [0..<length (Log rf)]) (length (Log rf)) =
      Some (if k < length (Log rf) \<and> logTerms rf ! k = lit then Suc k else length (Log rf))"
    unfolding lii' by (subst trimIndexLoop_find) auto
  moreover have "drop (if k < length (Log rf) \<and> logTerms rf ! k = lit then Suc k else length (Log rf))
      (Log rf) = snapshotTail rf lit lii"
    by (auto simp: snapshotTail_def lastLog_def k_def)
  ultimately show ?thesis
    using lii b by (simp add: CondInstallSnapshot_def Let_def getStatePersistData_def)
qed

lemma CondInstallSnapshot_wf:
  assumes wf: "raft_wf rf" and lit: "0 \<le> lit" "lit \<le> currentTerm rf"
  shows "\<exists>rf' b. CondInstallSnapshot rf lit lii snap = Some (rf', b) \<and> raft_wf rf' \<and>
    commitIndex rf \<le> commitIndex rf'"
proof (cases "lii \<le> commitIndex rf")
  case True
  with wf show ?thesis by (auto simp: CondInstallSnapshot_refuse)
next
  case False
  then have lii: "commitIndex rf < lii" by simp
  define k where "k = nat (lii - lastIncludedIndex rf)"
  have b: "0 \<le> lastIncludedIndex rf" "lastIncludedIndex rf \<le> lastApplied rf"
    "lastApplied rf \<le> commitIndex rf"
    using wf by (auto simp: raft_wf_def index_wf_def log_wf_def)
  obtain rf' where s: "CondInstallSnapshot rf lit lii snap = Some (rf', True)"
    and f: "Log rf' = zeroEntry # snapshotTail rf lit lii" "lastIncludedIndex rf' = lii"
      "lastIncludedTerm rf' = lit" "currentTerm rf' = currentTerm rf"
      "lastApplied rf' = lii" "commitIndex rf' = lii"
      "peers rf' = peers rf" "me rf' = me rf" "nextIndex rf' = nextIndex rf"
      "matchIndex rf' = matchIndex rf"
    using CondInstallSnapshot_install [OF wf lii, of lit snap] by (simp add: Let_def)
  have "log_wf rf'"
  proof (cases "lii \<le> lastLog rf \<and> logTerms rf ! k = lit")
    case True
    then have "k < length (Log rf)" using lii b by (auto simp: k_def lastLog_def nat_less_iff)
    then show ?thesis
      by (rule log_wf_cut [OF raft_wfD(1) [OF wf]])
        (use True f lii b in \<open>auto simp: snapshotTail_def k_def\<close>)
  next
    case False
    then have "snapshotTail rf lit lii = []" unfolding snapshotTail_def k_def by (rule if_not_P)
    then have "Log rf' = [zeroEntry]" using f(1) by simp
    then show ?thesis using f lii b lit by (simp add: log_wf_def logTerms_def)
  qed
  moreover have "index_wf rf'" using f by (simp add: index_wf_def lastLog_def)
  moreover have "peers_wf rf'" using wf f by (auto simp: raft_wf_def peers_wf_def)
  ultimately show ?thesis using s f lii by (auto simp: raft_wf_def)
qed

lemma InstallSnapshot_wf:
  "raft_wf rf \<Longrightarrow> raft_wf (fst (InstallSnapshot now rf args))"
  by (rule raft_wf_frame [where rf = rf]) (auto simp: InstallSnapshot_def Let_def)

section \<open>Accepting a command\<close>

lemma Start_leader:
  assumes "Log rf \<noteq> []" and "\<not> dead rf" and "state rf = LEADER"
  shows "Start rf command =
    (let rf' = persist (rf\<lparr>Log := Log rf @ [\<lparr>eTerm = currentTerm rf, eCommand = Some command,
                                             eIndex = lastLog rf + 1\<rparr>]\<rparr>)
     in Some (rf', lastLog rf + 1, currentTerm rf, True, leaderAppendEntries rf'))"
  using assms by (simp add: Start_def killed_def getLastLogIndex_eq Let_def lastLog_def)

lemma Start_other:
  assumes "Log rf \<noteq> []" and "dead rf \<or> state rf \<noteq> LEADER"
  shows "Start rf command = Some (rf, -1, -1, False, [])"
  using assms by (auto simp: Start_def killed_def getLastLogIndex_eq Let_def)

lemma logTerms_append:
  "Log rf \<noteq> [] \<Longrightarrow> logTerms (rf\<lparr>Log := Log rf @ [e]\<rparr>) = logTerms rf @ [eTerm e]"
  by (simp add: logTerms_def tl_append2)

lemma Start_wf:
  assumes wf: "raft_wf rf" and t: "0 \<le> currentTerm rf"
  shows "\<exists>rf' i t b ps. Start rf command = Some (rf', i, t, b, ps) \<and> raft_wf rf' \<and>
    commitIndex rf' = commitIndex rf"
proof (cases "\<not> dead rf \<and> state rf = LEADER")
  case False
  with wf show ?thesis by (auto simp: Start_other raft_wfD)
next
  case True
  define e where "e = \<lparr>eTerm = currentTerm rf, eCommand = Some command, eIndex = lastLog rf + 1\<rparr>"
  let ?rf = "rf\<lparr>Log := Log rf @ [e]\<rparr>"
  note ne = raft_wfD(4) [OF wf]
  have idx: "eIndex ((Log rf @ [e]) ! i) = lastIncludedIndex rf + int i"
    if "0 < i" "i < length (Log rf @ [e])" for i
    using that wf by (auto simp: nth_append e_def lastLog_def raft_wf_def log_wf_def less_Suc_eq)
  have "log_wf ?rf"
    using wf ne idx t
    by (auto simp: log_wf_def raft_wf_def logTerms_append sorted_append e_def)
  moreover have "index_wf ?rf" using wf by (auto simp: raft_wf_def index_wf_def lastLog_def)
  moreover have "peers_wf ?rf" using wf by (auto simp: raft_wf_def peers_wf_def)
  ultimately have "raft_wf (persist ?rf)" by (intro raft_wf_persist) (simp add: raft_wf_def)
  with True ne show ?thesis by (auto simp: Start_leader Let_def e_def)
qed

section \<open>Elections\<close>

lemma candidateRequestVote_eq:
  assumes "Log rf \<noteq> []" and "state rf = CANDIDATE"
  shows "candidateRequestVote rf =
    Some (\<lparr>rvTerm = currentTerm rf, CandidateId = me rf, LastLogIndex = lastLog rf,
           LastLogTerm = last (logTerms rf)\<rparr>, filter (\<lambda>i. int i \<noteq> me rf) [0..<peers rf])"
  using assms by (simp add: candidateRequestVote_def getLastLogIndex_eq getLastLogTerm_eq Let_def)

lemma ticker_wf:
  assumes wf: "raft_wf rf"
  shows "\<exists>rf' r e. ticker now randTime rnd rf = Some (rf', r, e) \<and> raft_wf rf' \<and>
    commitIndex rf' = commitIndex rf"
proof -
  have "raft_wf (rf\<lparr>lastTimeHeared := now\<rparr>)" using wf by (rule raft_wf_frame) simp_all
  then have "raft_wf (CandidateState (rf\<lparr>lastTimeHeared := now\<rparr>))" by (rule raft_wf_CandidateState)
  then show ?thesis
    using wf by (auto simp: ticker_def Let_def candidateRequestVote_eq raft_wfD)
qed

section \<open>Delivering committed entries\<close>

text \<open>The messages carry exactly the entries after \<open>lastApplied\<close> up to the commit index, in order.\<close>

lemma applyChecker_eq:
  assumes wf: "raft_wf rf" and lt: "lastApplied rf < commitIndex rf"
  shows "\<exists>msgs. applyChecker rf = Some (Some (commitIndex rf, msgs)) \<and>
    map CommandIndex msgs = [lastApplied rf + 1 .. commitIndex rf] \<and>
    (\<forall>m \<in> set msgs. CommandValid m \<and> \<not> SnapshotValid m \<and>
       (\<exists>e. entryAt rf (CommandIndex m) = Some e \<and> Command m = eCommand e))"
proof -
  define lo where "lo = nat (lastApplied rf + 1 - lastIncludedIndex rf)"
  define hi where "hi = nat (commitIndex rf + 1 - lastIncludedIndex rf)"
  have b: "lastIncludedIndex rf \<le> lastApplied rf" "commitIndex rf \<le> lastLog rf"
    using wf by (auto simp: raft_wf_def index_wf_def)
  have nums: "lastApplied rf + 1 - lastIncludedIndex rf = int lo"
    "commitIndex rf + 1 - lastIncludedIndex rf = int hi" "0 < lo" "lo \<le> hi" "hi \<le> length (Log rf)"
    using b lt by (auto simp: lo_def hi_def lastLog_def)
  define es where "es = take (hi - lo) (drop lo (Log rf))"
  have len: "length es = hi - lo" using nums by (simp add: es_def)
  have nth: "es ! i = Log rf ! (lo + i)" if "i < hi - lo" for i
    using that nums by (simp add: es_def)
  have idx: "eIndex (es ! i) = lastApplied rf + 1 + int i" if "i < hi - lo" for i
  proof -
    have "0 < lo + i" "lo + i < length (Log rf)" using that nums by auto
    then have "eIndex (Log rf ! (lo + i)) = lastIncludedIndex rf + int (lo + i)"
      using wf by (simp add: raft_wf_def log_wf_def)
    then show ?thesis using nums(1) by (simp add: nth [OF that])
  qed
  have "map CommandIndex (map applyMsgOf es :: ('a, 'b) ApplyMsg list) =
      [lastApplied rf + 1 .. commitIndex rf]"
    using nums by (intro nth_equalityI) (auto simp: len idx applyMsgOf_def)
  moreover have "\<exists>e'. entryAt rf (eIndex e) = Some e' \<and> eCommand e = eCommand e'"
    if "e \<in> set es" for e
  proof -
    from that obtain i where i: "i < hi - lo" "e = es ! i" by (auto simp: in_set_conv_nth len)
    then have e: "eIndex e = lastIncludedIndex rf + int (lo + i)" using nums(1) by (simp add: idx)
    moreover have "lo + i < length (Log rf)" "0 < lo + i" using i nums by auto
    ultimately have "entryAt rf (eIndex e) = Some e"
      using i by (simp add: entryAt_def lastLog_def nth flip: of_nat_add)
    then show ?thesis by simp
  qed
  moreover have "applyChecker rf = Some (Some (commitIndex rf, map applyMsgOf es))"
    using lt nums by (simp add: applyChecker_def slice_range_def es_def)
  ultimately show ?thesis by (auto simp: applyMsgOf_def)
qed

lemma applyChecker_done_wf:
  assumes "raft_wf rf" and "ci \<le> commitIndex rf"
  shows "raft_wf (applyChecker_done rf ci)"
  using assms
  by (auto simp: applyChecker_done_def raft_wf_defs lastLog_def logTerms_def)

section \<open>Starting a peer\<close>

lemma decode_persist_data:
  "decodeRaftState (getStatePersistData rf) =
   Some (currentTerm rf, votedFor rf, Log rf, lastIncludedIndex rf, lastIncludedTerm rf)"
  by (simp add: decodeRaftState_def getStatePersistData_def)

lemma Make_fresh_wf:
  assumes "0 \<le> i" and "i < int n"
  shows "raft_wf (Make now n i MakePersister)"
  using assms by (simp add: Make_def readPersist_def raft_wf_defs lastLog_def logTerms_def)

lemma Make_restart_wf:
  assumes "raft_wf rf" and "ReadRaftState (persister rf) = getStatePersistData rf"
  shows "raft_wf (Make now (peers rf) (me rf) (persister rf))"
  using assms
  by (auto simp: Make_def readPersist_def decode_persist_data getStatePersistData_def
      decodeRaftState_def raft_wf_defs lastLog_def logTerms_def Suc_leI)

end
