(* ===== verification/Raft_Step.thy ===== *)
theory Raft_Step
  imports Raft_Snapshot
begin

text \<open>
  All critical sections of one raft peer as the events of a state machine, with the properties
  that hold across every one of them: the invariant and freedom from panics, durability of the
  persistent fields, growth of the term and of the commit index, and the fate of a vote.
\<close>

section \<open>Events\<close>

datatype ('c, 's) raft_event =
    EvRequestVote int RequestVoteArgs
  | EvAppendEntries int "'c AppendEntriesArgs"
  | EvInstallSnapshot int "'s InstallSnapshotArgs"
  | EvVoteReply RequestVoteArgs RequestVoteReply
  | EvSend nat
  | EvAppendReply nat "'c AppendEntriesArgs" bool AppendEntriesReply
  | EvSnapshotReply nat "'s InstallSnapshotArgs" bool InstallSnapshotReply
  | EvStart 'c
  | EvTick int int int
  | EvSnapshot int "'s list"
  | EvCondInstall int int "'s list"
  | EvApplied int
  | EvKill
  | EvRestart int

fun raft_exec :: "('c, 's) raft_event \<Rightarrow> ('c, 's) Raft \<Rightarrow> ('c, 's) Raft option" where
  "raft_exec (EvRequestVote now args) rf = map_option fst (RequestVote now rf args)"
| "raft_exec (EvAppendEntries now args) rf = map_option fst (AppendEntries now rf args)"
| "raft_exec (EvInstallSnapshot now args) rf = Some (fst (InstallSnapshot now rf args))"
| "raft_exec (EvVoteReply args reply) rf = candidateRequestVote_reply rf args reply"
| "raft_exec (EvSend j) rf = map_option fst (leaderAppendEntries_send rf (int j))"
| "raft_exec (EvAppendReply j args ok reply) rf =
     leaderAppendEntries_reply rf (int j) args ok reply"
| "raft_exec (EvSnapshotReply j args ok reply) rf =
     leaderInstallSnapshot_reply rf (int j) args ok reply"
| "raft_exec (EvStart command) rf = map_option fst (Start rf command)"
| "raft_exec (EvTick now randTime rnd) rf = map_option fst (ticker now randTime rnd rf)"
| "raft_exec (EvSnapshot index snap) rf = Snapshot rf index snap"
| "raft_exec (EvCondInstall lit lii snap) rf = map_option fst (CondInstallSnapshot rf lit lii snap)"
| "raft_exec (EvApplied ci) rf = Some (applyChecker_done rf ci)"
| "raft_exec EvKill rf = Some (Kill rf)"
| "raft_exec (EvRestart now) rf = Some (Make now (peers rf) (me rf) (persister rf))"

fun raft_run :: "('c, 's) raft_event list \<Rightarrow> ('c, 's) Raft \<Rightarrow> ('c, 's) Raft option" where
  "raft_run [] rf = Some rf"
| "raft_run (ev # evs) rf = do { rf' \<leftarrow> raft_exec ev rf; raft_run evs rf' }"

text \<open>What the environment owes a peer: entries from a leader are well formed and agree with what
  is committed, goroutines are for existing peers, a service snapshots inside the log, and a
  snapshot's term is not from the future.\<close>

fun event_ok :: "('c, 's) Raft \<Rightarrow> ('c, 's) raft_event \<Rightarrow> bool" where
  "event_ok rf (EvAppendEntries now args) \<longleftrightarrow> ae_wf args \<and> committed_agrees rf args"
| "event_ok rf (EvSend j) \<longleftrightarrow> j < peers rf"
| "event_ok rf (EvAppendReply j args ok reply) \<longleftrightarrow> j < peers rf"
| "event_ok rf (EvSnapshotReply j args ok reply) \<longleftrightarrow> j < peers rf"
| "event_ok rf (EvSnapshot index snap) \<longleftrightarrow> index \<le> lastLog rf"
| "event_ok rf (EvCondInstall lit lii snap) \<longleftrightarrow> 0 \<le> lit \<and> lit \<le> currentTerm rf"
| "event_ok rf (EvApplied ci) \<longleftrightarrow> ci \<le> commitIndex rf"
| "event_ok rf _ \<longleftrightarrow> True"

text \<open>Stable storage holds the persistent fields: a peer started from it now would have them.\<close>

definition persistent :: "('c, 's) Raft \<Rightarrow> int \<times> int \<times> 'c LogEntry list \<times> int \<times> int" where
  "persistent rf =
     (currentTerm rf, votedFor rf, Log rf, lastIncludedIndex rf, lastIncludedTerm rf)"

definition durable :: "('c, 's) Raft \<Rightarrow> bool" where
  "durable rf \<longleftrightarrow> persistent (Make 0 (peers rf) (me rf) (persister rf)) = persistent rf"

section \<open>Durability\<close>

lemma persistent_Make:
  "persistent (Make now n i ps) =
   (case decodeRaftState (ReadRaftState ps) of
      None \<Rightarrow> (0, -1, [zeroEntry], 0, 0) | Some p \<Rightarrow> p)"
  by (cases "ReadRaftState ps")
    (auto simp: Make_def readPersist_def persistent_def decodeRaftState_def split: option.splits)

lemma durable_iff:
  "durable rf \<longleftrightarrow>
   (case decodeRaftState (ReadRaftState (persister rf)) of
      None \<Rightarrow> (0, -1, [zeroEntry], 0, 0) | Some p \<Rightarrow> p) = persistent rf"
  by (simp add: durable_def persistent_Make)

lemma persister_Make [simp]: "persister (Make now n i ps) = ps"
  by (auto simp: Make_def readPersist_def split: option.splits)

lemma durable_Make: "durable (Make now n i ps)"
  by (simp add: durable_iff persistent_Make split: option.splits)

lemma restart_persistent:
  "durable rf \<Longrightarrow> persistent (Make now (peers rf) (me rf) (persister rf)) = persistent rf"
  by (simp add: durable_def persistent_Make)

lemma durable_saved:
  "ReadRaftState (persister rf) = getStatePersistData rf \<Longrightarrow> durable rf"
  by (simp add: durable_iff decode_persist_data persistent_def)

lemma durable_persist: "durable (persist rf)"
  by (rule durable_saved) (simp add: persist_def getStatePersistData_def)

lemma durable_cong:
  "durable rf \<Longrightarrow> persister rf' = persister rf \<Longrightarrow> persistent rf' = persistent rf \<Longrightarrow> durable rf'"
  by (simp add: durable_iff)

lemma durable_FollowerState: "durable (FollowerState rf t)"
  by (simp add: FollowerState_def durable_persist)

lemma durable_CandidateState: "durable (CandidateState rf)"
  by (simp add: CandidateState_def durable_persist)

text \<open>Changing only volatile fields keeps durability.\<close>

lemma durable_volatile:
  assumes "durable rf"
  shows "durable (rf\<lparr>lastTimeHeared := t\<rparr>)" "durable (rf\<lparr>snapShot := s\<rparr>)"
    "durable (rf\<lparr>commitIndex := c\<rparr>)" "durable (rf\<lparr>lastApplied := a\<rparr>)"
    "durable (rf\<lparr>nextIndex := n\<rparr>)" "durable (rf\<lparr>matchIndex := m\<rparr>)"
    "durable (rf\<lparr>getVotesNum := v\<rparr>)" "durable (rf\<lparr>state := r\<rparr>)" "durable (rf\<lparr>dead := d\<rparr>)"
    "durable (rf\<lparr>matchIndex := m, nextIndex := n\<rparr>)" "durable (rf\<lparr>nextIndex := n, matchIndex := m\<rparr>)"
  by (auto intro: durable_cong [OF assms] simp: persistent_def)

lemmas durable_intros = durable_volatile durable_persist durable_FollowerState
  durable_CandidateState durable_Make

lemma durable_acceptEntries:
  assumes "durable rf"
  shows "durable (fst (acceptEntries rf args p l))"
proof -
  define log np where "log = fst (appendNewEntries (fst (conflictLoop (Log rf) (p + 1) (Entries args)))
      (p + 1) (Entries args) (snd (conflictLoop (Log rf) (p + 1) (Entries args))))"
    and "np = snd (appendNewEntries (fst (conflictLoop (Log rf) (p + 1) (Entries args)))
      (p + 1) (Entries args) (snd (conflictLoop (Log rf) (p + 1) (Entries args))))"
  have "durable (if np then persist (rf\<lparr>Log := log\<rparr>) else rf\<lparr>Log := log\<rparr>)"
  proof (cases np)
    case False
    then have "log = Log rf" unfolding np_def log_def by (rule acceptLog_flag)
    with False assms show ?thesis by simp
  qed (simp add: durable_persist)
  then show ?thesis
    unfolding log_def np_def
    by (auto simp: acceptEntries_def Let_def split_beta intro: durable_volatile)
qed

lemma checkPrevLog_cases:
  assumes "checkPrevLog rf args = Some (rf', reply)"
  shows "rf' = rf \<or> (\<exists>p l. rf' = fst (acceptEntries rf args p l))"
  using assms
  by (auto simp: checkPrevLog_def Let_def split: Option.bind_splits if_splits prod.splits)
    (metis fst_conv)+

lemma durable_checkPrevLog:
  assumes "durable rf" and "checkPrevLog rf args = Some (rf', reply)"
  shows "durable rf'"
  using assms checkPrevLog_cases durable_acceptEntries by metis

lemma durable_leaderStateLoop:
  "leaderStateLoop rf is = Some rf' \<Longrightarrow> durable rf \<Longrightarrow> durable rf'"
  by (induction "is" arbitrary: rf) (auto split: Option.bind_splits intro: durable_volatile)

lemma durable_handleLogInconsistency:
  "handleLogInconsistency rf i reply = Some rf' \<Longrightarrow> durable rf \<Longrightarrow> durable rf'"
  by (auto simp: handleLogInconsistency_def split: Option.bind_splits if_splits
      intro: durable_volatile)

lemma durable_RequestVote:
  assumes "durable rf" and "RequestVote now rf args = Some (rf', reply)"
  shows "durable rf'"
  using assms
  by (auto simp: RequestVote_def Let_def split: Option.bind_splits if_splits
      intro!: durable_intros)

lemma durable_AppendEntries:
  assumes "durable rf" and "AppendEntries now rf args = Some (rf', reply)"
  shows "durable rf'"
proof -
  let ?rf1 = "if aeTerm args > currentTerm rf \<or> (aeTerm args = currentTerm rf \<and> state rf = CANDIDATE)
      then FollowerState rf (aeTerm args) else rf"
  have d: "durable ?rf1" using assms(1) by (simp add: durable_FollowerState)
  show ?thesis
    using assms(2) d durable_checkPrevLog [OF durable_volatile(1) [OF d]]
    unfolding AppendEntries_def Let_def
    by (cases "aeTerm args < currentTerm ?rf1") simp_all
qed

lemma durable_Snapshot:
  assumes "durable rf" and "Snapshot rf index snap = Some rf'"
  shows "durable rf'"
  using assms
  by (auto simp: Snapshot_def Let_def getStatePersistData_def split: Option.bind_splits if_splits
      intro!: durable_saved)

lemma durable_CondInstallSnapshot:
  assumes "durable rf" and "CondInstallSnapshot rf lit lii snap = Some (rf', b)"
  shows "durable rf'"
  using assms
  by (auto simp: CondInstallSnapshot_def Let_def getStatePersistData_def
      split: Option.bind_splits if_splits intro!: durable_saved)

lemma durable_candidateRequestVote_reply:
  assumes "durable rf" and "candidateRequestVote_reply rf args reply = Some rf'"
  shows "durable rf'"
proof -
  have "durable (rf\<lparr>getVotesNum := getVotesNum rf + 1, state := LEADER\<rparr>)"
    using assms(1) by (intro durable_intros)
  with assms show ?thesis
    by (auto simp: candidateRequestVote_reply_def Let_def LeaderState_def split: if_splits
        intro: durable_intros durable_leaderStateLoop)
qed

lemma durable_leader_reply:
  assumes "durable rf"
  shows "leaderAppendEntries_reply rf j args ok reply = Some rf' \<Longrightarrow> durable rf'"
    and "leaderInstallSnapshot_reply rf j sargs ok sreply = Some rf' \<Longrightarrow> durable rf'"
    and "leaderAppendEntries_send rf j = Some (rf', msg) \<Longrightarrow> durable rf'"
  using assms
  by (auto simp: leaderAppendEntries_reply_def leaderInstallSnapshot_reply_def
      leaderAppendEntries_send_def Let_def split: Option.bind_splits if_splits
      intro: durable_intros durable_handleLogInconsistency)

lemma durable_service:
  assumes "durable rf"
  shows "Start rf command = Some (rf', i, t, b, ps) \<Longrightarrow> durable rf'"
    and "ticker now randTime rnd rf = Some (rf', r, e) \<Longrightarrow> durable rf'"
    and "durable (fst (InstallSnapshot now rf args))" and "durable (applyChecker_done rf ci)"
    and "durable (Kill rf)"
  using assms
  by (auto simp: Start_def ticker_def InstallSnapshot_def applyChecker_done_def Kill_def Let_def
      split: Option.bind_splits if_splits intro!: durable_intros)

lemma raft_exec_durable:
  assumes "durable rf" and "raft_exec ev rf = Some rf'"
  shows "durable rf'"
  using assms
  by (cases ev)
    (auto intro: durable_RequestVote durable_AppendEntries durable_Snapshot
      durable_CondInstallSnapshot durable_candidateRequestVote_reply durable_leader_reply
      durable_service durable_Make)

section \<open>The invariant\<close>

lemma raft_wf_term: "raft_wf rf \<Longrightarrow> 0 \<le> currentTerm rf"
  by (auto simp: raft_wf_def log_wf_def logTerms_def)

lemma raft_wf_Make_persisted:
  assumes wf: "raft_wf rf" and "durable rf"
  shows "raft_wf (Make now (peers rf) (me rf) (persister rf))"
proof -
  let ?rf = "Make now (peers rf) (me rf) (persister rf)"
  have p: "persistent ?rf = persistent rf"
    using assms(2) by (rule restart_persistent)
  have v: "peers ?rf = peers rf" "me ?rf = me rf" "nextIndex ?rf = replicate (peers rf) 1"
    "matchIndex ?rf = replicate (peers rf) 0" "lastApplied ?rf = lastIncludedIndex ?rf"
    "commitIndex ?rf = lastIncludedIndex ?rf"
    by (auto simp: Make_def readPersist_def split: option.splits)
  have "log_wf ?rf"
    using p wf by (intro log_wf_mono [OF raft_wfD(1) [OF wf]]) (auto simp: persistent_def)
  moreover have "1 \<le> length (Log ?rf)"
    using p raft_wfD(4) [OF wf] by (cases "Log rf") (auto simp: persistent_def)
  ultimately show ?thesis
    using wf v by (auto simp: raft_wf_def index_wf_def peers_wf_def lastLog_def)
qed

lemma raft_exec_wf:
  assumes wf: "raft_wf rf" and d: "durable rf" and ok: "event_ok rf ev"
  shows "\<exists>rf'. raft_exec ev rf = Some rf' \<and> raft_wf rf'"
proof (cases ev)
  case (EvAppendEntries now args)
  with AppendEntries_wf [OF wf, of args now] ok show ?thesis by force
next
  case (EvRequestVote now args)
  with RequestVote_wf [OF wf, of now args] show ?thesis by force
next
  case (EvSend j)
  with leaderAppendEntries_send_wf [OF wf, of j] ok show ?thesis by force
next
  case (EvAppendReply j args rok reply)
  with leaderAppendEntries_reply_wf [OF wf, of j args rok reply] ok show ?thesis by force
next
  case (EvSnapshotReply j args rok reply)
  with leaderInstallSnapshot_reply_wf [OF wf, of j args rok reply] ok show ?thesis by force
next
  case (EvStart command)
  with Start_wf [OF wf raft_wf_term [OF wf], of command] show ?thesis by force
next
  case (EvTick now randTime rnd)
  with ticker_wf [OF wf, of now randTime rnd] show ?thesis by force
next
  case (EvSnapshot index snap)
  with Snapshot_wf [OF wf, of index snap] ok show ?thesis by force
next
  case (EvCondInstall lit lii snap)
  with CondInstallSnapshot_wf [OF wf, of lit lii snap] ok show ?thesis by force
next
  case EvKill
  have "raft_wf (Kill rf)" using wf by (rule raft_wf_frame) (simp_all add: Kill_def)
  with EvKill show ?thesis by simp
qed (use assms candidateRequestVote_reply_wf [OF wf] InstallSnapshot_wf [OF wf]
      applyChecker_done_wf [OF wf] raft_wf_Make_persisted in auto)

text \<open>A whole run whose events are allowed.\<close>

fun run_ok :: "('c, 's) raft_event list \<Rightarrow> ('c, 's) Raft \<Rightarrow> bool" where
  "run_ok [] rf \<longleftrightarrow> True"
| "run_ok (ev # evs) rf \<longleftrightarrow>
     event_ok rf ev \<and> (case raft_exec ev rf of None \<Rightarrow> True | Some rf' \<Rightarrow> run_ok evs rf')"

lemma raft_run_invariant:
  assumes "raft_wf rf" and "durable rf" and "run_ok evs rf"
  shows "\<exists>rf'. raft_run evs rf = Some rf' \<and> raft_wf rf' \<and> durable rf'"
  using assms
proof (induction evs arbitrary: rf)
  case (Cons ev evs)
  then obtain rf1 where rf1: "raft_exec ev rf = Some rf1" "raft_wf rf1"
    using raft_exec_wf [of rf ev] by auto
  moreover have "durable rf1" using Cons.prems(2) rf1(1) by (rule raft_exec_durable)
  ultimately show ?case using Cons by simp
qed simp

end
