(* ===== verification/Raft_Election.thy ===== *)
theory Raft_Election
  imports Raft_Step
begin

text \<open>
  Elections in a cluster. The state is one peer per index, the vote requests whose goroutine has
  not returned yet and the replies peers have produced. The network may lose, delay, reorder and
  repeat requests and replies; peers may crash and restart from stable storage at any time, which
  ends their goroutines; every other critical section of a peer may run with any arguments. The
  main result is that two leaders of one term are the same peer, although the code forgets its
  vote when a candidate sees the leader of its own term.
\<close>

section \<open>Quorums\<close>

text \<open>Votes are collected by quorums that meet, and a voter gives its vote to one candidate.\<close>

locale quorum_votes =
  fixes quorum :: "nat set \<Rightarrow> bool"
  assumes quorums_meet: "quorum A \<Longrightarrow> quorum B \<Longrightarrow> \<exists>p. p \<in> A \<and> p \<in> B"
begin

lemma unique_winner:
  assumes "quorum A" and "quorum B"
    and "\<And>p. p \<in> A \<Longrightarrow> vote p = c" and "\<And>p. p \<in> B \<Longrightarrow> vote p = d"
  shows "c = d"
  using quorums_meet [OF assms(1,2)] assms(3,4) by auto

end

definition majority :: "nat \<Rightarrow> nat set \<Rightarrow> bool" where
  "majority n A \<longleftrightarrow> A \<subseteq> {..<n} \<and> n div 2 < card A"

interpretation maj: quorum_votes "majority n" for n
  by unfold_locales (auto simp: majority_def intro!: majorities_meet [of "{..<n}" for n])

section \<open>The cluster\<close>

record ('c, 's) cluster =
  node :: "nat \<Rightarrow> ('c, 's) Raft"
  requests :: "(nat \<times> nat \<times> RequestVoteArgs) set"
  replies :: "(nat \<times> RequestVoteArgs \<times> RequestVoteReply) set"

text \<open>Events that neither ask for, give nor count a vote.\<close>

fun other_event :: "('c, 's) raft_event \<Rightarrow> bool" where
  "other_event (EvRequestVote now args) \<longleftrightarrow> False"
| "other_event (EvVoteReply args reply) \<longleftrightarrow> False"
| "other_event (EvTick now randTime rnd) \<longleftrightarrow> False"
| "other_event (EvRestart now) \<longleftrightarrow> False"
| "other_event _ \<longleftrightarrow> True"

inductive cluster_step :: "nat \<Rightarrow> ('c, 's) cluster \<Rightarrow> ('c, 's) cluster \<Rightarrow> bool" for n where
  answer: "(c, p, args) \<in> requests s \<Longrightarrow>
     RequestVote now (node s p) args = Some (rf', reply) \<Longrightarrow>
     cluster_step n s (s\<lparr>node := (node s)(p := rf'),
                         replies := insert (p, args, reply) (replies s)\<rparr>)"
| collect: "(c, p, args) \<in> requests s \<Longrightarrow> (p, args, reply) \<in> replies s \<Longrightarrow>
     candidateRequestVote_reply (node s c) args reply = Some rf' \<Longrightarrow>
     cluster_step n s (s\<lparr>node := (node s)(c := rf'), requests := requests s - {(c, p, args)}\<rparr>)"
| give_up: "(c, p, args) \<in> requests s \<Longrightarrow>
     cluster_step n s (s\<lparr>requests := requests s - {(c, p, args)}\<rparr>)"
| tick: "c < n \<Longrightarrow> ticker now randTime rnd (node s c) = Some (rf', r, None) \<Longrightarrow>
     cluster_step n s (s\<lparr>node := (node s)(c := rf')\<rparr>)"
| election: "c < n \<Longrightarrow> ticker now randTime rnd (node s c) = Some (rf', r, Some (args, ps)) \<Longrightarrow>
     cluster_step n s (s\<lparr>node := (node s)(c := rf'),
                         requests := requests s \<union> {(c, p, args) | p. p \<in> set ps}\<rparr>)"
| other: "i < n \<Longrightarrow> other_event ev \<Longrightarrow> raft_exec ev (node s i) = Some rf' \<Longrightarrow>
     cluster_step n s (s\<lparr>node := (node s)(i := rf')\<rparr>)"
| restart: "i < n \<Longrightarrow>
     cluster_step n s (s\<lparr>node := (node s)(i := Make now (peers (node s i)) (me (node s i))
                                                   (persister (node s i))),
                         requests := {q \<in> requests s. fst q \<noteq> i}\<rparr>)"

definition cluster_init :: "nat \<Rightarrow> ('c, 's) cluster" where
  "cluster_init n =
     \<lparr>node = (\<lambda>i. Make 0 n (int i) MakePersister), requests = {}, replies = {}\<rparr>"

inductive cluster_reachable :: "nat \<Rightarrow> ('c, 's) cluster \<Rightarrow> bool" for n where
  init: "cluster_reachable n (cluster_init n)"
| step: "cluster_reachable n s \<Longrightarrow> cluster_step n s s' \<Longrightarrow> cluster_reachable n s'"

section \<open>What an operation does to the vote\<close>

text \<open>The fields an election depends on, and the two ways an operation outside elections can
  change them: not at all, or by moving to a later term as a follower without a vote.\<close>

definition ballot :: "('c, 's) Raft \<Rightarrow> int \<times> int \<times> role \<times> int" where
  "ballot rf = (currentTerm rf, votedFor rf, state rf, getVotesNum rf)"

definition steps_down :: "('c, 's) Raft \<Rightarrow> ('c, 's) Raft \<Rightarrow> bool" where
  "steps_down rf rf' \<longleftrightarrow>
     me rf' = me rf \<and> peers rf' = peers rf \<and>
     (ballot rf' = ballot rf \<or> (\<exists>t > currentTerm rf. ballot rf' = (t, -1, FOLLOWER, 0)))"

text \<open>A candidate that sees a leader of its own term gives up its candidacy and its vote.\<close>

definition concedes :: "('c, 's) Raft \<Rightarrow> ('c, 's) Raft \<Rightarrow> bool" where
  "concedes rf rf' \<longleftrightarrow>
     me rf' = me rf \<and> peers rf' = peers rf \<and> state rf = CANDIDATE \<and>
     ballot rf' = (currentTerm rf, -1, FOLLOWER, 0)"

lemma ballot_FollowerState [simp]: "ballot (FollowerState rf t) = (t, -1, FOLLOWER, 0)"
  by (simp add: ballot_def)

lemma steps_down_refl: "steps_down rf rf"
  by (simp add: steps_down_def)

lemma steps_down_volatile:
  assumes "steps_down rf rf1" and "ballot rf' = ballot rf1" and "me rf' = me rf1" "peers rf' = peers rf1"
  shows "steps_down rf rf'"
  using assms by (simp add: steps_down_def)

lemma steps_down_FollowerState: "currentTerm rf < t \<Longrightarrow> steps_down rf (FollowerState rf t)"
  by (simp add: steps_down_def)

text \<open>Updates of fields outside the ballot.\<close>

lemma ballot_volatile [simp]:
  "ballot (rf\<lparr>lastTimeHeared := t\<rparr>) = ballot rf" "ballot (rf\<lparr>snapShot := s\<rparr>) = ballot rf"
  "ballot (rf\<lparr>commitIndex := c\<rparr>) = ballot rf" "ballot (rf\<lparr>lastApplied := a\<rparr>) = ballot rf"
  "ballot (rf\<lparr>nextIndex := x\<rparr>) = ballot rf" "ballot (rf\<lparr>matchIndex := m\<rparr>) = ballot rf"
  "ballot (rf\<lparr>Log := l\<rparr>) = ballot rf" "ballot (rf\<lparr>persister := p\<rparr>) = ballot rf"
  "ballot (rf\<lparr>lastIncludedIndex := i\<rparr>) = ballot rf" "ballot (rf\<lparr>lastIncludedTerm := j\<rparr>) = ballot rf"
  "ballot (rf\<lparr>dead := d\<rparr>) = ballot rf" "ballot (persist rf) = ballot rf"
  by (simp_all add: ballot_def persist_def)

lemma steps_down_same:
  "ballot rf' = ballot rf \<Longrightarrow> me rf' = me rf \<Longrightarrow> peers rf' = peers rf \<Longrightarrow> steps_down rf rf'"
  by (simp add: steps_down_def)

lemma ballot_acceptEntries:
  "ballot (fst (acceptEntries rf args p l)) = ballot rf"
  "me (fst (acceptEntries rf args p l)) = me rf"
  "peers (fst (acceptEntries rf args p l)) = peers rf"
  by (simp_all add: acceptEntries_def Let_def split_beta persist_def)

lemma ballot_checkPrevLog:
  assumes "checkPrevLog rf args = Some (rf', reply)"
  shows "ballot rf' = ballot rf \<and> me rf' = me rf \<and> peers rf' = peers rf"
  using checkPrevLog_cases [OF assms] ballot_acceptEntries by metis

lemma AppendEntries_ballot:
  assumes "AppendEntries now rf args = Some (rf', reply)"
  shows "steps_down rf rf' \<or> concedes rf rf'"
proof -
  let ?rf1 = "if aeTerm args > currentTerm rf \<or> (aeTerm args = currentTerm rf \<and> state rf = CANDIDATE)
      then FollowerState rf (aeTerm args) else rf"
  have "ballot rf' = ballot ?rf1 \<and> me rf' = me ?rf1 \<and> peers rf' = peers ?rf1"
    using assms ballot_checkPrevLog [of "?rf1\<lparr>lastTimeHeared := now\<rparr>" args rf' reply]
    unfolding AppendEntries_def Let_def
    by (cases "aeTerm args < currentTerm ?rf1") simp_all
  then show ?thesis by (auto simp: steps_down_def concedes_def split: if_splits)
qed

lemma handleLogInconsistency_ballot:
  "handleLogInconsistency rf i reply = Some rf' \<Longrightarrow>
   ballot rf' = ballot rf \<and> me rf' = me rf \<and> peers rf' = peers rf"
  by (auto simp: handleLogInconsistency_def split: Option.bind_splits if_splits)

lemma leader_steps_down:
  shows "leaderAppendEntries_reply rf j args ok reply = Some rf' \<Longrightarrow> steps_down rf rf'"
    and "leaderInstallSnapshot_reply rf j sargs ok sreply = Some rf' \<Longrightarrow> steps_down rf rf'"
    and "leaderAppendEntries_send rf j = Some (rf', msg) \<Longrightarrow> steps_down rf rf'"
  by (auto simp: leaderAppendEntries_reply_def leaderInstallSnapshot_reply_def
      leaderAppendEntries_send_def Let_def split: Option.bind_splits if_splits
      dest!: handleLogInconsistency_ballot
      intro!: steps_down_refl steps_down_FollowerState steps_down_same)

lemma service_steps_down:
  shows "Start rf command = Some (rf', i, t, b, ps) \<Longrightarrow> steps_down rf rf'"
    and "Snapshot rf index snap = Some rf' \<Longrightarrow> steps_down rf rf'"
    and "CondInstallSnapshot rf lit lii snap = Some (rf', b) \<Longrightarrow> steps_down rf rf'"
    and "steps_down rf (applyChecker_done rf ci)" and "steps_down rf (Kill rf)"
  by (auto simp: Start_def Snapshot_def CondInstallSnapshot_def applyChecker_done_def Kill_def
      Let_def split: Option.bind_splits if_splits intro!: steps_down_refl steps_down_same)

lemma InstallSnapshot_steps_down: "steps_down rf (fst (InstallSnapshot now rf args))"
  by (auto simp: InstallSnapshot_def Let_def steps_down_def)

lemma other_event_ballot:
  assumes "other_event ev" and "raft_exec ev rf = Some rf'"
  shows "steps_down rf rf' \<or> concedes rf rf'"
  using assms
  by (cases ev)
    (auto dest: AppendEntries_ballot leader_steps_down service_steps_down(1-3)
      intro: service_steps_down(4-5) InstallSnapshot_steps_down)

text \<open>The voting operations themselves.\<close>

lemma RequestVote_ballot:
  assumes "RequestVote now rf args = Some (rf', reply)"
  shows "me rf' = me rf \<and> peers rf' = peers rf \<and>
    (steps_down rf rf' \<and> \<not> VoteGranted reply \<or>
     VoteGranted reply \<and> rvrTerm reply = rvTerm args \<and>
       (rvTerm args = currentTerm rf \<and> votedFor rf \<in> {-1, CandidateId args} \<and>
          ballot rf' = (currentTerm rf, CandidateId args, state rf, getVotesNum rf) \<or>
        rvTerm args > currentTerm rf \<and> ballot rf' = (rvTerm args, CandidateId args, FOLLOWER, 0)))"
proof -
  define rf1 where
    "rf1 = (if rvTerm args > currentTerm rf then FollowerState rf (rvTerm args) else rf)"
  have down: "steps_down rf rf1"
    by (simp add: rf1_def steps_down_refl steps_down_FollowerState)
  consider "rf' = rf1 \<or> rf' = persist rf1" "\<not> VoteGranted reply"
    | "rf' = (persist (rf1\<lparr>votedFor := CandidateId args\<rparr>))\<lparr>lastTimeHeared := now\<rparr>"
      "VoteGranted reply" "rvrTerm reply = currentTerm rf1" "\<not> rvTerm args < currentTerm rf1"
      "votedFor rf1 \<in> {-1, CandidateId args}"
    using assms unfolding RequestVote_def Let_def rf1_def [symmetric]
    by (auto split: Option.bind_splits if_splits)
  then show ?thesis
  proof cases
    case 1
    have "ballot rf' = ballot rf1" "me rf' = me rf1" "peers rf' = peers rf1"
      using 1(1) by (auto simp: persist_def)
    with down have "steps_down rf rf'" by (rule steps_down_volatile)
    with 1(2) show ?thesis by (simp add: steps_down_def)
  next
    case 2
    then show ?thesis by (auto simp: ballot_def rf1_def split: if_splits)
  qed
qed

lemma ticker_ballot:
  assumes "ticker now randTime rnd rf = Some (rf', r, e)"
  shows "me rf' = me rf \<and> peers rf' = peers rf \<and>
    (e = None \<and> rf' = rf \<or>
     (\<exists>args ps. e = Some (args, ps) \<and> rvTerm args = currentTerm rf + 1 \<and> CandidateId args = me rf \<and>
        (\<forall>p \<in> set ps. p < peers rf \<and> int p \<noteq> me rf) \<and>
        ballot rf' = (currentTerm rf + 1, me rf, CANDIDATE, 1)))"
  using assms
  by (auto simp: ticker_def candidateRequestVote_def CandidateState_def Let_def ballot_def
      split: Option.bind_splits if_splits)

lemma leaderStateLoop_ballot:
  "leaderStateLoop rf is = Some rf' \<Longrightarrow> ballot rf' = ballot rf \<and> me rf' = me rf \<and> peers rf' = peers rf"
  by (induction "is" arbitrary: rf) (force split: Option.bind_splits)+

lemma candidateRequestVote_reply_ballot:
  assumes "candidateRequestVote_reply rf args reply = Some rf'"
  shows "me rf' = me rf \<and> peers rf' = peers rf \<and>
    (steps_down rf rf' \<or>
     rvTerm args = currentTerm rf \<and> rvrTerm reply = currentTerm rf \<and> VoteGranted reply \<and>
       state rf = CANDIDATE \<and>
       (ballot rf' = (currentTerm rf, votedFor rf, CANDIDATE, getVotesNum rf + 1) \<or>
        getVotesNum rf + 1 > int (peers rf) div 2 \<and>
        ballot rf' = (currentTerm rf, votedFor rf, LEADER, getVotesNum rf + 1)))"
  using assms
  by (auto simp: candidateRequestVote_reply_def Let_def LeaderState_def steps_down_refl
      steps_down_FollowerState ballot_def [of "_\<lparr>getVotesNum := _\<rparr>"]
      ballot_def [of "_\<lparr>getVotesNum := _, state := _\<rparr>"]
      split: if_splits dest!: leaderStateLoop_ballot)

section \<open>The election invariant\<close>

text \<open>\<open>vote p T\<close> is the vote of peer \<open>p\<close> in term \<open>T\<close> (\<open>-1\<close> for none) and \<open>counted c T\<close> the peers whose
  votes \<open>c\<close> has counted in term \<open>T\<close>.\<close>

definition cast :: "(nat \<Rightarrow> int \<Rightarrow> 'a) \<Rightarrow> nat \<Rightarrow> int \<Rightarrow> 'a \<Rightarrow> nat \<Rightarrow> int \<Rightarrow> 'a" where
  "cast vote p T x = vote(p := (vote p)(T := x))"

lemma cast_simps [simp]:
  "cast vote p T x p T = x" "T' \<noteq> T \<Longrightarrow> cast vote p T x p T' = vote p T'"
  "p' \<noteq> p \<Longrightarrow> cast vote p T x p' = vote p'"
  by (simp_all add: cast_def)

definition counted_inv ::
  "nat \<Rightarrow> (nat \<Rightarrow> int \<Rightarrow> int) \<Rightarrow> (nat \<Rightarrow> int \<Rightarrow> nat set) \<Rightarrow> nat \<Rightarrow> bool" where
  "counted_inv n vote counted i \<longleftrightarrow>
     (\<forall>T. \<forall>p \<in> counted i T. p < n \<and> p \<noteq> i \<and> vote p T = int i)"

definition node_inv ::
  "nat \<Rightarrow> (nat \<Rightarrow> int \<Rightarrow> int) \<Rightarrow> (nat \<Rightarrow> int \<Rightarrow> nat set) \<Rightarrow> nat \<Rightarrow> ('c, 's) Raft \<Rightarrow> bool" where
  "node_inv n vote counted i rf \<longleftrightarrow>
     me rf = int i \<and> peers rf = n \<and>
     vote i (currentTerm rf) = votedFor rf \<and> (\<forall>T > currentTerm rf. vote i T = -1) \<and>
     (state rf \<in> {CANDIDATE, LEADER} \<longrightarrow> votedFor rf = int i) \<and>
     (\<forall>T > currentTerm rf. counted i T = {}) \<and>
     counted_inv n vote counted i \<and>
     (state rf = CANDIDATE \<longrightarrow> getVotesNum rf = 1 + int (card (counted i (currentTerm rf)))) \<and>
     (state rf = LEADER \<longrightarrow> n div 2 < 1 + card (counted i (currentTerm rf)))"

definition request_ok :: "nat \<Rightarrow> (nat \<Rightarrow> int \<Rightarrow> nat set) \<Rightarrow> int \<Rightarrow> nat \<Rightarrow> nat \<Rightarrow> RequestVoteArgs \<Rightarrow> bool" where
  "request_ok n counted T c p a \<longleftrightarrow>
     c < n \<and> p < n \<and> p \<noteq> c \<and> CandidateId a = int c \<and> rvTerm a \<le> T \<and> p \<notin> counted c (rvTerm a)"

definition one_request :: "(nat \<times> nat \<times> RequestVoteArgs) set \<Rightarrow> bool" where
  "one_request R \<longleftrightarrow>
     (\<forall>c p a a'. (c, p, a) \<in> R \<longrightarrow> (c, p, a') \<in> R \<longrightarrow> rvTerm a' = rvTerm a \<longrightarrow> a' = a)"

definition request_inv :: "nat \<Rightarrow> (nat \<Rightarrow> int \<Rightarrow> nat set) \<Rightarrow> ('c, 's) cluster \<Rightarrow> bool" where
  "request_inv n counted s \<longleftrightarrow> one_request (requests s) \<and>
     (\<forall>c p a. (c, p, a) \<in> requests s \<longrightarrow> request_ok n counted (currentTerm (node s c)) c p a)"

definition reply_inv :: "nat \<Rightarrow> (nat \<Rightarrow> int \<Rightarrow> int) \<Rightarrow> ('c, 's) cluster \<Rightarrow> bool" where
  "reply_inv n vote s \<longleftrightarrow>
     (\<forall>p a r. (p, a, r) \<in> replies s \<longrightarrow> VoteGranted r \<longrightarrow>
        0 \<le> CandidateId a \<and> CandidateId a \<noteq> int p \<and> vote p (rvTerm a) = CandidateId a)"

definition election_inv ::
  "nat \<Rightarrow> (nat \<Rightarrow> int \<Rightarrow> int) \<Rightarrow> (nat \<Rightarrow> int \<Rightarrow> nat set) \<Rightarrow> ('c, 's) cluster \<Rightarrow> bool" where
  "election_inv n vote counted s \<longleftrightarrow>
     (\<forall>i < n. node_inv n vote counted i (node s i) \<and> durable (node s i)) \<and>
     request_inv n counted s \<and> reply_inv n vote s"

text \<open>A vote for another peer is never taken back.\<close>

definition votes_kept :: "(nat \<Rightarrow> int \<Rightarrow> int) \<Rightarrow> (nat \<Rightarrow> int \<Rightarrow> int) \<Rightarrow> bool" where
  "votes_kept vote vote' \<longleftrightarrow> (\<forall>p T. vote p T \<notin> {-1, int p} \<longrightarrow> vote' p T = vote p T)"

lemma votes_kept_refl: "votes_kept vote vote"
  by (simp add: votes_kept_def)

lemma votes_kept_cast: "vote p T \<in> {-1, int p, x} \<Longrightarrow> votes_kept vote (cast vote p T x)"
  by (auto simp: votes_kept_def cast_def)

lemma reply_inv_kept:
  assumes "reply_inv n vote s" and "votes_kept vote vote'" and "replies s' = replies s"
  shows "reply_inv n vote' s'"
proof -
  have "vote' p T = c" if "vote p T = c" "0 \<le> c" "c \<noteq> int p" for p T c
    using assms(2) that by (auto simp: votes_kept_def)
  with assms(1,3) show ?thesis by (auto simp: reply_inv_def)
qed

lemma counted_inv_kept:
  "counted_inv n vote counted i \<Longrightarrow> votes_kept vote vote' \<Longrightarrow> counted_inv n vote' counted i"
  by (fastforce simp: counted_inv_def votes_kept_def)

lemma node_inv_other:
  assumes "node_inv n vote counted i rf" and "votes_kept vote vote'" and "vote' i = vote i"
  shows "node_inv n vote' counted i rf"
  using assms counted_inv_kept by (auto simp: node_inv_def)

text \<open>A vote cast in the current or a later term, with the role it goes with.\<close>

lemma node_inv_cast:
  assumes "node_inv n vote counted i rf" and "me rf' = me rf" "peers rf' = peers rf"
    and kept: "votes_kept vote (cast vote i T v)" and T: "currentTerm rf \<le> T"
    and "ballot rf' = (T, v, r, k)" and "r \<in> {CANDIDATE, LEADER} \<Longrightarrow> v = int i"
    and "r = CANDIDATE \<Longrightarrow> k = 1 + int (card (counted i T))"
    and "r = LEADER \<Longrightarrow> n div 2 < 1 + card (counted i T)"
  shows "node_inv n (cast vote i T v) counted i rf'"
proof -
  have "counted_inv n (cast vote i T v) counted i"
    using assms(1) kept by (auto simp: node_inv_def intro: counted_inv_kept)
  moreover have "cast vote i T v i U = -1" "counted i U = {}" if "U > T" for U
    using assms(1) that T by (auto simp: node_inv_def)
  ultimately show ?thesis
    using assms(1-3,6-9) by (simp add: node_inv_def ballot_def)
qed

lemma node_inv_steps_down:
  assumes "node_inv n vote counted i rf" and "steps_down rf rf'"
  shows "node_inv n vote counted i rf'"
  using assms unfolding steps_down_def ballot_def node_inv_def by auto

lemma node_inv_concedes:
  assumes "node_inv n vote counted i rf" and "concedes rf rf'"
  shows "node_inv n (cast vote i (currentTerm rf) (-1)) counted i rf'"
    and "votes_kept vote (cast vote i (currentTerm rf) (-1))"
proof -
  show kept: "votes_kept vote (cast vote i (currentTerm rf) (-1))"
    using assms by (auto intro!: votes_kept_cast simp: concedes_def node_inv_def)
  show "node_inv n (cast vote i (currentTerm rf) (-1)) counted i rf'"
    using assms
    by - (rule node_inv_cast [OF _ _ _ kept, where rf = rf and r = FOLLOWER and k = 0], simp_all add: concedes_def)
qed

lemma node_inv_grant:
  assumes "node_inv n vote counted i rf" and "c \<noteq> int i"
    and "T = currentTerm rf \<and> votedFor rf \<in> {-1, c} \<and> ballot rf' = (T, c, state rf, getVotesNum rf) \<or>
      T > currentTerm rf \<and> ballot rf' = (T, c, FOLLOWER, 0)"
    and "me rf' = me rf" "peers rf' = peers rf"
  shows "node_inv n (cast vote i T c) counted i rf'" and "votes_kept vote (cast vote i T c)"
proof -
  show kept: "votes_kept vote (cast vote i T c)"
    using assms(1,3) by (intro votes_kept_cast) (auto simp: node_inv_def)
  from assms(3) show "node_inv n (cast vote i T c) counted i rf'"
  proof
    assume "T > currentTerm rf \<and> ballot rf' = (T, c, FOLLOWER, 0)"
    then show ?thesis
      using assms(1,4,5)
      by (intro node_inv_cast [OF _ _ _ kept, where rf = rf and r = FOLLOWER and k = 0]) simp_all
  next
    assume same: "T = currentTerm rf \<and> votedFor rf \<in> {-1, c} \<and>
      ballot rf' = (T, c, state rf, getVotesNum rf)"
    then have "state rf \<notin> {CANDIDATE, LEADER}"
      using assms(1,2) by (auto simp: node_inv_def)
    with same assms(1,4,5) show ?thesis
      by (intro node_inv_cast [OF _ _ _ kept, where rf = rf and r = "state rf" and k = "getVotesNum rf"]) simp_all
  qed
qed

lemma node_inv_candidate:
  assumes "node_inv n vote counted i rf" and "me rf' = me rf" "peers rf' = peers rf"
    and "ballot rf' = (currentTerm rf + 1, me rf, CANDIDATE, 1)"
  shows "node_inv n (cast vote i (currentTerm rf + 1) (int i)) counted i rf'"
    and "votes_kept vote (cast vote i (currentTerm rf + 1) (int i))"
proof -
  show kept: "votes_kept vote (cast vote i (currentTerm rf + 1) (int i))"
    using assms(1) by (intro votes_kept_cast) (simp add: node_inv_def)
  show "node_inv n (cast vote i (currentTerm rf + 1) (int i)) counted i rf'"
    using assms(1-3)
    by (rule node_inv_cast [OF _ _ _ kept, where r = CANDIDATE and k = 1])
      (use assms in \<open>auto simp: node_inv_def\<close>)
qed

lemma finite_counted:
  assumes "node_inv n vote counted i rf"
  shows "finite (counted i T)"
  by (rule finite_subset [of _ "{..<n}"]) (use assms in \<open>auto simp: node_inv_def counted_inv_def\<close>)

lemma node_inv_count:
  assumes inv: "node_inv n vote counted i rf" and "state rf = CANDIDATE"
    and "me rf' = me rf" "peers rf' = peers rf" and T: "T = currentTerm rf"
    and p: "p < n" "p \<noteq> i" "vote p T = int i" "p \<notin> counted i T"
    and "ballot rf' = (T, votedFor rf, CANDIDATE, getVotesNum rf + 1) \<or>
      getVotesNum rf + 1 > int n div 2 \<and> ballot rf' = (T, votedFor rf, LEADER, getVotesNum rf + 1)"
  shows "node_inv n vote (cast counted i T (insert p (counted i T))) i rf'"
proof -
  have card: "card (insert p (counted i T)) = Suc (card (counted i T))"
    using p(4) finite_counted [OF inv] by simp
  have members: "counted_inv n vote (cast counted i T (insert p (counted i T))) i"
    using inv p by (auto simp: node_inv_def counted_inv_def cast_def)
  have quorum: "n div 2 < 1 + Suc k" if "getVotesNum rf + 1 > int n div 2" "getVotesNum rf = 1 + int k"
    for k using that by linarith
  show ?thesis
    using assms members card quorum [of "card (counted i T)"]
    by (auto simp: node_inv_def ballot_def)
qed

lemma node_inv_restart:
  assumes "node_inv n vote counted i rf" and "durable rf"
  shows "node_inv n vote counted i (Make now (peers rf) (me rf) (persister rf))"
proof -
  let ?rf = "Make now (peers rf) (me rf) (persister rf)"
  have "persistent ?rf = persistent rf"
    using assms(2) by (rule restart_persistent)
  moreover have "peers ?rf = peers rf" "me ?rf = me rf" "state ?rf = FOLLOWER"
    by (auto simp: Make_def readPersist_def split: option.splits)
  ultimately show ?thesis using assms(1) by (auto simp: node_inv_def persistent_def)
qed

section \<open>Every step keeps the invariant\<close>

lemma request_ok_mono: "request_ok n counted T c p a \<Longrightarrow> T \<le> T' \<Longrightarrow> request_ok n counted T' c p a"
  by (simp add: request_ok_def)

lemma one_request_subset: "one_request R \<Longrightarrow> R' \<subseteq> R \<Longrightarrow> one_request R'"
  unfolding one_request_def by blast

lemma request_inv_mono:
  assumes "request_inv n counted s" and "requests s' \<subseteq> requests s"
    and "\<And>c. currentTerm (node s c) \<le> currentTerm (node s' c)"
  shows "request_inv n counted s'"
  using assms unfolding request_inv_def
  by (meson one_request_subset request_ok_mono subsetD)

lemma election_inv_update:
  assumes inv: "election_inv n vote counted s" and "i < n"
    and "node_inv n vote' counted i rf'" and "durable rf'"
    and "votes_kept vote vote'" and "\<And>j. j \<noteq> i \<Longrightarrow> vote' j = vote j"
    and mono: "currentTerm (node s i) \<le> currentTerm rf'"
  shows "election_inv n vote' counted (s\<lparr>node := (node s)(i := rf')\<rparr>)"
proof -
  have "reply_inv n vote' (s\<lparr>node := (node s)(i := rf')\<rparr>)"
    using inv assms(5) by - (rule reply_inv_kept [of n vote s], auto simp: election_inv_def)
  moreover have "request_inv n counted (s\<lparr>node := (node s)(i := rf')\<rparr>)"
    using inv mono by - (rule request_inv_mono [of n counted s], auto simp: election_inv_def)
  moreover have "node_inv n vote' counted j (node s j)" if "j < n" "j \<noteq> i" for j
    using inv assms(5,6) that by - (rule node_inv_other [of n vote], auto simp: election_inv_def)
  ultimately show ?thesis
    using inv assms(3,4) by (simp add: election_inv_def)
qed

lemma election_inv_reply:
  assumes "election_inv n vote counted s"
    and "VoteGranted r \<Longrightarrow> 0 \<le> CandidateId a \<and> CandidateId a \<noteq> int p \<and> vote p (rvTerm a) = CandidateId a"
  shows "election_inv n vote counted (s\<lparr>replies := insert (p, a, r) (replies s)\<rparr>)"
proof -
  have "request_inv n counted (s\<lparr>replies := insert (p, a, r) (replies s)\<rparr>)"
    using assms(1) by - (rule request_inv_mono [of n counted s], auto simp: election_inv_def)
  with assms show ?thesis by (auto simp: election_inv_def reply_inv_def)
qed

lemma election_inv_fewer_requests:
  assumes "election_inv n vote counted s" and "R \<subseteq> requests s"
  shows "election_inv n vote counted (s\<lparr>requests := R\<rparr>)"
proof -
  have "request_inv n counted (s\<lparr>requests := R\<rparr>)"
    using assms by - (rule request_inv_mono [of n counted s], auto simp: election_inv_def)
  with assms(1) show ?thesis by (auto simp: election_inv_def reply_inv_def)
qed

lemma steps_down_term: "steps_down rf rf' \<Longrightarrow> currentTerm rf \<le> currentTerm rf'"
  by (auto simp: steps_down_def ballot_def)

lemma election_invD:
  assumes "election_inv n vote counted s"
  shows "i < n \<Longrightarrow> node_inv n vote counted i (node s i)" "i < n \<Longrightarrow> durable (node s i)"
    "request_inv n counted s" "reply_inv n vote s"
  using assms by (simp_all add: election_inv_def)

lemma election_inv_steps_down:
  assumes inv: "election_inv n vote counted s" and "i < n"
    and "steps_down (node s i) rf'" and "durable rf'"
  shows "election_inv n vote counted (s\<lparr>node := (node s)(i := rf')\<rparr>)"
  using inv assms(2) node_inv_steps_down [OF election_invD(1) [OF inv assms(2)] assms(3)]
    assms(4) votes_kept_refl refl steps_down_term [OF assms(3)]
  by (rule election_inv_update)

lemma election_inv_other:
  assumes inv: "election_inv n vote counted s" and i: "i < n"
    and "other_event ev" "raft_exec ev (node s i) = Some rf'"
  shows "\<exists>vote'. election_inv n vote' counted (s\<lparr>node := (node s)(i := rf')\<rparr>)"
proof -
  have d: "durable rf'"
    using election_invD(2) [OF inv i] assms(4) by (rule raft_exec_durable)
  consider "steps_down (node s i) rf'" | (c) "concedes (node s i) rf'"
    using other_event_ballot [OF assms(3,4)] by blast
  then show ?thesis
  proof cases
    case 1
    with election_inv_steps_down [OF inv i _ d] show ?thesis by blast
  next
    case c
    then have "currentTerm (node s i) \<le> currentTerm rf'" by (simp add: concedes_def ballot_def)
    with election_inv_update [OF inv i node_inv_concedes(1) [OF election_invD(1) [OF inv i] c] d
        node_inv_concedes(2) [OF election_invD(1) [OF inv i] c]]
    show ?thesis by auto
  qed
qed

lemma election_inv_answer:
  assumes inv: "election_inv n vote counted s" and "(c, p, args) \<in> requests s"
    and rv: "RequestVote now (node s p) args = Some (rf', reply)"
  shows "\<exists>vote'. election_inv n vote' counted
     (s\<lparr>node := (node s)(p := rf'), replies := insert (p, args, reply) (replies s)\<rparr>)"
proof -
  let ?s = "s\<lparr>node := (node s)(p := rf')\<rparr>" and ?T = "rvTerm args" and ?c = "CandidateId args"
  have p: "p < n" "?c \<noteq> int p" "0 \<le> ?c"
    using election_invD(3) [OF inv] assms(2) by (auto simp: request_inv_def request_ok_def)
  have d: "durable rf'" using election_invD(2) [OF inv p(1)] rv by (rule durable_RequestVote)
  consider (no) "steps_down (node s p) rf'" "\<not> VoteGranted reply"
    | (yes) "VoteGranted reply"
      "?T = currentTerm (node s p) \<and> votedFor (node s p) \<in> {-1, ?c} \<and>
         ballot rf' = (?T, ?c, state (node s p), getVotesNum (node s p)) \<or>
       ?T > currentTerm (node s p) \<and> ballot rf' = (?T, ?c, FOLLOWER, 0)"
      "me rf' = me (node s p)" "peers rf' = peers (node s p)"
    using RequestVote_ballot [OF rv] by auto
  then show ?thesis
  proof cases
    case no
    with election_inv_reply [OF election_inv_steps_down [OF inv p(1) _ d], of reply args p]
    show ?thesis by auto
  next
    case yes
    note grant = node_inv_grant [OF election_invD(1) [OF inv p(1)] p(2) yes(2-4)]
    have "currentTerm (node s p) \<le> currentTerm rf'" using yes(2) by (auto simp: ballot_def)
    then have "election_inv n (cast vote p ?T ?c) counted ?s"
      by (intro election_inv_update [OF inv p(1) grant(1) d grant(2)]) simp_all
    from election_inv_reply [OF this, of reply args p] p show ?thesis by auto
  qed
qed

lemma request_inv_count:
  assumes inv: "request_inv n counted s" and "(c, p, a) \<in> requests s" and "T = rvTerm a"
    and mono: "currentTerm (node s c) \<le> currentTerm rf'"
  shows "request_inv n (cast counted c T (insert p (counted c T)))
           (s\<lparr>node := (node s)(c := rf'), requests := requests s - {(c, p, a)}\<rparr>)"
proof -
  let ?R = "requests s - {(c, p, a)}"
  have one: "one_request ?R"
    using inv by (auto simp: request_inv_def intro: one_request_subset)
  have "request_ok n (cast counted c T (insert p (counted c T))) (currentTerm (((node s)(c := rf')) c')) c' q a'"
    if "(c', q, a') \<in> ?R" for c' q a'
  proof -
    have "request_ok n counted (currentTerm (node s c')) c' q a'"
      using inv that by (simp add: request_inv_def)
    moreover have "\<not> (c' = c \<and> q = p \<and> rvTerm a' = T)"
      using inv assms(2,3) that unfolding request_inv_def one_request_def by blast
    ultimately show ?thesis using mono by (auto simp: request_ok_def cast_def)
  qed
  with one show ?thesis by (simp add: request_inv_def)
qed

lemma election_inv_collect:
  assumes inv: "election_inv n vote counted s" and rq: "(c, p, args) \<in> requests s"
    and rp: "(p, args, reply) \<in> replies s"
    and cv: "candidateRequestVote_reply (node s c) args reply = Some rf'"
  shows "\<exists>counted'. election_inv n vote counted'
     (s\<lparr>node := (node s)(c := rf'), requests := requests s - {(c, p, args)}\<rparr>)"
proof -
  let ?rf = "node s c" and ?T = "rvTerm args"
  have c: "c < n" "p < n" "p \<noteq> c" "CandidateId args = int c" "p \<notin> counted c ?T"
    using election_invD(3) [OF inv] rq by (auto simp: request_inv_def request_ok_def)
  have d: "durable rf'"
    using election_invD(2) [OF inv c(1)] cv by (rule durable_candidateRequestVote_reply)
  have node: "node_inv n vote counted c ?rf" using inv c(1) by (rule election_invD)
  consider "steps_down ?rf rf'"
    | (vote) "?T = currentTerm ?rf" "VoteGranted reply" "state ?rf = CANDIDATE"
      "ballot rf' = (?T, votedFor ?rf, CANDIDATE, getVotesNum ?rf + 1) \<or>
       getVotesNum ?rf + 1 > int n div 2 \<and> ballot rf' = (?T, votedFor ?rf, LEADER, getVotesNum ?rf + 1)"
    using candidateRequestVote_reply_ballot [OF cv] node by (auto simp: node_inv_def)
  then show ?thesis
  proof cases
    case 1
    from election_inv_fewer_requests [OF election_inv_steps_down [OF inv c(1) 1 d],
        of "requests s - {(c, p, args)}"]
    show ?thesis by auto
  next
    case vote
    let ?counted = "cast counted c ?T (insert p (counted c ?T))"
    let ?s = "s\<lparr>node := (node s)(c := rf'), requests := requests s - {(c, p, args)}\<rparr>"
    have "vote p ?T = int c"
      using election_invD(4) [OF inv] rp vote(2) c(4) by (auto simp: reply_inv_def)
    moreover have "me rf' = me ?rf" "peers rf' = peers ?rf"
      using candidateRequestVote_reply_ballot [OF cv] by simp_all
    ultimately have "node_inv n vote ?counted c rf'"
      using vote c by (intro node_inv_count [OF node]) simp_all
    moreover have "node_inv n vote ?counted j (node s j)" if "j < n" "j \<noteq> c" for j
      using election_invD(1) [OF inv that(1)] that(2) by (simp add: node_inv_def counted_inv_def)
    moreover have "request_inv n ?counted ?s"
      using vote(1,4) by (intro request_inv_count [OF election_invD(3) [OF inv] rq]) (auto simp: ballot_def)
    ultimately have "election_inv n vote ?counted ?s"
      using inv d by (auto simp: election_inv_def reply_inv_def)
    then show ?thesis by blast
  qed
qed

lemma request_inv_election:
  assumes inv: "request_inv n counted s" and "c < n"
    and P: "\<And>p. p \<in> P \<Longrightarrow> p < n \<and> p \<noteq> c" and "CandidateId args = int c"
    and T: "rvTerm args = currentTerm (node s c) + 1" "counted c (rvTerm args) = {}"
    and rf': "currentTerm rf' = rvTerm args"
  shows "request_inv n counted
     (s\<lparr>node := (node s)(c := rf'), requests := requests s \<union> {(c, p, args) | p. p \<in> P}\<rparr>)"
proof -
  have old: "rvTerm a \<noteq> rvTerm args" if "(c, p, a) \<in> requests s" for p a
    using inv that T(1) by (force simp: request_inv_def request_ok_def)
  have "one_request (requests s \<union> {(c, p, args) | p. p \<in> P})"
    using inv old by (simp add: request_inv_def one_request_def) (metis (no_types))
  moreover have "request_ok n counted (currentTerm (((node s)(c := rf')) c')) c' q a"
    if "(c', q, a) \<in> requests s" for c' q a
    by (rule request_ok_mono [of _ _ "currentTerm (node s c')"])
      (use inv that T rf' in \<open>auto simp: request_inv_def\<close>)
  moreover have "request_ok n counted (rvTerm args) c q args" if "q \<in> P" for q
    using P [OF that] assms(2,4) T by (simp add: request_ok_def)
  ultimately show ?thesis using rf' by (auto simp: request_inv_def)
qed

lemma election_inv_election:
  assumes inv: "election_inv n vote counted s" and c: "c < n"
    and tk: "ticker now randTime rnd (node s c) = Some (rf', r, Some (args, ps))"
  shows "\<exists>vote'. election_inv n vote' counted
     (s\<lparr>node := (node s)(c := rf'), requests := requests s \<union> {(c, p, args) | p. p \<in> set ps}\<rparr>)"
proof -
  let ?rf = "node s c" and ?s = "s\<lparr>node := (node s)(c := rf')\<rparr>"
  have node: "node_inv n vote counted c ?rf" using inv c by (rule election_invD)
  have tb: "me rf' = me ?rf" "peers rf' = peers ?rf" "rvTerm args = currentTerm ?rf + 1"
      "CandidateId args = me ?rf" "\<forall>p \<in> set ps. p < peers ?rf \<and> int p \<noteq> me ?rf"
      "ballot rf' = (currentTerm ?rf + 1, me ?rf, CANDIDATE, 1)"
    using ticker_ballot [OF tk] by auto
  note cand = node_inv_candidate [OF node tb(1,2,6)]
  have d: "durable rf'" using durable_service(2) [OF election_invD(2) [OF inv c] tk] .
  have rf': "currentTerm rf' = currentTerm ?rf + 1" using tb(6) by (simp add: ballot_def)
  have "election_inv n (cast vote c (currentTerm ?rf + 1) (int c)) counted ?s"
    by (rule election_inv_update [OF inv c cand(1) d cand(2)]) (simp_all add: rf')
  moreover have "request_inv n counted
      (s\<lparr>node := (node s)(c := rf'), requests := requests s \<union> {(c, p, args) | p. p \<in> set ps}\<rparr>)"
    using node tb rf' c
    by (intro request_inv_election [OF election_invD(3) [OF inv]]) (auto simp: node_inv_def)
  ultimately have "election_inv n (cast vote c (currentTerm ?rf + 1) (int c)) counted
      (s\<lparr>node := (node s)(c := rf'), requests := requests s \<union> {(c, p, args) | p. p \<in> set ps}\<rparr>)"
    by (simp add: election_inv_def reply_inv_def)
  then show ?thesis by blast
qed

lemma election_inv_restart:
  assumes inv: "election_inv n vote counted s" and i: "i < n"
  shows "election_inv n vote counted
     (s\<lparr>node := (node s)(i := Make now (peers (node s i)) (me (node s i)) (persister (node s i))),
        requests := {q \<in> requests s. fst q \<noteq> i}\<rparr>)"
proof -
  let ?rf = "Make now (peers (node s i)) (me (node s i)) (persister (node s i))"
  have "currentTerm ?rf = currentTerm (node s i)"
    using restart_persistent [OF election_invD(2) [OF inv i]] by (simp add: persistent_def)
  then have "election_inv n vote counted (s\<lparr>node := (node s)(i := ?rf)\<rparr>)"
    using node_inv_restart [OF election_invD(1,2) [OF inv i]] durable_Make votes_kept_refl
    by (intro election_inv_update [OF inv i]) simp_all
  from election_inv_fewer_requests [OF this, of "{q \<in> requests s. fst q \<noteq> i}"]
  show ?thesis by auto
qed

lemma cluster_step_inv:
  assumes "cluster_step n s s'" and "election_inv n vote counted s"
  shows "\<exists>vote' counted'. election_inv n vote' counted' s'"
  using assms
proof (cases rule: cluster_step.cases)
  case (tick c now randTime rnd rf' r)
  then have "rf' = node s c" using ticker_ballot by blast
  with tick(1) assms(2) show ?thesis by auto
next
  case answer
  with election_inv_answer [OF assms(2)] show ?thesis by blast
next
  case collect
  with election_inv_collect [OF assms(2)] show ?thesis by blast
next
  case give_up
  with election_inv_fewer_requests [OF assms(2)] show ?thesis by blast
next
  case election
  with election_inv_election [OF assms(2)] show ?thesis by blast
next
  case other
  with election_inv_other [OF assms(2)] show ?thesis by blast
next
  case restart
  with election_inv_restart [OF assms(2)] show ?thesis by blast
qed

lemma election_inv_init:
  "election_inv n (\<lambda>_ _. -1) (\<lambda>_ _. {}) (cluster_init n :: ('c, 's) cluster)"
proof -
  have "node_inv n (\<lambda>_ _. -1) (\<lambda>_ _. {}) i (Make 0 n (int i) MakePersister :: ('c, 's) Raft)" for i
    by (simp add: node_inv_def counted_inv_def Make_def readPersist_def MakePersister_def
        ReadRaftState_def clone_def)
  then show ?thesis
    by (simp add: election_inv_def cluster_init_def durable_Make request_inv_def one_request_def
        reply_inv_def)
qed

lemma cluster_reachable_inv:
  "cluster_reachable n s \<Longrightarrow> \<exists>vote counted. election_inv n vote counted s"
  by (induction rule: cluster_reachable.induct) (use election_inv_init cluster_step_inv in blast)+

lemma leader_quorum:
  assumes inv: "election_inv n vote counted s" and "i < n" and "state (node s i) = LEADER"
  defines "T \<equiv> currentTerm (node s i)"
  shows "majority n (insert i (counted i T))" "\<And>p. p \<in> insert i (counted i T) \<Longrightarrow> vote p T = int i"
proof -
  have node: "node_inv n vote counted i (node s i)" using inv assms(2) by (rule election_invD)
  have "i \<notin> counted i T" using node by (auto simp: node_inv_def counted_inv_def)
  then have "card (insert i (counted i T)) = Suc (card (counted i T))"
    using finite_counted [OF node] by simp
  then show "majority n (insert i (counted i T))"
    using node assms(2,3) by (auto simp: majority_def node_inv_def counted_inv_def T_def)
  show "\<And>p. p \<in> insert i (counted i T) \<Longrightarrow> vote p T = int i"
    using node assms(3) by (auto simp: node_inv_def counted_inv_def T_def)
qed

lemma one_leader:
  assumes "cluster_reachable n s" and "i < n" "j < n"
    and "state (node s i) = LEADER" "state (node s j) = LEADER"
    and "currentTerm (node s i) = currentTerm (node s j)"
  shows "i = j"
proof -
  obtain vote counted where inv: "election_inv n vote counted s"
    using cluster_reachable_inv [OF assms(1)] by blast
  note i = leader_quorum [OF inv assms(2,4)] and j = leader_quorum [OF inv assms(3,5)]
  have "int i = int j"
    by (rule maj.unique_winner [OF i(1) j(1), where vote = "\<lambda>p. vote p (currentTerm (node s i))"])
      (use i(2) j(2) assms(6) in simp_all)
  then show ?thesis by simp
qed

section \<open>Election safety\<close>

text \<open>C1. Election safety: in every reachable state of a cluster, while a peer is the leader of a
  term no other peer is the leader of the same term, whatever the network loses, delays, reorders
  or repeats and however often peers crash and restart.\<close>

theorem election_safety:
  assumes "cluster_reachable n s" and "i < n" "j < n" "j \<noteq> i"
    and "state (node s i) = LEADER" and "currentTerm (node s j) = currentTerm (node s i)"
  shows "state (node s j) \<noteq> LEADER"
  using one_leader [OF assms(1-3,5) _ assms(6) [symmetric]] assms(4) by blast

text \<open>Peer 0 of three times out, peer 1 votes for it, and it becomes the leader of term 1.\<close>

definition demo_follower :: "nat \<Rightarrow> (int, int) Raft" where
  "demo_follower i = Make 0 3 (int i) MakePersister"

definition demo_args :: RequestVoteArgs where
  "demo_args = \<lparr>rvTerm = 1, CandidateId = 0, LastLogIndex = 0, LastLogTerm = 0\<rparr>"

definition demo_grant :: RequestVoteReply where
  "demo_grant = \<lparr>rvrTerm = 1, VoteGranted = True\<rparr>"

definition demo_candidate :: "(int, int) Raft" where
  "demo_candidate = CandidateState ((demo_follower 0)\<lparr>lastTimeHeared := 5\<rparr>)"

definition demo_voter :: "(int, int) Raft" where
  "demo_voter = (case RequestVote 6 (demo_follower 1) demo_args of
     Some (rf, _) \<Rightarrow> rf | None \<Rightarrow> demo_follower 1)"

definition demo_leader :: "(int, int) Raft" where
  "demo_leader = (case candidateRequestVote_reply demo_candidate demo_args demo_grant of
     Some rf \<Rightarrow> rf | None \<Rightarrow> demo_candidate)"

definition demo_cluster :: "(int, int) cluster" where
  "demo_cluster = \<lparr>node = demo_follower(0 := demo_leader, 1 := demo_voter),
     requests = {(0, 2, demo_args)}, replies = {(1, demo_args, demo_grant)}\<rparr>"

lemma demo_ticker:
  "ticker 5 3 0 (demo_follower 0) = Some (demo_candidate, 1000000000, Some (demo_args, [1, 2]))"
  by code_simp

lemma demo_answer: "RequestVote 6 (demo_follower 1) demo_args = Some (demo_voter, demo_grant)"
  by code_simp

lemma demo_collect:
  "candidateRequestVote_reply demo_candidate demo_args demo_grant = Some demo_leader"
  by code_simp

lemma demo_reachable: "cluster_reachable 3 demo_cluster"
proof -
  let ?s0 = "cluster_init 3 :: (int, int) cluster"
  let ?s1 = "\<lparr>node = demo_follower(0 := demo_candidate),
    requests = {(0, 1, demo_args), (0, 2, demo_args)}, replies = {}\<rparr>"
  let ?s2 = "\<lparr>node = demo_follower(0 := demo_candidate, 1 := demo_voter),
    requests = {(0, 1, demo_args), (0, 2, demo_args)}, replies = {(1, demo_args, demo_grant)}\<rparr>"
  have init: "?s0 = \<lparr>node = demo_follower, requests = {}, replies = {}\<rparr>"
    by (auto simp: cluster_init_def demo_follower_def)
  have sent: "{(0 :: nat, p, demo_args) | p. p \<in> set [1 :: nat, 2]} = {(0, 1, demo_args), (0, 2, demo_args)}"
    by auto
  have "cluster_step 3 ?s0 ?s1"
    using cluster_step.election [of 0 3 5 3 0 ?s0 demo_candidate "1000000000" demo_args "[1, 2]"]
      demo_ticker by (simp only: sent) (simp add: init)
  moreover have "cluster_step 3 ?s1 ?s2"
    using cluster_step.answer [of 0 1 demo_args ?s1 6 demo_voter demo_grant 3] demo_answer by simp
  moreover have "cluster_step 3 ?s2 demo_cluster"
    using cluster_step.collect [of 0 1 demo_args ?s2 demo_grant demo_leader 3] demo_collect
    by (simp add: demo_cluster_def fun_upd_twist insert_Diff_if)
  ultimately show ?thesis by (metis cluster_reachable.intros)
qed

theorem election_safety_witness:
  "cluster_reachable 3 demo_cluster \<and> state (node demo_cluster 0) = LEADER \<and>
   currentTerm (node demo_cluster 1) = currentTerm (node demo_cluster 0) \<and>
   state (node demo_cluster 1) \<noteq> LEADER"
proof -
  have "state demo_leader = LEADER" "currentTerm demo_voter = currentTerm demo_leader"
    by code_simp+
  then have "state (node demo_cluster 0) = LEADER"
    "currentTerm (node demo_cluster 1) = currentTerm (node demo_cluster 0)"
    by (simp_all add: demo_cluster_def)
  with election_safety [OF demo_reachable, of 0 1] demo_reachable show ?thesis by simp
qed

end
