(* ===== verification/Raft_Props.thy ===== *)
theory Raft_Props
  imports Raft_Step
begin

text \<open>
  Properties of a single raft peer: it never panics, its persistent state survives a crash at any moment,
  and the log replication, commitment and delivery rules do what they are meant to.
\<close>

section \<open>A run\<close>

definition run_entry :: "int \<Rightarrow> int \<Rightarrow> int \<Rightarrow> int LogEntry" where
  "run_entry t i cmd = \<lparr>eTerm = t, eCommand = Some cmd, eIndex = i\<rparr>"

definition run_append :: "int \<Rightarrow> int \<Rightarrow> int \<Rightarrow> int LogEntry list \<Rightarrow> int \<Rightarrow> int AppendEntriesArgs" where
  "run_append t prev pt es commit = \<lparr>aeTerm = t, LeaderId = 0, PrevLogIndex = prev, PrevLogTerm = pt,
     Entries = es, LeaderCommit = commit\<rparr>"

text \<open>A follower takes two entries of term 1, learns that the first is committed, applies it, votes in
  term 3, takes a snapshot and restarts.\<close>

definition run_args :: "int AppendEntriesArgs" where
  "run_args = run_append 1 0 0 [run_entry 1 1 10, run_entry 1 2 20] 0"

definition run_peer :: "(int, int) Raft" where
  "run_peer = Make 0 3 1 MakePersister"

definition run1 :: "(int, int) Raft" where
  "run1 = (case raft_exec (EvAppendEntries 1 run_args) run_peer of Some rf \<Rightarrow> rf | None \<Rightarrow> run_peer)"

definition run_follower :: "(int, int) Raft" where
  "run_follower = (case raft_exec (EvAppendEntries 2 (run_append 1 2 1 [] 1)) run1 of Some rf \<Rightarrow> rf | None \<Rightarrow> run1)"

definition run_rest :: "(int, int) raft_event list" where
  "run_rest = [EvApplied 1, EvRequestVote 4 \<lparr>rvTerm = 3, CandidateId = 2, LastLogIndex = 2, LastLogTerm = 2\<rparr>,
     EvSnapshot 1 [7], EvRestart 5]"

definition run_events :: "(int, int) raft_event list" where
  "run_events = EvAppendEntries 1 run_args # EvAppendEntries 2 (run_append 1 2 1 [] 1) # run_rest"

lemma run_peer_ok: "raft_wf run_peer" "durable run_peer"
  by (simp_all add: run_peer_def Make_fresh_wf durable_Make)

lemma run_exec: "raft_exec (EvAppendEntries 1 run_args) run_peer = Some run1"
  "raft_exec (EvAppendEntries 2 (run_append 1 2 1 [] 1)) run1 = Some run_follower"
  by code_simp+

lemma run_args_ok: "ae_wf run_args" "committed_agrees run_peer run_args"
  by (auto simp: run_args_def run_append_def run_entry_def ae_wf_def committed_agrees_def run_peer_def Make_def
      readPersist_def less_Suc_eq)

lemma run_heartbeat_ok: "event_ok run1 (EvAppendEntries 2 (run_append 1 2 1 [] 1))"
  by (simp add: ae_wf_def committed_agrees_def run_append_def)

lemma committed_agrees_code [code]:
  "committed_agrees rf args \<longleftrightarrow>
     (\<forall>i < length (Entries args). PrevLogIndex args + 1 + int i \<le> commitIndex rf \<longrightarrow>
        (case entryAt rf (PrevLogIndex args + 1 + int i) of
           None \<Rightarrow> True | Some e \<Rightarrow> eTerm e = eTerm (Entries args ! i)))"
  by (auto simp: committed_agrees_def split: option.splits)

lemma run_rest_ok: "run_ok run_rest run_follower"
  by code_simp

lemma run_events_ok: "run_ok run_events run_peer"
  unfolding run_events_def run_ok.simps run_exec option.case
  using run_args_ok run_heartbeat_ok run_rest_ok by simp

lemma run_follower_eq: "raft_run (take 2 run_events) run_peer = Some run_follower"
  by (simp add: run_events_def run_exec del: raft_exec.simps)

lemma run_follower_wf: "raft_wf run_follower"
proof -
  have "run_ok (take 2 run_events) run_peer"
    using run_args_ok run_heartbeat_ok by (simp add: run_events_def run_exec del: raft_exec.simps)
  from raft_run_invariant [OF run_peer_ok this] show ?thesis using run_follower_eq by simp
qed

section \<open>Properties\<close>

text \<open>C19. A raft peer never panics: from a first start, through any sequence of its handlers, timers, replies,
  snapshots, kills and restarts that a correct environment can cause, every critical section completes,
  and the log, the indices and the per-peer arrays stay well formed.\<close>

theorem raft_peer_never_panics:
  assumes "0 \<le> i" and "i < int n" and "run_ok evs (Make now n i MakePersister)"
  shows "\<exists>rf. raft_run evs (Make now n i MakePersister) = Some rf \<and> raft_wf rf"
  using raft_run_invariant [OF Make_fresh_wf [OF assms(1,2)] durable_Make assms(3)] by blast

theorem raft_peer_never_panics_witness:
  "\<exists>rf. raft_run run_events (Make 0 3 1 MakePersister) = Some rf \<and> raft_wf rf"
  using raft_peer_never_panics [of 1 3 run_events 0] run_events_ok by (simp add: run_peer_def)

text \<open>C18. Crash recovery: whatever a peer has done since its first start, a peer that is started from its
  stable storage has the same term, vote, log and snapshot position. This needs nothing of the
  environment: every critical section that changes these fields saves them before it ends.\<close>

theorem raft_state_survives_crash:
  assumes "raft_run evs (Make now n i MakePersister) = Some rf"
  shows "persistent (Make now' (peers rf) (me rf) (persister rf)) = persistent rf"
proof -
  have "durable rf'" if "raft_run evs rf0 = Some rf'" "durable rf0" for rf0 rf' :: "('a, 'b) Raft" and evs
    using that
  proof (induction evs arbitrary: rf0)
    case (Cons ev evs)
    then show ?case using raft_exec_durable by (auto split: Option.bind_splits)
  qed simp
  then show ?thesis using assms durable_Make restart_persistent by blast
qed

theorem raft_state_survives_crash_witness:
  "persistent (Make 9 (peers run_follower) (me run_follower) (persister run_follower)) = persistent run_follower"
  using raft_state_survives_crash [of "take 2 run_events" 0 3 1 run_follower 9] run_follower_eq
  by (simp add: run_peer_def)



text \<open>C17. The commit rule: the leader's new commit index is the largest index whose entry has the leader's own
  term and is stored on a majority of the peers, or the old commit index when there is none.\<close>

theorem commit_needs_majority:
  assumes "raft_wf rf"
  shows "\<exists>N. countReplica rf = Some N \<and> commitIndex rf \<le> N \<and> N \<le> lastLog rf \<and>
    (N = commitIndex rf \<or> committable rf N) \<and> {idx. committable rf idx \<and> N < idx} = {}"
  using countReplica_spec [OF assms] not_less by blast

definition run_leader :: "(int, int) Raft" where
  "run_leader = run_follower\<lparr>state := LEADER, matchIndex := [2, 0, 1]\<rparr>"

theorem commit_needs_majority_witness: "countReplica run_leader = Some 2 \<and> committable run_leader 2"
proof -
  have "peers run_follower = 3" by code_simp
  then have wf: "raft_wf run_leader"
    using run_follower_wf by (auto simp: run_leader_def raft_wf_defs lastLog_def logTerms_def)
  have "countReplica run_leader = Some 2" "commitIndex run_leader = 1" by code_simp+
  then show ?thesis using commit_needs_majority [OF wf] by auto
qed

text \<open>C20. Delivery: the apply loop hands the service exactly the committed entries it has not applied yet, one
  message for each index, in the order of the log, with the command of the entry.\<close>

theorem apply_delivers_in_order:
  assumes "raft_wf rf" and "lastApplied rf < commitIndex rf"
  shows "\<exists>msgs. applyChecker rf = Some (Some (commitIndex rf, msgs)) \<and>
    map CommandIndex msgs = [lastApplied rf + 1 .. commitIndex rf] \<and>
    map Command msgs = map (\<lambda>idx. Option.bind (entryAt rf idx) eCommand) [lastApplied rf + 1 .. commitIndex rf]"
proof -
  obtain msgs where m: "applyChecker rf = Some (Some (commitIndex rf, msgs))"
    "map CommandIndex msgs = [lastApplied rf + 1 .. commitIndex rf]"
    "\<And>m. m \<in> set msgs \<Longrightarrow> \<exists>e. entryAt rf (CommandIndex m) = Some e \<and> Command m = eCommand e"
    using applyChecker_eq [OF assms] by blast
  have "map Command msgs = map (\<lambda>idx. Option.bind (entryAt rf idx) eCommand) (map CommandIndex msgs)"
    using m(3) by (fastforce simp: o_def)
  then show ?thesis using m(1,2) by auto
qed

theorem apply_delivers_in_order_witness:
  "\<exists>msgs. applyChecker run_follower = Some (Some (1, msgs)) \<and> map Command msgs = [Some 10]"
proof -
  have "lastApplied run_follower = 0" "commitIndex run_follower = 1"
    "map (\<lambda>idx. Option.bind (entryAt run_follower idx) eCommand) [1..1] = [Some 10]" by code_simp+
  then show ?thesis using apply_delivers_in_order [OF run_follower_wf] by fastforce
qed

end
