(* ===== verification/Kv_Machine.thy ===== *)
theory Kv_Machine
  imports Go_Prelude "HOL-Library.Sublist"
begin

text \<open>
  The operations of the key/value services and two interfaces their servers implement: a machine
  that filters duplicates by client sequence numbers, and a machine whose state can be saved in
  a snapshot and restored from it. Both servers, \<open>src/kvraft\<close> and \<open>src/shardkv\<close>, declare the same
  \<open>Op\<close> struct.
\<close>

record Op =
  ClientID :: int
  SeqNum :: int
  Key :: string
  Value :: string
  Optype :: string

definition zeroKvOp :: Op where
  "zeroKvOp = \<lparr>ClientID = 0, SeqNum = 0, Key = '''', Value = '''', Optype = ''''\<rparr>"

type_synonym kv_map = "(string, string) fmap"
type_synonym session_map = "(int, int) fmap"

section \<open>The reference machine\<close>

text \<open>What an operation from the log does to a store and a duplicate table, and the answer its
  handler gets.\<close>

definition KV_effect :: "Op \<Rightarrow> kv_map \<Rightarrow> kv_map" where
  "KV_effect op st =
     (if Optype op = ''Put'' then fmupd (Key op) (Value op) st
      else if Optype op = ''Append'' then fmupd (Key op) (map_get '''' st (Key op) @ Value op) st
      else st)"

definition KV_step :: "kv_map \<times> session_map \<Rightarrow> Op \<Rightarrow> kv_map \<times> session_map" where
  "KV_step s op =
     (if SeqNum op \<le> map_get 0 (snd s) (ClientID op) then (fst s, touch (snd s) (ClientID op))
      else (KV_effect op (fst s), fmupd (ClientID op) (SeqNum op) (snd s)))"

text \<open>The answer a waiting handler gets: a \<open>Get\<close> carries the value of its key.\<close>

definition KV_answer :: "kv_map \<times> session_map \<Rightarrow> Op \<Rightarrow> Op" where
  "KV_answer s op =
     (if Optype op = ''Get'' then op\<lparr>Value := map_get '''' (fst s) (Key op)\<rparr> else op)"

section \<open>Duplicate filtering\<close>

text \<open>
  A clerk has one request at a time and numbers them upwards. Retries can leave several copies in
  the log, the last of them long after the clerk has moved on; but the first copy of a request
  precedes every copy of the clerk's later requests. \<open>seen\<close> holds what came before.
\<close>

fun issued_in_order :: "('op \<Rightarrow> int) \<Rightarrow> ('op \<Rightarrow> int) \<Rightarrow> (int \<times> int) set \<Rightarrow> 'op list \<Rightarrow> bool" where
  "issued_in_order client seqno seen [] \<longleftrightarrow> True"
| "issued_in_order client seqno seen (x # ops) \<longleftrightarrow>
     (\<forall>y \<in> set ops. client y = client x \<and> seqno y < seqno x \<longrightarrow> (client y, seqno y) \<in> seen) \<and>
     issued_in_order client seqno (insert (client x, seqno x) seen) ops"

text \<open>
  \<open>perform s op\<close> is the server's reaction to an operation from the log, \<open>data\<close> its store and \<open>latest\<close> its
  table of sequence numbers. A server carries out an operation it serves whose sequence number is
  above the client's entry, and then raises the entry; it ignores every other operation.
\<close>

locale dedup_machine =
  fixes perform :: "'srv \<Rightarrow> 'op \<Rightarrow> 'srv" and data :: "'srv \<Rightarrow> 'd" and latest :: "'srv \<Rightarrow> int \<Rightarrow> int"
    and serves :: "'srv \<Rightarrow> 'op \<Rightarrow> bool"
    and client :: "'op \<Rightarrow> int" and seqno :: "'op \<Rightarrow> int" and effect :: "'op \<Rightarrow> 'd \<Rightarrow> 'd"
  assumes fresh: "serves s op \<Longrightarrow> latest s (client op) < seqno op \<Longrightarrow>
      data (perform s op) = effect op (data s) \<and> latest (perform s op) = (latest s)(client op := seqno op)"
    and stale: "\<not> serves s op \<or> seqno op \<le> latest s (client op) \<Longrightarrow>
      data (perform s op) = data s \<and> latest (perform s op) = latest s"
    and serves_stable: "serves (perform s op) = serves s"
begin

definition runs :: "'srv \<Rightarrow> 'op list \<Rightarrow> 'srv" where
  "runs s ops = foldl perform s ops"

lemma runs_simps [simp]:
  "runs s [] = s" "runs s (op # ops) = runs (perform s op) ops" "runs s (ops @ ops') = runs (runs s ops) ops'"
  by (simp_all add: runs_def)

text \<open>The operations that take effect, computed from the table alone.\<close>

fun fresh_ops :: "('op \<Rightarrow> bool) \<Rightarrow> (int \<Rightarrow> int) \<Rightarrow> 'op list \<Rightarrow> 'op list" where
  "fresh_ops sv tbl [] = []"
| "fresh_ops sv tbl (op # ops) =
     (if sv op \<and> tbl (client op) < seqno op
      then op # fresh_ops sv (tbl(client op := seqno op)) ops else fresh_ops sv tbl ops)"

lemma runs_data: "data (runs s ops) = foldl (\<lambda>d op. effect op d) (data s) (fresh_ops (serves s) (latest s) ops)"
proof (induction ops arbitrary: s)
  case (Cons op ops)
  show ?case
  proof (cases "serves s op \<and> latest s (client op) < seqno op")
    case True
    then show ?thesis using fresh [of s op] serves_stable [of s op] Cons [of "perform s op"]
      by (simp add: fun_upd_def)
  next
    case False
    then have "data (perform s op) = data s \<and> latest (perform s op) = latest s"
      by (intro stale) auto
    with False show ?thesis using serves_stable [of s op] Cons [of "perform s op"] by auto
  qed
qed simp

lemma runs_serves: "serves (runs s ops) = serves s"
  by (induction ops arbitrary: s) (simp_all add: serves_stable)

lemma latest_mono: "latest s c \<le> latest (perform s op) c"
  using fresh [of s op] stale [of s op] by (cases "serves s op \<and> latest s (client op) < seqno op") auto

lemma runs_latest_mono: "latest s c \<le> latest (runs s ops) c"
  by (induction ops arbitrary: s) (auto intro: order_trans [OF latest_mono])

lemma perform_latest: "serves s op \<Longrightarrow> seqno op \<le> latest (perform s op) (client op)"
  using fresh [of s op] stale [of s op] by (cases "latest s (client op) < seqno op") auto

lemma runs_latest: "op \<in> set ops \<Longrightarrow> serves s op \<Longrightarrow> seqno op \<le> latest (runs s ops) (client op)"
proof (induction ops arbitrary: s)
  case (Cons x ops)
  show ?case
  proof (cases "op = x")
    case True
    then show ?thesis
      using perform_latest [OF Cons.prems(2)] runs_latest_mono [of "perform s op" "client op" ops] by simp
  next
    case False
    then show ?thesis using Cons serves_stable by simp
  qed
qed simp

text \<open>Two servers with the same store and table stay the same.\<close>

definition similar :: "'srv \<Rightarrow> 'srv \<Rightarrow> bool" where
  "similar s t \<longleftrightarrow> data s = data t \<and> latest s = latest t \<and> serves s = serves t"

lemma similar_perform: "similar s t \<Longrightarrow> similar (perform s op) (perform t op)"
  using fresh [of s op] fresh [of t op] stale [of s op] stale [of t op] serves_stable [of s op] serves_stable [of t op]
  by (cases "serves s op \<and> latest s (client op) < seqno op") (auto simp: similar_def)

lemma similar_runs: "similar s t \<Longrightarrow> similar (runs s ops) (runs t ops)"
  by (induction ops arbitrary: s t) (simp_all add: similar_perform)

text \<open>A retry that reaches the log again, anywhere later, changes nothing.\<close>

lemma retry_ignored:
  assumes "op \<in> set xs" and "serves s op"
  shows "similar (runs s (xs @ op # ys)) (runs s (xs @ ys))"
proof -
  let ?t = "runs s xs"
  have "seqno op \<le> latest ?t (client op)" using assms by (rule runs_latest)
  then have "similar (perform ?t op) ?t"
    using stale [of ?t op] serves_stable [of ?t op] by (simp add: similar_def)
  then show ?thesis using similar_runs by simp
qed

text \<open>No operation of a client takes effect twice.\<close>

lemma fresh_ops_above:
  "op \<in> set (fresh_ops sv tbl ops) \<Longrightarrow> tbl (client op) < seqno op"
proof (induction ops arbitrary: tbl)
  case (Cons x ops)
  show ?case
  proof (cases "sv x \<and> tbl (client x) < seqno x \<and> op \<noteq> x")
    case True
    then have "op \<in> set (fresh_ops sv (tbl(client x := seqno x)) ops)" using Cons.prems by auto
    from Cons.IH [OF this] True show ?thesis by (auto split: if_splits)
  qed (use Cons in \<open>auto split: if_splits\<close>)
qed simp

lemma fresh_ops_once: "distinct (map (\<lambda>op. (client op, seqno op)) (fresh_ops sv tbl ops))"
proof (induction ops arbitrary: tbl)
  case (Cons x ops)
  have "(client op, seqno op) \<noteq> (client x, seqno x)"
    if "op \<in> set (fresh_ops sv (tbl(client x := seqno x)) ops)" for op
    using fresh_ops_above [OF that] by auto
  with Cons show ?case by force
qed simp

lemma fresh_ops_subseq: "subseq (fresh_ops sv tbl ops) ops"
  by (induction ops arbitrary: tbl) auto

text \<open>When no operation is overtaken by a later one of its client, every operation above the table
  takes effect.\<close>

lemma fresh_ops_complete:
  assumes "issued_in_order client seqno seen ops" and "op \<in> set ops" and "tbl (client op) < seqno op"
    and "(client op, seqno op) \<notin> seen"
    and "\<And>y. y \<in> set ops \<Longrightarrow> (client y, seqno y) = (client op, seqno op) \<Longrightarrow> sv y"
  shows "(client op, seqno op) \<in> (\<lambda>op. (client op, seqno op)) ` set (fresh_ops sv tbl ops)"
  using assms
proof (induction ops arbitrary: seen tbl)
  case (Cons x ops)
  show ?case
  proof (cases "(client op, seqno op) = (client x, seqno x)")
    case True
    with Cons.prems(3) Cons.prems(5) [of x] show ?thesis by auto
  next
    case False
    then have op: "op \<in> set ops" using Cons.prems(2) by auto
    let ?tbl = "if sv x \<and> tbl (client x) < seqno x then tbl(client x := seqno x) else tbl"
    have "?tbl (client op) < seqno op"
      using False op Cons.prems(1,3,4) by (auto simp: not_less order_le_less)
    with op False Cons.prems have
      "(client op, seqno op) \<in> (\<lambda>op. (client op, seqno op)) ` set (fresh_ops sv ?tbl ops)"
      by (intro Cons.IH [of "insert (client x, seqno x) seen"]) auto
    then show ?thesis by (auto split: if_splits)
  qed
qed simp

end

section \<open>Snapshots\<close>

text \<open>
  A machine with a panicking step whose state is saved and restored. Restoring the snapshot of a
  prefix of the log and applying the rest is the same as applying the whole log.
\<close>

locale snapshot_machine =
  fixes step :: "'st \<Rightarrow> 'c \<Rightarrow> 'st option" and save :: "'st \<Rightarrow> 's list" and restore :: "'st \<Rightarrow> 's list \<Rightarrow> 'st"
  assumes restore_save: "restore s0 (save s) = s"
    and save_nonempty: "save s \<noteq> []"
begin

fun replay :: "'c list \<Rightarrow> 'st \<Rightarrow> 'st option" where
  "replay [] s = Some s"
| "replay (c # cs) s = do { s' \<leftarrow> step s c; replay cs s' }"

lemma replay_append: "replay (cs @ ds) s = do { s' \<leftarrow> replay cs s; replay ds s' }"
  by (induction cs arbitrary: s) (auto split: Option.bind_split)

lemma snapshot_transparent:
  assumes "replay (take k cs) s = Some s1"
  shows "replay (drop k cs) (restore s0 (save s1)) = replay cs s"
  using replay_append [of "take k cs" "drop k cs" s] assms by (simp add: restore_save)

text \<open>A replica that follows a log: at each moment it applies the next command or jumps forward to
  the snapshot another replica took after a longer prefix.\<close>

inductive follows :: "'st \<Rightarrow> 'c list \<Rightarrow> nat \<Rightarrow> 'st \<Rightarrow> bool" for init log where
  start: "follows init log 0 init"
| applies: "follows init log k s \<Longrightarrow> k < length log \<Longrightarrow> step s (log ! k) = Some s' \<Longrightarrow>
     follows init log (Suc k) s'"
| installs: "follows init log k s \<Longrightarrow> follows init log j t \<Longrightarrow> k < j \<Longrightarrow>
     follows init log j (restore s (save t))"

lemma follows_replay: "follows init log k s \<Longrightarrow> k \<le> length log \<and> replay (take k log) init = Some s"
proof (induction rule: follows.induct)
  case (applies k s s')
  then show ?case using replay_append [of "take k log" "[log ! k]" init]
    by (simp add: take_Suc_conv_app_nth)
qed (simp_all add: restore_save)

lemma replicas_agree: "follows init log k s \<Longrightarrow> follows init log k t \<Longrightarrow> s = t"
  using follows_replay [of init log k s] follows_replay [of init log k t] by simp

end

end
