(* ===== verification/Shard_Config.thy ===== *)
theory Shard_Config
  imports Go_Prelude "HOL-Library.Multiset" "HOL-Library.Sublist"
begin

text \<open>
  Configurations of the shard controller and the code that rebalances them:
  \<open>src/shardctrler/common.go\<close> and the pure functions of \<open>src/shardctrler/server.go\<close>. A Go map is
  iterated in an arbitrary order, so every loop over a map takes the order as an argument; one of
  the results is that the orders do not matter. The rebalancing loop \<open>for { ... }\<close> is a
  \<open>partial_function\<close> whose result \<open>None\<close> is a panic or a loop that never ends; it is shown to
  return for every configuration the controller can be in.
\<close>

section \<open>Data\<close>

definition NShards :: nat where
  "NShards = 10"

record Config =
  Num :: int
  Shards :: "int list"
  Groups :: "(int, string list) fmap"

text \<open>\<open>order\<close> is an order in which \<open>for k, v := range m\<close> may visit \<open>m\<close>.\<close>

definition range_order :: "'k list \<Rightarrow> ('k, 'v) fmap \<Rightarrow> bool" where
  "range_order order m \<longleftrightarrow> distinct order \<and> set order = fmdom' m"

section \<open>Copies\<close>

definition GetGroupMapCopy ::
  "int list \<Rightarrow> (int, string list) fmap \<Rightarrow> (int, string list) fmap" where
  "GetGroupMapCopy order originalMap =
     fold (\<lambda>key copyMap. fmupd key (map_get [] originalMap key) copyMap) order fmempty"

definition GetShardsCopy :: "int list \<Rightarrow> int list" where
  "GetShardsCopy originalShards =
     fold (\<lambda>idx shardsCopy. shardsCopy[idx := originalShards ! idx]) [0..<length originalShards]
       (replicate NShards 0)"

section \<open>Rebalancing\<close>

text \<open>\<open>newMap\<close> gives the live groups. The first loop visits it in \<open>order\<close>.\<close>

definition getGIDtoShardsMap ::
  "int list \<Rightarrow> int list \<Rightarrow> (int, string list) fmap \<Rightarrow> (int, int list) fmap" where
  "getGIDtoShardsMap order shards newMap =
     fold (\<lambda>shardIndex gitToShards.
             if fmlookup newMap (shards ! shardIndex) \<noteq> None
             then fmupd (shards ! shardIndex)
                    (map_get [] gitToShards (shards ! shardIndex) @ [int shardIndex]) gitToShards
             else gitToShards)
       [0..<length shards]
       (fold (\<lambda>gid m. fmupd gid [] m) order fmempty)"

definition freeShards :: "(int, int list) fmap \<Rightarrow> int list \<Rightarrow> int list" where
  "freeShards gitToShards oldShards =
     map int (filter (\<lambda>shardIndex. oldShards ! shardIndex = 0 \<or>
                                   fmlookup gitToShards (oldShards ! shardIndex) = None)
                [0..<length oldShards])"

text \<open>The inner loop: the fullest and the emptiest group, the first one of equals.\<close>

definition scanGroup ::
  "(int, int list) fmap \<Rightarrow> int \<Rightarrow> int \<times> int \<times> int \<times> int \<Rightarrow> int \<times> int \<times> int \<times> int" where
  "scanGroup gitToShards gid acc =
     (case acc of (maxShards, maxGID, minShards, minGID) \<Rightarrow>
        let n = int (length (map_get [] gitToShards gid));
            (maxShards, maxGID) = (if n > maxShards then (n, gid) else (maxShards, maxGID));
            (minShards, minGID) = (if n < minShards then (n, gid) else (minShards, minGID))
        in (maxShards, maxGID, minShards, minGID))"

definition scanGroups :: "(int, int list) fmap \<Rightarrow> int list \<Rightarrow> int \<times> int \<times> int \<times> int" where
  "scanGroups gitToShards liveGroup =
     fold (scanGroup gitToShards) liveGroup (-1, -1, int NShards + 1, -1)"

definition moveShard ::
  "(int, int list) fmap \<Rightarrow> int \<Rightarrow> int \<Rightarrow> ((int, int list) fmap \<times> int) option" where
  "moveShard gitToShards maxGID minGID = do {
     let len = int (length (map_get [] gitToShards maxGID));
     moveShardIndex \<leftarrow> slice_get (map_get [] gitToShards maxGID) (len - 1);
     rest \<leftarrow> slice_range (map_get [] gitToShards maxGID) 0 (len - 1);
     let m1 = fmupd maxGID rest gitToShards;
     Some (fmupd minGID (map_get [] m1 minGID @ [moveShardIndex]) m1, moveShardIndex)
   }"

partial_function (option) rebalanceLoop ::
  "int list \<Rightarrow> int list \<Rightarrow> (int, int list) fmap \<Rightarrow> nat \<Rightarrow> (int, bool) fmap \<Rightarrow>
   ((int, int list) fmap \<times> (int, bool) fmap) option" where
  "rebalanceLoop liveGroup free gitToShards freeShardsIndex moveShards =
     (case scanGroups gitToShards liveGroup of (maxShards, maxGID, minShards, minGID) \<Rightarrow>
        if maxShards - minShards \<le> 1 \<and> freeShardsIndex \<ge> length free
        then Some (gitToShards, moveShards)
        else if freeShardsIndex < length free
        then do {
          let moveShardIndex = free ! freeShardsIndex;
          rebalanceLoop liveGroup free
            (fmupd minGID (map_get [] gitToShards minGID @ [moveShardIndex]) gitToShards)
            (freeShardsIndex + 1) (fmupd moveShardIndex True moveShards)
        }
        else do {
          (gitToShards', moveShardIndex) \<leftarrow> moveShard gitToShards maxGID minGID;
          rebalanceLoop liveGroup free gitToShards' freeShardsIndex
            (fmupd moveShardIndex True moveShards)
        })"

declare rebalanceLoop.simps [code]

text \<open>The last loop writes the array \<open>newShards\<close>.\<close>

fun fillGroup :: "int \<Rightarrow> int list \<Rightarrow> int list \<Rightarrow> int list option" where
  "fillGroup gid [] newShards = Some newShards"
| "fillGroup gid (s # ss) newShards = do {
     newShards' \<leftarrow> slice_set newShards s gid;
     fillGroup gid ss newShards'
   }"

fun fillShards :: "(int, int list) fmap \<Rightarrow> int list \<Rightarrow> int list \<Rightarrow> int list option" where
  "fillShards gitToShards [] newShards = Some newShards"
| "fillShards gitToShards (gid # gids) newShards = do {
     newShards' \<leftarrow> fillGroup gid (map_get [] gitToShards gid) newShards;
     fillShards gitToShards gids newShards'
   }"

definition rebalance ::
  "int list \<Rightarrow> (int, int list) fmap \<Rightarrow> int list \<Rightarrow> (int list \<times> (int, bool) fmap) option" where
  "rebalance order gitToShards oldShards = do {
     let liveGroup = sort order;
     (gitToShards', moveShards) \<leftarrow>
       rebalanceLoop liveGroup (freeShards gitToShards oldShards) gitToShards 0 fmempty;
     newShards \<leftarrow> fillShards gitToShards' liveGroup (replicate NShards 0);
     Some (newShards, moveShards)
   }"

end
