(* ===== verification/Shard_Balance.thy ===== *)
theory Shard_Balance
  imports Shard_Config
begin

text \<open>
  Correctness of rebalancing. The loop of \<open>rebalance\<close> returns, its result assigns every shard to a
  live group, the loads of two live groups differ by at most one, and no group both gives and
  takes shards, so no shard moves needlessly. The result does not depend on the order in which
  Go iterates over its maps.
\<close>

section \<open>Copies are copies\<close>

lemma fold_fmupd_lookup:
  "fmlookup (fold (\<lambda>k m. fmupd k (f k) m) ks m) k = (if k \<in> set ks then Some (f k) else fmlookup m k)"
  by (induction ks arbitrary: m) auto

lemma GetGroupMapCopy_eq:
  assumes "range_order order m"
  shows "GetGroupMapCopy order m = m"
proof (rule fmap_ext)
  fix k
  have "k \<in> set order \<longleftrightarrow> fmlookup m k \<noteq> None"
    using assms by (simp add: range_order_def fmlookup_dom'_iff)
  then show "fmlookup (GetGroupMapCopy order m) k = fmlookup m k"
    by (auto simp: GetGroupMapCopy_def fold_fmupd_lookup map_get_def)
qed

lemma fold_copy:
  assumes "length ys = n" and "k \<le> n" and "length xs = n"
  shows "fold (\<lambda>i ys. ys[i := xs ! i]) [0..<k] ys = take k xs @ drop k ys"
  using assms(2)
proof (induction k)
  case (Suc k)
  then show ?case
    using assms(1,3)
    by (simp add: list_eq_iff_nth_eq nth_append nth_list_update min_def less_Suc_eq_le)
qed simp

lemma GetShardsCopy_eq: "length s = NShards \<Longrightarrow> GetShardsCopy s = s"
  using fold_copy [of "replicate NShards 0" NShards NShards s] by (simp add: GetShardsCopy_def)

section \<open>Loads\<close>

definition load :: "(int, int list) fmap \<Rightarrow> int \<Rightarrow> nat" where
  "load m g = length (map_get [] m g)"

lemma load_upd: "load (fmupd g xs m) h = (if h = g then length xs else load m h)"
  by (simp add: load_def map_get_upd)

text \<open>All shards the live groups hold.\<close>

definition held :: "(int, int list) fmap \<Rightarrow> int list \<Rightarrow> int multiset" where
  "held m L = mset (concat (map (map_get [] m) L))"

lemma held_Cons [simp]: "held m (g # L) = mset (map_get [] m g) + held m L"
  by (simp add: held_def)

lemma held_Nil [simp]: "held m [] = {#}"
  by (simp add: held_def)

lemma held_upd_other: "g \<notin> set L \<Longrightarrow> held (fmupd g xs m) L = held m L"
  by (induction L) (auto simp: map_get_upd)

lemma held_upd:
  assumes "distinct L" and "g \<in> set L"
  shows "held (fmupd g xs m) L + mset (map_get [] m g) = held m L + mset xs"
  using assms by (induction L) (auto simp: map_get_upd held_upd_other)

lemma size_held: "size (held m L) = (\<Sum>g\<leftarrow>L. load m g)"
  by (induction L) (simp_all add: load_def)

lemma load_le_held: "g \<in> set L \<Longrightarrow> load m g \<le> size (held m L)"
  by (auto simp: size_held intro!: member_le_sum_list)

section \<open>The scan\<close>

lemma scanGroups_snoc: "scanGroups m (L @ [g]) = scanGroup m g (scanGroups m L)"
  by (simp add: scanGroups_def)

lemma scanGroups_spec:
  assumes "L \<noteq> []" and "\<forall>g \<in> set L. load m g \<le> NShards"
  shows "\<exists>a b. scanGroups m L = (int (load m a), a, int (load m b), b) \<and> a \<in> set L \<and> b \<in> set L \<and>
    (\<forall>g \<in> set L. load m b \<le> load m g \<and> load m g \<le> load m a)"
  using assms
proof (induction L rule: rev_nonempty_induct)
  case (single g)
  then show ?case by (simp add: scanGroups_def scanGroup_def load_def Let_def)
next
  case (snoc g L)
  then obtain a b where ab: "scanGroups m L = (int (load m a), a, int (load m b), b)"
    "a \<in> set L" "b \<in> set L" "\<forall>h \<in> set L. load m b \<le> load m h \<and> load m h \<le> load m a"
    by auto
  let ?a = "if load m g > load m a then g else a" and ?b = "if load m g < load m b then g else b"
  have "scanGroups m (L @ [g]) = (int (load m ?a), ?a, int (load m ?b), ?b)"
    unfolding scanGroups_snoc ab(1) scanGroup_def by (simp add: load_def Let_def)
  moreover have "\<forall>h \<in> set (L @ [g]). load m ?b \<le> load m h \<and> load m h \<le> load m ?a"
    using ab(4) by fastforce
  moreover have "?a \<in> set (L @ [g])" "?b \<in> set (L @ [g])" using ab(2,3) by auto
  ultimately show ?case by blast
qed

lemma moveShard_eq:
  assumes "map_get [] m a = xs @ [s]" and "a \<noteq> b"
  shows "moveShard m a b = Some (fmupd b (map_get [] m b @ [s]) (fmupd a xs m), s)"
  using assms by (simp add: moveShard_def slice_get_def slice_range_def map_get_upd nth_append)

section \<open>The loop invariant\<close>

text \<open>Where a group stands: as it was, grown and then among the smallest, or shrunk and then among
  the largest. A group shrinks only once the free shards are gone.\<close>

definition group_ok ::
  "int list \<Rightarrow> (int, int list) fmap \<Rightarrow> (int, int list) fmap \<Rightarrow> bool \<Rightarrow> int \<Rightarrow> bool" where
  "group_ok L m0 m done g \<longleftrightarrow>
     map_get [] m g = map_get [] m0 g \<or>
     strict_prefix (map_get [] m0 g) (map_get [] m g) \<and> (\<forall>h \<in> set L. load m g \<le> load m h + 1) \<or>
     strict_prefix (map_get [] m g) (map_get [] m0 g) \<and> done \<and> (\<forall>h \<in> set L. load m h \<le> load m g + 1)"

definition loop_inv ::
  "int list \<Rightarrow> int list \<Rightarrow> (int, int list) fmap \<Rightarrow> (int, int list) fmap \<Rightarrow> nat \<Rightarrow> (int, bool) fmap \<Rightarrow> bool"
where
  "loop_inv L free m0 m fi moved \<longleftrightarrow>
     held m L + mset (drop fi free) = held m0 L + mset free \<and>
     (\<forall>g \<in> set L. group_ok L m0 m (length free \<le> fi) g) \<and>
     (\<forall>g \<in> set L. \<forall>s. (s \<in> set (map_get [] m g)) \<noteq> (s \<in> set (map_get [] m0 g)) \<longrightarrow> s \<in> fmdom' moved)"

lemma loop_inv_init: "loop_inv L free m0 m0 0 fmempty"
  by (simp add: loop_inv_def group_ok_def)

lemma loop_inv_load:
  assumes "loop_inv L free m0 m fi moved" and "size (held m0 L) + length free \<le> NShards"
    and "g \<in> set L"
  shows "load m g \<le> NShards"
proof -
  have "size (held m L + mset (drop fi free)) = size (held m0 L + mset free)"
    using assms(1) by (simp add: loop_inv_def)
  with load_le_held [OF assms(3), of m] assms(2) show ?thesis by simp
qed

lemma group_ok_free:
  assumes ok: "group_ok L m0 m False g" and b: "\<forall>h \<in> set L. load m b \<le> load m h" "b \<in> set L"
    and g: "g \<in> set L"
  shows "group_ok L m0 (fmupd b (map_get [] m b @ [s]) m) d g"
proof (cases "g = b")
  case True
  then have "prefix (map_get [] m0 g) (map_get [] m g)" using ok by (auto simp: group_ok_def)
  then have "strict_prefix (map_get [] m0 g) (map_get [] m g @ [s])"
    by (simp add: prefix_order.le_imp_less_or_eq strict_prefixI' prefix_def strict_prefix_def) auto
  with True b show ?thesis by (auto simp: group_ok_def map_get_upd load_upd load_def [of m b])
next
  case False
  with ok b g show ?thesis by (fastforce simp: group_ok_def map_get_upd load_upd load_def [of m b])
qed

lemma loop_inv_free:
  assumes inv: "loop_inv L free m0 m fi moved" and "fi < length free" and "distinct L"
    and b: "\<forall>h \<in> set L. load m b \<le> load m h" "b \<in> set L"
  shows "loop_inv L free m0 (fmupd b (map_get [] m b @ [free ! fi]) m) (fi + 1)
           (fmupd (free ! fi) True moved)"
proof -
  let ?m = "fmupd b (map_get [] m b @ [free ! fi]) m"
  have "held ?m L + mset (map_get [] m b) = held m L + mset (map_get [] m b @ [free ! fi])"
    using assms(3) b(2) by (rule held_upd)
  then have "held ?m L = add_mset (free ! fi) (held m L)" by simp
  moreover have "mset (drop fi free) = add_mset (free ! fi) (mset (drop (fi + 1) free))"
    using assms(2) by (simp add: Cons_nth_drop_Suc [symmetric])
  ultimately have "held ?m L + mset (drop (fi + 1) free) = held m0 L + mset free"
    using inv by (simp add: loop_inv_def)
  moreover have "group_ok L m0 ?m (length free \<le> fi + 1) g" if "g \<in> set L" for g
    using inv assms(2) that by (intro group_ok_free [OF _ b that]) (simp add: loop_inv_def not_le)
  moreover have "s \<in> fmdom' (fmupd (free ! fi) True moved)"
    if "g \<in> set L" "(s \<in> set (map_get [] ?m g)) \<noteq> (s \<in> set (map_get [] m0 g))" for g s
    using inv that unfolding loop_inv_def by (cases "s = free ! fi") (auto simp: map_get_upd split: if_splits)
  ultimately show ?thesis unfolding loop_inv_def by blast
qed

text \<open>One shard from the fullest group \<open>a\<close> to the emptiest group \<open>b\<close>.\<close>

lemma load_move:
  assumes "map_get [] m a = xs @ [s]" and "a \<noteq> b"
  shows "load (fmupd b (map_get [] m b @ [s]) (fmupd a xs m)) g =
    (if g = b then load m b + 1 else if g = a then load m a - 1 else load m g)"
  using assms by (simp add: load_def map_get_upd)

lemma group_ok_move:
  assumes ok: "group_ok L m0 m True g" and g: "g \<in> set L"
    and ab: "a \<in> set L" "b \<in> set L" "\<forall>h \<in> set L. load m b \<le> load m h \<and> load m h \<le> load m a"
    and far: "load m b + 2 \<le> load m a" and a: "map_get [] m a = xs @ [s]"
  shows "group_ok L m0 (fmupd b (map_get [] m b @ [s]) (fmupd a xs m)) True g"
proof -
  let ?m = "fmupd b (map_get [] m b @ [s]) (fmupd a xs m)"
  have ne: "a \<noteq> b" using far by auto
  note loads = load_move [OF a ne]
  have low: "load m b + 1 \<le> load ?m h + 1" and high: "load ?m h \<le> load m a"
    if "h \<in> set L" for h using that ab(3) far by (auto simp: loads)
  consider "g = a" | "g = b" | "g \<noteq> a" "g \<noteq> b" by blast
  then show ?thesis
  proof cases
    case 1
    then have "prefix (map_get [] m g) (map_get [] m0 g)"
      using ok far ab(2) by (auto simp: group_ok_def)
    then have "strict_prefix xs (map_get [] m0 g)"
      using a 1 by (auto simp: prefix_def strict_prefix_def)
    moreover have "load ?m h \<le> load ?m g + 1" if "h \<in> set L" for h
      using high [OF that] far 1 ne by (simp add: loads)
    ultimately show ?thesis using 1 ne by (simp add: group_ok_def map_get_upd)
  next
    case 2
    then have "prefix (map_get [] m0 g) (map_get [] m g)"
      using ok far ab(1) by (auto simp: group_ok_def)
    then have "strict_prefix (map_get [] m0 g) (map_get [] m g @ [s])"
      by (auto simp: prefix_def strict_prefix_def)
    moreover have "load ?m g \<le> load ?m h + 1" if "h \<in> set L" for h
      using low [OF that] 2 by (simp add: loads)
    ultimately show ?thesis using 2 by (simp add: group_ok_def map_get_upd)
  next
    case 3
    have "load m g \<le> load ?m h + 1" if "\<forall>h \<in> set L. load m g \<le> load m h + 1" "h \<in> set L" for h
      using that low [OF that(2)] ab(2) by fastforce
    moreover have "load ?m h \<le> load m g + 1" if "\<forall>h \<in> set L. load m h \<le> load m g + 1" "h \<in> set L" for h
      using that high [OF that(2)] ab(1) by fastforce
    moreover have "map_get [] ?m g = map_get [] m g" "load ?m g = load m g"
      using 3 by (simp_all add: map_get_upd loads)
    ultimately show ?thesis using ok by (auto simp: group_ok_def)
  qed
qed

lemma held_move:
  assumes "map_get [] m a = xs @ [s]" and "a \<noteq> b" and "distinct L" "a \<in> set L" "b \<in> set L"
  shows "held (fmupd b (map_get [] m b @ [s]) (fmupd a xs m)) L = held m L"
proof -
  have "held (fmupd a xs m) L + mset (map_get [] m a) = held m L + mset xs"
    using assms(3,4) by (rule held_upd)
  then have 1: "add_mset s (held (fmupd a xs m) L) = held m L" using assms(1) by simp
  have "held (fmupd b (map_get [] m b @ [s]) (fmupd a xs m)) L + mset (map_get [] (fmupd a xs m) b) =
      held (fmupd a xs m) L + mset (map_get [] m b @ [s])"
    using assms(3,5) by (rule held_upd)
  with 1 assms(2) show ?thesis by (simp add: map_get_upd)
qed

lemma loop_inv_move:
  assumes inv: "loop_inv L free m0 m fi moved" and "length free \<le> fi" and "distinct L"
    and ab: "a \<in> set L" "b \<in> set L" "\<forall>h \<in> set L. load m b \<le> load m h \<and> load m h \<le> load m a"
    and far: "load m b + 2 \<le> load m a" and a: "map_get [] m a = xs @ [s]"
  shows "loop_inv L free m0 (fmupd b (map_get [] m b @ [s]) (fmupd a xs m)) fi (fmupd s True moved)"
proof -
  let ?m = "fmupd b (map_get [] m b @ [s]) (fmupd a xs m)"
  have ne: "a \<noteq> b" using far by auto
  have "held ?m L = held m L" using a ne assms(3) ab(1,2) by (rule held_move)
  moreover have "group_ok L m0 ?m (length free \<le> fi) g" if "g \<in> set L" for g
    using inv assms(2) that group_ok_move [OF _ that ab far a] by (simp add: loop_inv_def)
  moreover have "x \<in> fmdom' (fmupd s True moved)"
    if "g \<in> set L" "(x \<in> set (map_get [] ?m g)) \<noteq> (x \<in> set (map_get [] m0 g))" for g x
    using inv that a ne unfolding loop_inv_def
    by (cases "x = s") (auto simp: map_get_upd split: if_splits)
  ultimately show ?thesis using inv unfolding loop_inv_def by simp
qed

text \<open>The sum of the squared loads falls with every move.\<close>

lemma squares_fall:
  fixes x y :: nat
  assumes "y + 2 \<le> x"
  shows "(y + 1)\<^sup>2 + (x - 1)\<^sup>2 < y\<^sup>2 + x\<^sup>2"
proof -
  obtain k where "x = y + 2 + k" using assms le_Suc_ex by blast
  then show ?thesis by (simp add: power2_eq_square algebra_simps)
qed

definition spread :: "(int, int list) fmap \<Rightarrow> int list \<Rightarrow> nat" where
  "spread m L = (\<Sum>g \<in> set L. (load m g)\<^sup>2)"

lemma spread_move:
  assumes "map_get [] m a = xs @ [s]" and "a \<in> set L" "b \<in> set L" and "load m b + 2 \<le> load m a"
  shows "spread (fmupd b (map_get [] m b @ [s]) (fmupd a xs m)) L < spread m L"
proof -
  let ?m = "fmupd b (map_get [] m b @ [s]) (fmupd a xs m)"
  have ne: "a \<noteq> b" using assms(4) by auto
  have split: "(\<Sum>g \<in> set L. f g) = f a + f b + (\<Sum>g \<in> set L - {a} - {b}. f g)" for f :: "int \<Rightarrow> nat"
    using assms(2,3) ne by (simp add: sum.remove [of "set L" a] sum.remove [of "set L - {a}" b])
  have "(\<Sum>g \<in> set L - {a} - {b}. (load ?m g)\<^sup>2) = (\<Sum>g \<in> set L - {a} - {b}. (load m g)\<^sup>2)"
    by (rule sum.cong) (auto simp: load_upd)
  with squares_fall [OF assms(4)] ne show ?thesis
    unfolding spread_def split by (simp add: load_move [OF assms(1) ne])
qed

section \<open>The loop\<close>

lemma rebalanceLoop_spec:
  assumes "L \<noteq> []" and "distinct L" and "size (held m0 L) + length free \<le> NShards"
    and "loop_inv L free m0 m fi moved"
  shows "\<exists>m' fi' moved'. rebalanceLoop L free m fi moved = Some (m', moved') \<and>
    length free \<le> fi' \<and> loop_inv L free m0 m' fi' moved' \<and>
    (\<forall>g \<in> set L. \<forall>h \<in> set L. load m' g \<le> load m' h + 1)"
  using assms(4)
proof (induction "(length free - fi, spread m L)" arbitrary: m fi moved
    rule: wf_induct_rule [OF wf_lex_prod [OF wf_less wf_less]])
  case 1
  note inv = 1(2)
  obtain a b where scan: "scanGroups m L = (int (load m a), a, int (load m b), b)"
    and ab: "a \<in> set L" "b \<in> set L" "\<forall>g \<in> set L. load m b \<le> load m g \<and> load m g \<le> load m a"
    using scanGroups_spec [OF assms(1)] loop_inv_load [OF inv assms(3)] by blast
  consider (stop) "load m a \<le> load m b + 1" "length free \<le> fi" | (free) "fi < length free"
    | (move) "load m b + 2 \<le> load m a" "length free \<le> fi" by linarith
  then show ?case
  proof cases
    case stop
    then have "rebalanceLoop L free m fi moved = Some (m, moved)"
      by (subst rebalanceLoop.simps) (simp add: scan)
    moreover have "load m g \<le> load m h + 1" if "g \<in> set L" "h \<in> set L" for g h
      using ab(3) [rule_format, OF that(1)] ab(3) [rule_format, OF that(2)] stop(1) by linarith
    ultimately show ?thesis using stop(2) inv by blast
  next
    case free
    let ?m = "fmupd b (map_get [] m b @ [free ! fi]) m" and ?mv = "fmupd (free ! fi) True moved"
    have "rebalanceLoop L free m fi moved = rebalanceLoop L free ?m (fi + 1) ?mv"
      by (subst rebalanceLoop.simps) (use free in \<open>simp add: scan Let_def\<close>)
    moreover have "loop_inv L free m0 ?m (fi + 1) ?mv"
      using inv free assms(2) ab(2,3) by (intro loop_inv_free) auto
    moreover have "length free - (fi + 1) < length free - fi" using free by simp
    ultimately show ?thesis using 1(1) [of "fi + 1" ?m ?mv] by simp
  next
    case move
    then obtain xs s where a: "map_get [] m a = xs @ [s]"
      by (cases "map_get [] m a" rule: rev_cases) (auto simp: load_def)
    let ?m = "fmupd b (map_get [] m b @ [s]) (fmupd a xs m)" and ?mv = "fmupd s True moved"
    have "moveShard m a b = Some (?m, s)" using a move(1) by (intro moveShard_eq) auto
    then have "rebalanceLoop L free m fi moved = rebalanceLoop L free ?m fi ?mv"
      by (subst rebalanceLoop.simps) (use move in \<open>simp add: scan Let_def\<close>)
    moreover have "loop_inv L free m0 ?m fi ?mv"
      using inv move(2) assms(2) ab move(1) a by (rule loop_inv_move)
    moreover have "spread ?m L < spread m L" using a ab(1,2) move(1) by (rule spread_move)
    ultimately show ?thesis using 1(1) [of fi ?m ?mv] by simp
  qed
qed

lemma rebalanceLoop_empty:
  "\<exists>m' moved'. rebalanceLoop [] free m fi moved = Some (m', moved')"
proof (induction "length free - fi" arbitrary: m fi moved)
  case 0
  then show ?case by (subst rebalanceLoop.simps) (simp add: scanGroups_def)
next
  case (Suc n)
  then have "n = length free - (fi + 1)" "fi < length free" by auto
  with Suc(1) show ?case by (subst rebalanceLoop.simps) (simp add: scanGroups_def Let_def)
qed

section \<open>Writing the result\<close>

lemma fillGroup_spec:
  assumes "\<forall>s \<in> set ss. 0 \<le> s \<and> s < int (length xs)"
  shows "\<exists>ys. fillGroup g ss xs = Some ys \<and> length ys = length xs \<and>
    (\<forall>i < length xs. ys ! i = (if int i \<in> set ss then g else xs ! i))"
  using assms
proof (induction ss arbitrary: xs)
  case (Cons s ss)
  let ?xs = "xs[nat s := g]"
  obtain ys where "fillGroup g ss ?xs = Some ys" "length ys = length xs"
    "\<forall>i < length xs. ys ! i = (if int i \<in> set ss then g else ?xs ! i)"
    using Cons.IH [of ?xs] Cons.prems by auto
  then show ?case using Cons.prems by (auto simp: slice_set_def nth_list_update)
qed simp

lemma fillShards_spec:
  assumes "\<forall>s \<in># held m L. 0 \<le> s \<and> s < int (length xs)"
  shows "\<exists>ys. fillShards m L xs = Some ys \<and> length ys = length xs \<and>
    (\<forall>i < length xs. (int i \<in># held m L \<longrightarrow> (\<exists>g \<in> set L. ys ! i = g \<and> int i \<in> set (map_get [] m g))) \<and>
                     (int i \<notin># held m L \<longrightarrow> ys ! i = xs ! i))"
  using assms
proof (induction L arbitrary: xs)
  case (Cons g L)
  obtain xs' where xs': "fillGroup g (map_get [] m g) xs = Some xs'" "length xs' = length xs"
    "\<forall>i < length xs. xs' ! i = (if int i \<in> set (map_get [] m g) then g else xs ! i)"
    using fillGroup_spec [of "map_get [] m g" xs g] Cons.prems by auto
  obtain ys where "fillShards m L xs' = Some ys" "length ys = length xs'"
    "\<forall>i < length xs'. (int i \<in># held m L \<longrightarrow> (\<exists>g \<in> set L. ys ! i = g \<and> int i \<in> set (map_get [] m g))) \<and>
                     (int i \<notin># held m L \<longrightarrow> ys ! i = xs' ! i)"
    using Cons.IH [of xs'] Cons.prems xs'(2) by auto
  with xs' show ?case by (fastforce simp: in_multiset_in_set)
qed simp

section \<open>The starting point\<close>

definition owned :: "int list \<Rightarrow> int \<Rightarrow> nat set" where
  "owned shards g = {i. i < length shards \<and> shards ! i = g}"

lemma finite_owned [simp]: "finite (owned shards g)"
  by (simp add: owned_def)

lemma getGIDtoShardsMap_lookup:
  assumes "range_order order newMap"
  shows "fmlookup (getGIDtoShardsMap order shards newMap) g =
    (if g \<in> fmdom' newMap then Some (map int (filter (\<lambda>i. shards ! i = g) [0..<length shards])) else None)"
proof -
  let ?step = "\<lambda>i m. if fmlookup newMap (shards ! i) \<noteq> None
      then fmupd (shards ! i) (map_get [] m (shards ! i) @ [int i]) m else m"
  have "fmlookup (fold ?step [0..<n] (fold (\<lambda>gid m. fmupd gid [] m) order fmempty)) g =
      (if g \<in> fmdom' newMap then Some (map int (filter (\<lambda>i. shards ! i = g) [0..<n])) else None)" for n
  proof (induction n)
    case 0
    then show ?case using assms by (simp add: fold_fmupd_lookup range_order_def)
  next
    case (Suc n)
    then show ?case by (auto simp: map_get_def fmlookup_dom'_iff)
  qed
  then show ?thesis unfolding getGIDtoShardsMap_def .
qed

lemma start_get:
  assumes "range_order order newMap" and "g \<in> fmdom' newMap"
  shows "map_get [] (getGIDtoShardsMap order shards newMap) g =
    map int (filter (\<lambda>i. shards ! i = g) [0..<length shards])"
  using assms by (simp add: map_get_def getGIDtoShardsMap_lookup)

lemma start_dom:
  "range_order order newMap \<Longrightarrow> fmdom' (getGIDtoShardsMap order shards newMap) = fmdom' newMap"
  by (rule set_eqI) (simp add: fmlookup_dom'_iff [of _ "getGIDtoShardsMap _ _ _"] getGIDtoShardsMap_lookup)

lemma start_free:
  assumes "range_order order newMap"
  shows "freeShards (getGIDtoShardsMap order shards newMap) shards =
    map int (filter (\<lambda>i. shards ! i = 0 \<or> shards ! i \<notin> fmdom' newMap) [0..<length shards])"
  using assms by (auto simp: freeShards_def getGIDtoShardsMap_lookup intro!: filter_cong)

lemma mset_filter_split:
  assumes "g \<notin> A"
  shows "image_mset h (mset (filter (\<lambda>i. f i = g) xs)) + image_mset h (mset (filter (\<lambda>i. f i \<in> A) xs)) =
    image_mset h (mset (filter (\<lambda>i. f i = g \<or> f i \<in> A) xs))"
  using assms by (induction xs) auto

lemma start_held:
  assumes "range_order order newMap" and "distinct L" and "set L \<subseteq> fmdom' newMap"
  shows "held (getGIDtoShardsMap order shards newMap) L =
    image_mset int (mset (filter (\<lambda>i. shards ! i \<in> set L) [0..<length shards]))"
  using assms(2,3)
proof (induction L)
  case (Cons g L)
  then show ?case
    using start_get [OF assms(1), of g shards]
      mset_filter_split [of g "set L" int "(!) shards" "[0..<length shards]"] by simp
qed simp

lemma start_all:
  assumes "range_order order newMap" and "distinct L" and "set L = fmdom' newMap" and "0 \<notin> fmdom' newMap"
    and m_def: "m = getGIDtoShardsMap order shards newMap"
  shows "held m L + mset (freeShards m shards) = mset (map int [0..<length shards])"
proof -
  let ?live = "\<lambda>i. shards ! i \<in> fmdom' newMap"
  have free: "filter (\<lambda>i. shards ! i = 0 \<or> \<not> ?live i) xs = filter (\<lambda>i. \<not> ?live i) xs" for xs
    using assms(4) by (intro filter_cong) auto
  have both: "image_mset int (mset (filter ?live xs)) + image_mset int (mset (filter (\<lambda>i. \<not> ?live i) xs)) =
      image_mset int (mset xs)" for xs
    by (induction xs) auto
  show ?thesis
    unfolding m_def start_held [OF assms(1,2) assms(3) [THEN equalityD1]] start_free [OF assms(1)]
      assms(3) mset_map by (simp only: free both)
qed

section \<open>The whole function\<close>

lemma held_distinct:
  assumes "held m L = mset xs" and "distinct xs"
  shows "g \<in> set L \<Longrightarrow> distinct (map_get [] m g)"
    and "g \<in> set L \<Longrightarrow> h \<in> set L \<Longrightarrow> g \<noteq> h \<Longrightarrow> set (map_get [] m g) \<inter> set (map_get [] m h) = {}"
proof -
  have d: "distinct (concat (map (map_get [] m) L))"
    using assms by (metis held_def mset_eq_imp_distinct_iff)
  then show "g \<in> set L \<Longrightarrow> distinct (map_get [] m g)"
    by (induction L) auto
  from d show "g \<in> set L \<Longrightarrow> h \<in> set L \<Longrightarrow> g \<noteq> h \<Longrightarrow> set (map_get [] m g) \<inter> set (map_get [] m h) = {}"
    by (induction L) auto
qed

text \<open>What \<open>rebalance\<close> promises: every shard has a live group, loads are even, and a group's
  shards only grow or only shrink.\<close>

definition balanced :: "int set \<Rightarrow> int list \<Rightarrow> bool" where
  "balanced G shards \<longleftrightarrow> (\<forall>g \<in> G. \<forall>h \<in> G. card (owned shards g) \<le> card (owned shards h) + 1)"

definition minimal_move :: "int set \<Rightarrow> int list \<Rightarrow> int list \<Rightarrow> bool" where
  "minimal_move G old new \<longleftrightarrow>
     (\<forall>g \<in> G. owned new g \<subseteq> owned old g \<or> owned old g \<subseteq> owned new g)"

lemma fillShards_owned:
  assumes held: "held m L = mset (map int [0..<NShards])"
  shows "\<exists>new. fillShards m L (replicate NShards 0) = Some new \<and> length new = NShards \<and>
    set new \<subseteq> set L \<and> (\<forall>g \<in> set L. set (map_get [] m g) = int ` owned new g \<and> load m g = card (owned new g))"
proof -
  have "distinct (map int [0..<NShards])" by (simp add: distinct_map)
  note dist = held_distinct [OF held this]
  have "\<forall>s \<in># held m L. 0 \<le> s \<and> s < int (length (replicate NShards (0 :: int)))"
    by (auto simp: held)
  from fillShards_spec [OF this] obtain new where fill: "fillShards m L (replicate NShards 0) = Some new"
    and new: "length new = NShards"
      "\<forall>i < NShards. new ! i \<in> set L \<and> int i \<in> set (map_get [] m (new ! i))"
    by (auto simp: held)
  have own: "set (map_get [] m g) = int ` owned new g" if "g \<in> set L" for g
  proof -
    have "x \<in># held m L" if "x \<in> set (map_get [] m g)" for x
      using \<open>g \<in> set L\<close> that by (auto simp: held_def)
    then have "set (map_get [] m g) \<subseteq> int ` {0..<NShards}" by (auto simp: held)
    moreover have "int i \<in> set (map_get [] m g) \<longleftrightarrow> new ! i = g" if "i < NShards" for i
      using new(2) that dist(2) [OF \<open>g \<in> set L\<close>] by blast
    ultimately show ?thesis using new(1) by (auto simp: owned_def)
  qed
  moreover have "load m g = card (owned new g)" if "g \<in> set L" for g
    using own [OF that] distinct_card [OF dist(1) [OF that]]
    by (simp add: load_def card_image)
  moreover have "set new \<subseteq> set L" using new by (auto simp: in_set_conv_nth)
  ultimately show ?thesis using fill new(1) by blast
qed

lemma loop_inv_minimal:
  assumes "loop_inv L free m0 m fi moved" and "g \<in> set L"
    and "set (map_get [] m g) = int ` owned new g" "set (map_get [] m0 g) = int ` owned old g"
  shows "owned new g \<subseteq> owned old g \<or> owned old g \<subseteq> owned new g"
proof -
  have "prefix (map_get [] m g) (map_get [] m0 g) \<or> prefix (map_get [] m0 g) (map_get [] m g)"
    using assms(1,2) unfolding loop_inv_def group_ok_def by (auto dest!: bspec)
  then have "set (map_get [] m g) \<subseteq> set (map_get [] m0 g) \<or> set (map_get [] m0 g) \<subseteq> set (map_get [] m g)"
    using set_mono_prefix by blast
  then show ?thesis using assms(3,4) by (simp add: inj_image_subset_iff)
qed

lemma rebalance_live:
  assumes order: "range_order order newMap"
    and order2: "range_order order2 (getGIDtoShardsMap order shards newMap)"
    and len: "length shards = NShards" and zero: "0 \<notin> fmdom' newMap" and ne: "fmdom' newMap \<noteq> {}"
  shows "\<exists>new moved. rebalance order2 (getGIDtoShardsMap order shards newMap) shards = Some (new, moved) \<and>
    length new = NShards \<and> set new \<subseteq> fmdom' newMap \<and> balanced (fmdom' newMap) new \<and>
    minimal_move (fmdom' newMap) shards new \<and>
    (\<forall>i < NShards. new ! i \<noteq> shards ! i \<longrightarrow> int i \<in> fmdom' moved)"
proof -
  define m0 where "m0 = getGIDtoShardsMap order shards newMap"
  define L where "L = sort order2"
  let ?free = "freeShards m0 shards"
  have L: "distinct L" "set L = fmdom' newMap"
    using order2 start_dom [OF order, of shards] by (simp_all add: L_def range_order_def)
  then have Lne: "L \<noteq> []" using ne by auto
  have all: "held m0 L + mset ?free = mset (map int [0..<NShards])"
    using start_all [OF order L(1,2) zero m0_def] len by simp
  then have "size (held m0 L + mset ?free) = NShards" by simp
  then have "size (held m0 L) + length ?free \<le> NShards" by simp
  then obtain m' fi moved where loop: "rebalanceLoop L ?free m0 0 fmempty = Some (m', moved)"
    and fi: "length ?free \<le> fi" and inv: "loop_inv L ?free m0 m' fi moved"
    and bal: "\<forall>g \<in> set L. \<forall>h \<in> set L. load m' g \<le> load m' h + 1"
    using rebalanceLoop_spec [OF Lne L(1) _ loop_inv_init] by blast
  have "held m' L = mset (map int [0..<NShards])" using inv fi all by (simp add: loop_inv_def)
  from fillShards_owned [OF this] obtain new where fill: "fillShards m' L (replicate NShards 0) = Some new"
    and new: "length new = NShards" "set new \<subseteq> set L"
      "\<And>g. g \<in> set L \<Longrightarrow> set (map_get [] m' g) = int ` owned new g \<and> load m' g = card (owned new g)"
    by blast
  have old: "set (map_get [] m0 g) = int ` owned shards g" if "g \<in> set L" for g
    using start_get [OF order, of g shards] that L(2) by (auto simp: m0_def owned_def)
  have "int i \<in> fmdom' moved" if "i < NShards" "new ! i \<noteq> shards ! i" for i
  proof -
    have "new ! i \<in> set L" using new(1,2) that(1) nth_mem [of i new] by auto
    moreover from this have "int i \<in> set (map_get [] m' (new ! i))" "int i \<notin> set (map_get [] m0 (new ! i))"
      using new(1,3) old that by (auto simp: owned_def)
    ultimately show ?thesis using inv unfolding loop_inv_def by blast
  qed
  moreover have "balanced (fmdom' newMap) new" using bal new(3) L(2) by (simp add: balanced_def)
  moreover have "minimal_move (fmdom' newMap) shards new"
    using loop_inv_minimal [OF inv] new(3) old L(2) by (simp add: minimal_move_def)
  moreover have "rebalance order2 m0 shards = Some (new, moved)"
    using loop fill by (simp add: rebalance_def L_def)
  ultimately show ?thesis using new(1,2) L(2) m0_def by auto
qed

lemma rebalance_none:
  assumes "fmdom' newMap = {}" and "range_order order newMap" and "range_order order2 (getGIDtoShardsMap order shards newMap)"
  shows "\<exists>moved. rebalance order2 (getGIDtoShardsMap order shards newMap) shards = Some (replicate NShards 0, moved)"
proof -
  have "order2 = []" using assms start_dom [OF assms(2), of shards] by (simp add: range_order_def)
  then show ?thesis
    using rebalanceLoop_empty [of "freeShards (getGIDtoShardsMap order shards newMap) shards"
        "getGIDtoShardsMap order shards newMap" 0 fmempty]
    by (auto simp: rebalance_def)
qed

end
