(* ===== verification/Wait_Chan.thy ===== *)
theory Wait_Chan
  imports Go_Prelude
begin

text \<open>
  The wait channels that every server of the repository keeps, \<open>waitChan map[int]chan ...\<close>: an RPC
  handler that has put a command at a log index waits on the channel of that index, the apply
  loop sends what it applied there, and a goroutine closes the channel and deletes the map entry
  when the handler is done. Channels are references, so the table has a heap of channels and the
  map holds addresses: a handler keeps its channel even when the entry has been deleted or the
  index reused. The three servers share this code and instantiate the message type.
\<close>

section \<open>Error codes\<close>

text \<open>The string constants of type \<open>Err\<close> in the three \<open>common.go\<close> files; \<open>ErrNone\<close> is the zero
  value \<open>""\<close> of a reply nobody filled in.\<close>

datatype Err = ErrNone | OK | ErrNoKey | ErrWrongGroup | ErrWrongLeader | ErrConfig

section \<open>Wait channels\<close>

record 'm wait_table =
  heap :: "'m channel list"
  waitChan :: "(int, nat) fmap"

definition make_table :: "'m wait_table" where
  "make_table = \<lparr>heap = [], waitChan = fmempty\<rparr>"

text \<open>\<open>getWaitCh\<close>: the channel of the index, made when it is absent.\<close>

definition get_wait :: "'m wait_table \<Rightarrow> int \<Rightarrow> 'm wait_table \<times> nat" where
  "get_wait t index =
     (case fmlookup (waitChan t) index of
        Some c \<Rightarrow> (t, c)
      | None \<Rightarrow> (t\<lparr>heap := heap t @ [make_channel],
                   waitChan := fmupd index (length (heap t)) (waitChan t)\<rparr>, length (heap t)))"

text \<open>\<open>waitChan <- m\<close> on a channel.\<close>

definition send_to :: "'m wait_table \<Rightarrow> nat \<Rightarrow> 'm \<Rightarrow> 'm wait_table option" where
  "send_to t c m = do {
     ch \<leftarrow> slice_get (heap t) (int c);
     ch' \<leftarrow> chan_send ch m;
     Some (t\<lparr>heap := (heap t)[c := ch']\<rparr>)
   }"

text \<open>The apply loop sends to the channel of the index when there is one.\<close>

definition notify :: "'m wait_table \<Rightarrow> int \<Rightarrow> 'm \<Rightarrow> 'm wait_table option" where
  "notify t index m =
     (case fmlookup (waitChan t) index of None \<Rightarrow> Some t | Some c \<Rightarrow> send_to t c m)"

text \<open>\<open>m, ok := <-waitCh\<close>. \<open>Blocked\<close> is a receive that cannot proceed yet.\<close>

datatype 'm received = Blocked | Closed | Message 'm

definition receive :: "'m wait_table \<Rightarrow> nat \<Rightarrow> ('m wait_table \<times> 'm received) option" where
  "receive t c = do {
     ch \<leftarrow> slice_get (heap t) (int c);
     Some (case buffer ch of
             m # ms \<Rightarrow> (t\<lparr>heap := (heap t)[c := ch\<lparr>buffer := ms\<rparr>]\<rparr>, Message m)
           | [] \<Rightarrow> (t, if closed ch then Closed else Blocked))
   }"

text \<open>The clean-up goroutine: \<open>close(waitCh); delete(waitChan, index)\<close>.\<close>

definition close_wait :: "'m wait_table \<Rightarrow> nat \<Rightarrow> int \<Rightarrow> 'm wait_table option" where
  "close_wait t c index = do {
     ch \<leftarrow> slice_get (heap t) (int c);
     ch' \<leftarrow> chan_close ch;
     Some (t\<lparr>heap := (heap t)[c := ch'], waitChan := fmdrop index (waitChan t)\<rparr>)
   }"

section \<open>Tables as an interface\<close>

text \<open>
  What a server relies on. \<open>live t i c\<close> says that \<open>c\<close> is the open channel of index \<open>i\<close>. Opening an
  index gives its live channel and leaves the others live; closing the live channel of an index
  does not panic and leaves the channels of other indices live; sending to an index does not
  panic while its channel is live, or when it has none.
\<close>

locale wait_channels =
  fixes live :: "'t \<Rightarrow> int \<Rightarrow> nat \<Rightarrow> bool" and idle :: "'t \<Rightarrow> int \<Rightarrow> bool"
    and opens :: "'t \<Rightarrow> int \<Rightarrow> 't \<times> nat"
    and sends :: "'t \<Rightarrow> int \<Rightarrow> 'm \<Rightarrow> 't option"
    and closes :: "'t \<Rightarrow> nat \<Rightarrow> int \<Rightarrow> 't option"
    and sound :: "'t \<Rightarrow> bool"
  assumes open_sound: "sound t \<Longrightarrow> sound (fst (opens t i))"
    and open_live: "sound t \<Longrightarrow> live (fst (opens t i)) i (snd (opens t i))"
    and open_other: "sound t \<Longrightarrow> j \<noteq> i \<Longrightarrow> live (fst (opens t i)) j d = live t j d"
    and send_ok: "sound t \<Longrightarrow> \<exists>t'. sends t i m = Some t' \<and> sound t' \<and> live t' = live t"
    and close_ok: "sound t \<Longrightarrow> live t i c \<Longrightarrow>
      \<exists>t'. closes t c i = Some t' \<and> sound t' \<and> idle t' i \<and> (\<forall>j d. j \<noteq> i \<longrightarrow> live t' j d = live t j d)"
begin

text \<open>Sessions: handlers that have opened their index and not closed it yet.\<close>

definition sessions_ok :: "'t \<Rightarrow> (int \<times> nat) list \<Rightarrow> bool" where
  "sessions_ok t H \<longleftrightarrow> sound t \<and> distinct (map fst H) \<and> (\<forall>(i, c) \<in> set H. live t i c)"

lemma open_session:
  assumes "sessions_ok t H" and "i \<notin> fst ` set H"
  shows "sessions_ok (fst (opens t i)) ((i, snd (opens t i)) # H)"
proof -
  have "live (fst (opens t i)) j d" if "(j, d) \<in> set H" for j d
    using assms that open_other [of t j i d] by (force simp: sessions_ok_def)
  then show ?thesis using assms open_sound open_live by (auto simp: sessions_ok_def)
qed

lemma send_session:
  assumes "sessions_ok t H"
  shows "\<exists>t'. sends t i m = Some t' \<and> sessions_ok t' H"
  using send_ok [of t i m] assms by (auto simp: sessions_ok_def)

lemma close_session:
  assumes "sessions_ok t H" and "(i, c) \<in> set H"
  shows "\<exists>t'. closes t c i = Some t' \<and> idle t' i \<and> sessions_ok t' (filter (\<lambda>(j, d). j \<noteq> i) H)"
proof -
  obtain t' where t': "closes t c i = Some t'" "sound t'" "idle t' i"
    "\<And>j d. j \<noteq> i \<Longrightarrow> live t' j d = live t j d"
    using close_ok [of t i c] assms unfolding sessions_ok_def by blast
  have "distinct (map fst (filter (\<lambda>(j, d). j \<noteq> i) H))"
    using assms(1) by (simp add: sessions_ok_def distinct_map_filter)
  then have "sessions_ok t' (filter (\<lambda>(j, d). j \<noteq> i) H)"
    using assms(1) t' by (auto simp: sessions_ok_def)
  with t' show ?thesis by blast
qed

text \<open>Any interleaving in which no index is opened while it is in use runs without a panic.\<close>

fun run_sessions :: "(int + int + int \<times> 'm) list \<Rightarrow> 't \<times> (int \<times> nat) list \<Rightarrow> ('t \<times> (int \<times> nat) list) option" where
  "run_sessions [] s = Some s"
| "run_sessions (Inl i # evs) (t, H) =
     run_sessions evs (fst (opens t i), (i, snd (opens t i)) # H)"
| "run_sessions (Inr (Inl i) # evs) (t, H) =
     (case map_of H i of
        None \<Rightarrow> run_sessions evs (t, H)
      | Some c \<Rightarrow> do { t' \<leftarrow> closes t c i; run_sessions evs (t', filter (\<lambda>(j, d). j \<noteq> i) H) })"
| "run_sessions (Inr (Inr (i, m)) # evs) (t, H) = do { t' \<leftarrow> sends t i m; run_sessions evs (t', H) }"

fun disjoint_sessions :: "(int + int + int \<times> 'm) list \<Rightarrow> int set \<Rightarrow> bool" where
  "disjoint_sessions [] A \<longleftrightarrow> True"
| "disjoint_sessions (Inl i # evs) A \<longleftrightarrow> i \<notin> A \<and> disjoint_sessions evs (insert i A)"
| "disjoint_sessions (Inr (Inl i) # evs) A \<longleftrightarrow> disjoint_sessions evs (A - {i})"
| "disjoint_sessions (Inr (Inr _) # evs) A \<longleftrightarrow> disjoint_sessions evs A"

lemma run_sessions_ok:
  assumes "sessions_ok t H" and "disjoint_sessions evs (fst ` set H)"
  shows "\<exists>t' H'. run_sessions evs (t, H) = Some (t', H') \<and> sessions_ok t' H'"
  using assms
proof (induction evs "fst ` set H" arbitrary: t H rule: disjoint_sessions.induct)
  case (2 i evs)
  then show ?case using open_session [of t H i] by simp
next
  case (3 i evs)
  show ?case
  proof (cases "map_of H i")
    case None
    then have "fst ` set H - {i} = fst ` set H" by (simp add: map_of_eq_None_iff)
    with 3 None show ?thesis by simp
  next
    case (Some c)
    then have "(i, c) \<in> set H" by (rule map_of_SomeD)
    with close_session [OF 3(2)] obtain t' where "closes t c i = Some t'"
      "sessions_ok t' (filter (\<lambda>(j, d). j \<noteq> i) H)" by blast
    moreover have "fst ` set (filter (\<lambda>(j, d). j \<noteq> i) H) = fst ` set H - {i}" by force
    ultimately show ?thesis using 3 Some by simp
  qed
next
  case (4 im evs)
  then show ?case using send_session [of t H "fst im" "snd im"] by (cases im) auto
qed auto

end

section \<open>The table of the servers\<close>

definition table_live :: "'m wait_table \<Rightarrow> int \<Rightarrow> nat \<Rightarrow> bool" where
  "table_live t i c \<longleftrightarrow>
     fmlookup (waitChan t) i = Some c \<and> c < length (heap t) \<and> \<not> closed (heap t ! c)"

definition table_idle :: "'m wait_table \<Rightarrow> int \<Rightarrow> bool" where
  "table_idle t i \<longleftrightarrow> fmlookup (waitChan t) i = None"

text \<open>Every index has its own channel, and it is open.\<close>

definition table_sound :: "'m wait_table \<Rightarrow> bool" where
  "table_sound t \<longleftrightarrow>
     (\<forall>i c. fmlookup (waitChan t) i = Some c \<longrightarrow> table_live t i c) \<and>
     (\<forall>i j c. fmlookup (waitChan t) i = Some c \<longrightarrow> fmlookup (waitChan t) j = Some c \<longrightarrow> i = j)"

lemma table_sound_make: "table_sound make_table"
  by (simp add: table_sound_def make_table_def)

lemma get_wait_live:
  assumes "table_sound t"
  shows "table_live (fst (get_wait t i)) i (snd (get_wait t i))"
  using assms by (auto simp: get_wait_def table_live_def table_sound_def make_channel_def split: option.splits)

lemma get_wait_other:
  assumes "table_sound t" and "j \<noteq> i"
  shows "table_live (fst (get_wait t i)) j d = table_live t j d"
  using assms by (auto simp: get_wait_def table_live_def table_sound_def nth_append split: option.splits)

lemma get_wait_sound:
  assumes "table_sound t"
  shows "table_sound (fst (get_wait t i))"
proof (cases "fmlookup (waitChan t) i")
  case None
  have lt: "c < length (heap t)" if "fmlookup (waitChan t) j = Some c" for j c
    using assms that by (auto simp: table_sound_def table_live_def)
  have "table_live (fst (get_wait t i)) j d" if "fmlookup (waitChan (fst (get_wait t i))) j = Some d" for j d
    using get_wait_live [OF assms, of i] get_wait_other [OF assms, of j i d] assms that None
    by (auto simp: table_sound_def get_wait_def split: if_splits)
  moreover have "j = k" if "fmlookup (waitChan (fst (get_wait t i))) j = Some c"
    "fmlookup (waitChan (fst (get_wait t i))) k = Some c" for j k c
    using that None assms lt by (auto simp: get_wait_def table_sound_def split: if_splits)
  ultimately show ?thesis unfolding table_sound_def by blast
qed (use assms in \<open>simp add: get_wait_def\<close>)

lemma notify_ok:
  assumes "table_sound t"
  shows "\<exists>t'. notify t i m = Some t' \<and> table_sound t' \<and> table_live t' = table_live t"
proof (cases "fmlookup (waitChan t) i")
  case None
  with assms show ?thesis by (simp add: notify_def)
next
  case (Some c)
  then have c: "c < length (heap t)" "\<not> closed (heap t ! c)"
    using assms by (auto simp: table_sound_def table_live_def)
  then obtain ch where ch: "chan_send (heap t ! c) m = Some ch" "\<not> closed ch"
    by (cases "buffer (heap t ! c) = []") (auto simp: chan_send_def)
  let ?t = "t\<lparr>heap := (heap t)[c := ch]\<rparr>"
  have "notify t i m = Some ?t" using Some c ch by (simp add: notify_def send_to_def slice_get_nat)
  moreover have "table_live ?t = table_live t"
    using c ch(2) by (auto simp: table_live_def fun_eq_iff nth_list_update)
  moreover from this have "table_sound ?t" using assms by (simp add: table_sound_def)
  ultimately show ?thesis by blast
qed

lemma close_wait_ok:
  assumes "table_sound t" and "table_live t i c"
  shows "\<exists>t'. close_wait t c i = Some t' \<and> table_sound t' \<and> table_idle t' i \<and>
    (\<forall>j d. j \<noteq> i \<longrightarrow> table_live t' j d = table_live t j d)"
proof -
  let ?t = "t\<lparr>heap := (heap t)[c := (heap t ! c)\<lparr>closed := True\<rparr>], waitChan := fmdrop i (waitChan t)\<rparr>"
  have c: "fmlookup (waitChan t) i = Some c" "c < length (heap t)" "\<not> closed (heap t ! c)"
    using assms(2) by (auto simp: table_live_def)
  have "close_wait t c i = Some ?t"
    using c by (simp add: close_wait_def chan_close_def slice_get_nat)
  moreover have other: "table_live ?t j d = table_live t j d" if "j \<noteq> i" for j d
    using that assms(1) c by (auto simp: table_live_def table_sound_def nth_list_update)
  moreover have "table_sound ?t"
    using assms(1) other by (auto simp: table_sound_def)
  ultimately show ?thesis by (auto simp: table_idle_def)
qed

interpretation wt: wait_channels table_live table_idle get_wait notify close_wait table_sound
  by unfold_locales
    (fact get_wait_sound get_wait_live get_wait_other notify_ok close_wait_ok)+

text \<open>A handler that opened an idle index receives what is sent there.\<close>

lemma wait_notify_receive:
  assumes "table_idle t i" and "notify (fst (get_wait t i)) i m = Some t'"
  shows "\<exists>t''. receive t' (snd (get_wait t i)) = Some (t'', Message m)"
  using assms
  by (auto simp: table_idle_def get_wait_def notify_def send_to_def receive_def chan_send_def make_channel_def
      slice_get_nat split: Option.bind_splits)

text \<open>Two handlers that share an index share its channel, and the second clean-up panics.\<close>

lemma shared_channel:
  "snd (get_wait (fst (get_wait t i)) i) = snd (get_wait t i)"
  by (auto simp: get_wait_def split: option.splits)

lemma close_twice_panics:
  assumes "close_wait t c i = Some t'"
  shows "close_wait t' c j = None"
  using assms
  by (auto simp: close_wait_def chan_close_def slice_get_def split: Option.bind_splits if_splits)

end
