(* ===== verification/Shard_Ctrler.thy ===== *)
theory Shard_Ctrler
  imports Shard_Balance Wait_Chan Raft_Node
begin

text \<open>
  The shard controller: \<open>src/shardctrler/server.go\<close>. A controller is a raft peer together with the
  list of configurations, the duplicate table and the wait channels. \<open>SC_applyHandler\<close> is one
  iteration of the apply loop; \<open>RequestHandler\<close> is split where it releases the lock: the calls
  into raft (\<open>_enter\<close>), \<open>getWaitCh\<close> (\<open>_wait\<close>), the \<open>select\<close> on the channel (\<open>_finish\<close>) and the clean-up
  goroutine (\<open>_cleanup\<close>). \<open>ord k A\<close> is the order in which the \<open>k\<close>-th loop over a map with the keys
  \<open>A\<close> visits it.
\<close>

section \<open>Data\<close>

record SC_Op =
  scArgsType :: int
  scServers :: "(int, string list) fmap"
  scGIDs :: "int list"
  scShard :: int
  scGID :: int
  scNum :: int
  scSeqNum :: int
  scClientID :: int

record CommandArgs =
  caArgsType :: int
  caServers :: "(int, string list) fmap"
  caGIDs :: "int list"
  caShard :: int
  caGID :: int
  caNum :: int
  caSeqNum :: int
  caClientID :: int

record CommandReply =
  crReplyType :: int
  crWrongLeader :: bool
  crErr :: Err
  crConfig :: Config

definition JoinArgsType :: int where "JoinArgsType = 1"
definition LeaveArgsType :: int where "LeaveArgsType = 2"
definition MoveArgsType :: int where "MoveArgsType = 3"
definition QueryArgsType :: int where "QueryArgsType = 4"

definition zeroConfig :: Config where
  "zeroConfig = \<lparr>Num = 0, Shards = replicate NShards 0, Groups = fmempty\<rparr>"

definition zeroOp :: SC_Op where
  "zeroOp = \<lparr>scArgsType = 0, scServers = fmempty, scGIDs = [], scShard = 0, scGID = 0, scNum = 0,
     scSeqNum = 0, scClientID = 0\<rparr>"

definition zeroCommandReply :: CommandReply where
  "zeroCommandReply = \<lparr>crReplyType = 0, crWrongLeader = False, crErr = ErrNone, crConfig = zeroConfig\<rparr>"

text \<open>The values a controller encodes.\<close>

datatype SC_gob = GConfigs "Config list" | GSessions "(int, int) fmap"

record ShardCtrler =
  sc_me :: int
  sc_rf :: "(SC_Op, SC_gob) Raft"
  configs :: "Config list"
  sc_waitChan :: "SC_Op wait_table"
  sc_clientSeq :: "(int, int) fmap"
  sc_dead :: bool

type_synonym range_orders = "nat \<Rightarrow> int fset \<Rightarrow> int list"

section \<open>Persistence\<close>

definition SC_getServerPersistData :: "ShardCtrler \<Rightarrow> SC_gob list" where
  "SC_getServerPersistData sc = [GConfigs (configs sc), GSessions (sc_clientSeq sc)]"

definition SC_readServerPersistData :: "ShardCtrler \<Rightarrow> SC_gob list \<Rightarrow> ShardCtrler" where
  "SC_readServerPersistData sc data =
     (case data of
        GConfigs cs # GSessions seqs # _ \<Rightarrow> sc\<lparr>configs := cs, sc_clientSeq := seqs\<rparr>
      | _ \<Rightarrow> sc)"

section \<open>Applying an operation\<close>

definition joinGroups ::
  "int list \<Rightarrow> (int, string list) fmap \<Rightarrow> (int, string list) fmap \<Rightarrow> (int, string list) fmap" where
  "joinGroups order copyNewServer copyMap =
     fold (\<lambda>gid m. fmupd gid (map_get [] copyNewServer gid)
                     (if fmlookup m gid \<noteq> None then fmdrop gid m else m)) order copyMap"

definition leaveGroups :: "int list \<Rightarrow> (int, string list) fmap \<Rightarrow> (int, string list) fmap" where
  "leaveGroups gids copyMap = fold fmdrop gids copyMap"

text \<open>The tail of the cases \<open>Join\<close> and \<open>Leave\<close>: rebalance over the new groups and append.\<close>

definition appendRebalanced ::
  "range_orders \<Rightarrow> ShardCtrler \<Rightarrow> Config \<Rightarrow> (int, string list) fmap \<Rightarrow> ShardCtrler option" where
  "appendRebalanced ord sc old copyMap = do {
     let gidToShardsMap = getGIDtoShardsMap (ord 3 (fmdom copyMap)) (Shards old) copyMap;
     (newShards, _) \<leftarrow> rebalance (ord 4 (fmdom gidToShardsMap)) gidToShardsMap (Shards old);
     Some (sc\<lparr>configs := configs sc @ [\<lparr>Num = Num old + 1, Shards = newShards, Groups = copyMap\<rparr>]\<rparr>)
   }"

definition SC_applyToStateMachine :: "range_orders \<Rightarrow> ShardCtrler \<Rightarrow> SC_Op \<Rightarrow> ShardCtrler option" where
  "SC_applyToStateMachine ord sc op = do {
     old \<leftarrow> slice_get (configs sc) (int (length (configs sc)) - 1);
     if scArgsType op = JoinArgsType
     then do {
       let copyMap = GetGroupMapCopy (ord 0 (fmdom (Groups old))) (Groups old);
       let copyNewServer = GetGroupMapCopy (ord 1 (fmdom (scServers op))) (scServers op);
       appendRebalanced ord sc old (joinGroups (ord 2 (fmdom copyNewServer)) copyNewServer copyMap)
     }
     else if scArgsType op = LeaveArgsType
     then appendRebalanced ord sc old
            (leaveGroups (scGIDs op) (GetGroupMapCopy (ord 0 (fmdom (Groups old))) (Groups old)))
     else if scArgsType op = MoveArgsType
     then do {
       shardsCopy \<leftarrow> slice_set (GetShardsCopy (Shards old)) (scShard op) (scGID op);
       Some (sc\<lparr>configs := configs sc @
              [\<lparr>Num = Num old + 1, Shards = shardsCopy, Groups = Groups old\<rparr>]\<rparr>)
     }
     else Some sc
   }"

definition SC_applyHandler ::
  "range_orders \<Rightarrow> ShardCtrler \<Rightarrow> (SC_Op, SC_gob) ApplyMsg \<Rightarrow> ShardCtrler option" where
  "SC_applyHandler ord sc msg =
     (if \<not> CommandValid msg then Some sc
      else do {
        let op = (case Command msg of Some op \<Rightarrow> op | None \<Rightarrow> zeroOp);
        let sc1 = (if fmlookup (sc_clientSeq sc) (scClientID op) = None
                   then sc\<lparr>sc_clientSeq := fmupd (scClientID op) 0 (sc_clientSeq sc)\<rparr> else sc);
        sc2 \<leftarrow> (if scSeqNum op \<le> map_get 0 (sc_clientSeq sc1) (scClientID op) then Some sc1
                else SC_applyToStateMachine ord sc1 op);
        t \<leftarrow> notify (sc_waitChan sc2) (CommandIndex msg) op;
        Some (sc2\<lparr>sc_waitChan := t\<rparr>)
      })"

section \<open>Requests\<close>

definition SC_getWaitCh :: "ShardCtrler \<Rightarrow> int \<Rightarrow> ShardCtrler \<times> nat" where
  "SC_getWaitCh sc index =
     (let (t, c) = get_wait (sc_waitChan sc) index in (sc\<lparr>sc_waitChan := t\<rparr>, c))"

definition SC_getConfig :: "ShardCtrler \<Rightarrow> int \<Rightarrow> Config option" where
  "SC_getConfig sc index = do {
     let configLength = int (length (configs sc));
     lastConfig \<leftarrow> slice_get (configs sc) (configLength - 1);
     if index = -1 \<or> index \<ge> configLength then Some lastConfig
     else slice_get (configs sc) index
   }"

definition wrongLeaderReply :: CommandReply where
  "wrongLeaderReply = zeroCommandReply\<lparr>crErr := ErrWrongLeader, crWrongLeader := True\<rparr>"

definition opOfArgs :: "CommandArgs \<Rightarrow> SC_Op" where
  "opOfArgs args = \<lparr>scArgsType = caArgsType args, scServers = caServers args, scGIDs = caGIDs args,
     scShard = caShard args, scGID = caGID args, scNum = caNum args, scSeqNum = caSeqNum args,
     scClientID = caClientID args\<rparr>"

text \<open>Either the reply of a server that is not the leader, or the log index to wait for.\<close>

definition SC_RequestHandler_enter ::
  "ShardCtrler \<Rightarrow> CommandArgs \<Rightarrow> (ShardCtrler \<times> (CommandReply + int)) option" where
  "SC_RequestHandler_enter sc args =
     (if \<not> snd (GetState (sc_rf sc)) then Some (sc, Inl wrongLeaderReply)
      else do {
        (rf', index, _, isLeader, _) \<leftarrow> Start (sc_rf sc) (opOfArgs args);
        Some (sc\<lparr>sc_rf := rf'\<rparr>, if isLeader then Inr index else Inl wrongLeaderReply)
      })"

definition SC_RequestHandler_wait :: "ShardCtrler \<Rightarrow> int \<Rightarrow> ShardCtrler \<times> nat" where
  "SC_RequestHandler_wait sc index = SC_getWaitCh sc index"

text \<open>The \<open>select\<close>: \<open>None\<close> is the timeout, \<open>Some\<close> what the channel delivered.\<close>

definition SC_RequestHandler_finish ::
  "range_orders \<Rightarrow> ShardCtrler \<Rightarrow> CommandArgs \<Rightarrow> SC_Op received option \<Rightarrow> CommandReply option" where
  "SC_RequestHandler_finish ord sc args outcome =
     (case outcome of
        Some (Message applyOp) \<Rightarrow>
          if scSeqNum applyOp = caSeqNum args \<and> scClientID applyOp = caClientID args
          then if scArgsType applyOp = QueryArgsType
               then do {
                 queryConfig \<leftarrow> SC_getConfig sc (caNum args);
                 let retConfig = \<lparr>Num = Num queryConfig, Shards = GetShardsCopy (Shards queryConfig),
                   Groups = GetGroupMapCopy (ord 5 (fmdom (Groups queryConfig))) (Groups queryConfig)\<rparr>;
                 Some (zeroCommandReply\<lparr>crConfig := retConfig, crErr := OK\<rparr>)
               }
               else Some (zeroCommandReply\<lparr>crErr := OK\<rparr>)
          else Some wrongLeaderReply
      | _ \<Rightarrow> Some wrongLeaderReply)"

text \<open>Every way out of the \<open>select\<close> spawns the goroutine that closes the channel.\<close>

definition SC_RequestHandler_cleanup :: "ShardCtrler \<Rightarrow> nat \<Rightarrow> int \<Rightarrow> ShardCtrler option" where
  "SC_RequestHandler_cleanup sc c index = do {
     t \<leftarrow> close_wait (sc_waitChan sc) c index;
     Some (sc\<lparr>sc_waitChan := t\<rparr>)
   }"

section \<open>Life cycle\<close>

definition SC_Kill :: "ShardCtrler \<Rightarrow> ShardCtrler" where
  "SC_Kill sc = sc\<lparr>sc_dead := True, sc_rf := Kill (sc_rf sc)\<rparr>"

definition SC_killed :: "ShardCtrler \<Rightarrow> bool" where
  "SC_killed sc = sc_dead sc"

definition SC_Raft :: "ShardCtrler \<Rightarrow> (SC_Op, SC_gob) Raft" where
  "SC_Raft sc = sc_rf sc"

definition SC_StartServer ::
  "int \<Rightarrow> nat \<Rightarrow> int \<Rightarrow> (SC_Op raft_gob, SC_gob) Persister \<Rightarrow> ShardCtrler" where
  "SC_StartServer now servers i ps =
     \<lparr>sc_me = i, sc_rf = Make now servers i ps, configs = [zeroConfig], sc_waitChan = make_table,
      sc_clientSeq = fmempty, sc_dead = False\<rparr>"

end
