(* ===== verification/SKV_Server.thy ===== *)
theory SKV_Server
  imports Kv_Machine Shard_Ctrler Raft_Step
begin

text \<open>
  The sharded key/value server: \<open>src/shardkv/server.go\<close>, \<open>src/shardkv/common.go\<close> and \<open>key2shard\<close> of
  \<open>src/shardkv/client.go\<close>. A server is a raft peer of one replica group. Its log carries client
  operations, configurations, shards pulled from other groups and confirmations that a shard has
  been taken over. \<open>SKV_applyHandler\<close> is one iteration of the apply loop up to the release of the
  lock; the message for a waiting handler is sent afterwards. The background goroutines are split
  where they release the lock or wait for an RPC.
\<close>

section \<open>Data\<close>

definition KVOperation :: int where "KVOperation = 1"
definition ConfigOperation :: int where "ConfigOperation = 2"
definition ShardRequestOperation :: int where "ShardRequestOperation = 3"
definition ShardConfirmOperation :: int where "ShardConfirmOperation = 4"
definition NoOperation :: int where "NoOperation = 5"

lemmas operation_types = KVOperation_def ConfigOperation_def ShardRequestOperation_def
  ShardConfirmOperation_def NoOperation_def

text \<open>The states of a shard; \<open>UNSET\<close> is the zero value.\<close>

datatype shard_state = UNSET | SERVING | NO_SERVING | PULLING | BEPULLED

record ConfigMsg =
  cmNum :: int
  cmShards :: "int list"
  cmGroups :: "(int, string list) fmap"

record ShardRequestMsg =
  srmConfigNum :: int
  srmShardIndex :: int
  srmGID :: int
  srmShardData :: kv_map
  srmClientSeqNum :: session_map

record ShardConfirmMsg =
  scmConfigNum :: int
  scmShardIndex :: int
  scmShardState :: shard_state

text \<open>\<open>Data interface{}\<close>: the types that the code puts there; \<open>None\<close> is \<open>nil\<close>.\<close>

datatype command_data =
    OpData Op
  | ConfigData ConfigMsg
  | ShardRequestData ShardRequestMsg
  | ShardConfirmData ShardConfirmMsg

record CommandMsg =
  CommandType :: int
  Data :: "command_data option"

definition zeroCommandMsg :: CommandMsg where
  "zeroCommandMsg = \<lparr>CommandType = 0, Data = None\<rparr>"

record ShardRequestArgs =
  sraConfigNum :: int
  sraShardIndex :: int
  sraGID :: int

record ShardRequestReply =
  srrErr :: Err
  srrConfigNum :: int
  srrShardIndex :: int
  srrShardData :: kv_map
  srrClientSeqNum :: session_map

definition zeroShardRequestReply :: ShardRequestReply where
  "zeroShardRequestReply = \<lparr>srrErr = ErrNone, srrConfigNum = 0, srrShardIndex = 0,
     srrShardData = fmempty, srrClientSeqNum = fmempty\<rparr>"

record ShardConfirmArgs =
  scaConfigNum :: int
  scaShardIndex :: int

record ShardConfirmReply =
  scrErr :: Err
  scrConfigNum :: int
  scrShardIndex :: int
  scrShardState :: shard_state

definition zeroShardConfirmReply :: ShardConfirmReply where
  "zeroShardConfirmReply = \<lparr>scrErr = ErrNone, scrConfigNum = 0, scrShardIndex = 0, scrShardState = UNSET\<rparr>"

record SKV_PutAppendArgs =
  spaKey :: string
  spaValue :: string
  spaOp :: string
  spaClientID :: int
  spaSeqNum :: int

record SKV_PutAppendReply =
  sprErr :: Err

record SKV_GetArgs =
  sgaKey :: string
  sgaClientID :: int
  sgaSeqNum :: int

record SKV_GetReply =
  sgrErr :: Err
  sgrValue :: string

datatype SKV_gob =
    SGStore kv_map
  | SGSeq session_map
  | SGStates "shard_state list"
  | SGConfig Config

record ShardKV =
  skv_me :: int
  skv_rf :: "(CommandMsg, SKV_gob) Raft"
  skv_maxraftstate :: int
  skv_gid :: int
  skv_currentState :: kv_map
  skv_waitChan :: "CommandMsg wait_table"
  skv_clientSeq :: session_map
  skv_lastIncludedIndex :: int
  skv_config :: Config
  skv_prevConfig :: Config
  skv_shardsState :: "shard_state list"

definition key2shard :: "string \<Rightarrow> int" where
  "key2shard key = (if length key > 0 then int (of_char (key ! 0)) else 0) mod int NShards"

section \<open>Shards\<close>

text \<open>The loops over \<open>shardData\<close> and \<open>clientSeqNum\<close> visit each key once and write only its own entry.\<close>

definition mergeShardData :: "ShardKV \<Rightarrow> int \<Rightarrow> kv_map \<Rightarrow> ShardKV option" where
  "mergeShardData kv shardIndex shardData = do {
     states \<leftarrow> slice_set (skv_shardsState kv) shardIndex SERVING;
     Some (kv\<lparr>skv_currentState := skv_currentState kv ++\<^sub>f shardData, skv_shardsState := states\<rparr>)
   }"

definition maxSeq :: "session_map \<Rightarrow> session_map \<Rightarrow> session_map" where
  "maxSeq seqs clientSeqNum =
     seqs ++\<^sub>f fmfilter (\<lambda>key. map_get 0 seqs key < map_get 0 clientSeqNum key) clientSeqNum"

definition mergeClientSeqNum :: "ShardKV \<Rightarrow> session_map \<Rightarrow> ShardKV" where
  "mergeClientSeqNum kv clientSeqNum = kv\<lparr>skv_clientSeq := maxSeq (skv_clientSeq kv) clientSeqNum\<rparr>"

definition shardsStateReady :: "ShardKV \<Rightarrow> bool" where
  "shardsStateReady kv = list_all (\<lambda>s. s = NO_SERVING \<or> s = SERVING) (skv_shardsState kv)"

definition isWrongGroup :: "ShardKV \<Rightarrow> int \<Rightarrow> bool option" where
  "isWrongGroup kv shardIndex = do {
     gid \<leftarrow> slice_get (Shards (skv_config kv)) shardIndex;
     Some (gid \<noteq> skv_gid kv)
   }"

definition updateShardsState :: "ShardKV \<Rightarrow> ShardKV" where
  "updateShardsState kv =
     (let prev = Shards (skv_prevConfig kv); now = Shards (skv_config kv); gid = skv_gid kv in
      if Num (skv_prevConfig kv) = 0
      then kv\<lparr>skv_shardsState :=
             map (\<lambda>i. if now ! i = gid then SERVING else skv_shardsState kv ! i) [0..<NShards]\<rparr>
      else kv\<lparr>skv_shardsState :=
             map (\<lambda>i. if prev ! i = gid \<and> now ! i = gid then SERVING
                      else if prev ! i \<noteq> gid \<and> now ! i = gid then PULLING
                      else if prev ! i = gid \<and> now ! i \<noteq> gid then BEPULLED
                      else NO_SERVING) [0..<NShards]\<rparr>)"

section \<open>Persistence\<close>

definition SKV_getServerPersistData :: "ShardKV \<Rightarrow> SKV_gob list" where
  "SKV_getServerPersistData kv =
     [SGStore (skv_currentState kv), SGSeq (skv_clientSeq kv), SGStates (skv_shardsState kv),
      SGConfig (skv_config kv), SGConfig (skv_prevConfig kv)]"

definition SKV_readServerPersistData :: "ShardKV \<Rightarrow> SKV_gob list \<Rightarrow> ShardKV" where
  "SKV_readServerPersistData kv data =
     (case data of
        SGStore st # SGSeq seqs # SGStates states # SGConfig c # SGConfig p # _ \<Rightarrow>
          kv\<lparr>skv_currentState := st, skv_clientSeq := seqs, skv_shardsState := states,
             skv_config := c, skv_prevConfig := p\<rparr>
      | _ \<Rightarrow> kv)"

section \<open>Applying\<close>

definition SKV_applyToStateMachine :: "ShardKV \<Rightarrow> Op \<Rightarrow> ShardKV" where
  "SKV_applyToStateMachine kv op =
     (let kv1 = kv\<lparr>skv_clientSeq := fmupd (ClientID op) (SeqNum op) (skv_clientSeq kv)\<rparr> in
      if Optype op = ''Put''
      then kv1\<lparr>skv_currentState := fmupd (Key op) (Value op) (skv_currentState kv1)\<rparr>
      else if Optype op = ''Append''
      then kv1\<lparr>skv_currentState :=
             fmupd (Key op) (map_get '''' (skv_currentState kv1) (Key op) @ Value op) (skv_currentState kv1)\<rparr>
      else kv1)"

text \<open>
  The cases of the apply loop. The result is the server and the message for the waiting handler;
  no message stands for a \<open>continue\<close>, which skips the snapshot as well.
\<close>

definition SKV_applyOp :: "ShardKV \<Rightarrow> int \<Rightarrow> Op \<Rightarrow> (ShardKV \<times> CommandMsg option) option" where
  "SKV_applyOp kv index op =
     (if index \<le> skv_lastIncludedIndex kv then Some (kv, None)
      else do {
        st \<leftarrow> slice_get (skv_shardsState kv) (key2shard (Key op));
        if st \<noteq> SERVING then Some (kv, None)
        else do {
          let kv1 = (if fmlookup (skv_clientSeq kv) (ClientID op) = None
                     then kv\<lparr>skv_clientSeq := fmupd (ClientID op) 0 (skv_clientSeq kv)\<rparr> else kv);
          let appliedOp = (if Optype op = ''Get''
                           then op\<lparr>Value := map_get '''' (skv_currentState kv1) (Key op)\<rparr> else op);
          let kv2 = (if map_get 0 (skv_clientSeq kv1) (ClientID op) \<ge> SeqNum op then kv1
                     else SKV_applyToStateMachine kv1 appliedOp);
          Some (kv2, Some \<lparr>CommandType = KVOperation, Data = Some (OpData appliedOp)\<rparr>)
        }
      })"

definition SKV_applyConfig :: "ShardKV \<Rightarrow> int \<Rightarrow> ConfigMsg \<Rightarrow> (ShardKV \<times> CommandMsg option) option" where
  "SKV_applyConfig kv index m =
     (if index \<le> skv_lastIncludedIndex kv then Some (kv, None)
      else
        let kv1 = (if Num (skv_config kv) = 0 \<or> cmNum m = Num (skv_config kv) + 1
                   then updateShardsState
                          (kv\<lparr>skv_prevConfig := skv_config kv,
                              skv_config := \<lparr>Num = cmNum m, Shards = cmShards m, Groups = cmGroups m\<rparr>\<rparr>)
                   else kv)
        in Some (kv1, Some \<lparr>CommandType = ConfigOperation, Data = Some (ConfigData m)\<rparr>))"

definition SKV_applyShardRequest ::
  "ShardKV \<Rightarrow> ShardRequestMsg \<Rightarrow> (ShardKV \<times> CommandMsg option) option" where
  "SKV_applyShardRequest kv m =
     (if srmConfigNum m \<noteq> Num (skv_config kv) then Some (kv, None)
      else do {
        st \<leftarrow> slice_get (skv_shardsState kv) (srmShardIndex m);
        kv1 \<leftarrow> (if st = PULLING
                then do {
                  kv' \<leftarrow> mergeShardData kv (srmShardIndex m) (srmShardData m);
                  Some (mergeClientSeqNum kv' (srmClientSeqNum m))
                }
                else Some kv);
        Some (kv1, Some \<lparr>CommandType = ShardRequestOperation, Data = Some (ShardRequestData m)\<rparr>)
      })"

definition SKV_applyShardConfirm ::
  "ShardKV \<Rightarrow> ShardConfirmMsg \<Rightarrow> (ShardKV \<times> CommandMsg option) option" where
  "SKV_applyShardConfirm kv m =
     (if scmConfigNum m \<noteq> Num (skv_config kv) then Some (kv, None)
      else do {
        st \<leftarrow> slice_get (skv_shardsState kv) (scmShardIndex m);
        kv1 \<leftarrow> (if st = BEPULLED
                then do {
                  states \<leftarrow> slice_set (skv_shardsState kv) (scmShardIndex m) NO_SERVING;
                  Some (kv\<lparr>skv_shardsState := states,
                    skv_currentState :=
                      fmfilter (\<lambda>key. key2shard key \<noteq> scmShardIndex m) (skv_currentState kv)\<rparr>)
                }
                else Some kv);
        Some (kv1, Some \<lparr>CommandType = ShardConfirmOperation, Data = Some (ShardConfirmData m)\<rparr>)
      })"

text \<open>The \<open>switch\<close>. \<open>Data.(T)\<close> without a second result panics on another type; the assertion to \<open>Op\<close>
  has one and yields the zero \<open>Op\<close>.\<close>

definition SKV_applyCommand :: "ShardKV \<Rightarrow> int \<Rightarrow> CommandMsg \<Rightarrow> (ShardKV \<times> CommandMsg option) option" where
  "SKV_applyCommand kv index m =
     (if CommandType m = KVOperation
      then SKV_applyOp kv index (case Data m of Some (OpData op) \<Rightarrow> op | _ \<Rightarrow> zeroKvOp)
      else if CommandType m = ConfigOperation
      then (case Data m of Some (ConfigData c) \<Rightarrow> SKV_applyConfig kv index c | _ \<Rightarrow> None)
      else if CommandType m = ShardRequestOperation
      then (case Data m of Some (ShardRequestData r) \<Rightarrow> SKV_applyShardRequest kv r | _ \<Rightarrow> None)
      else if CommandType m = ShardConfirmOperation
      then (case Data m of Some (ShardConfirmData f) \<Rightarrow> SKV_applyShardConfirm kv f | _ \<Rightarrow> None)
      else if CommandType m = NoOperation then Some (kv, None)
      else Some (kv, Some zeroCommandMsg))"

definition SKV_takeSnapshot :: "(CommandMsg raft_gob list \<Rightarrow> int) \<Rightarrow> ShardKV \<Rightarrow> int \<Rightarrow> ShardKV option" where
  "SKV_takeSnapshot byteLen kv index =
     (if skv_maxraftstate kv \<noteq> -1 \<and> GetStateSize byteLen (skv_rf kv) > skv_maxraftstate kv
      then do {
        rf' \<leftarrow> Snapshot (skv_rf kv) index (SKV_getServerPersistData kv);
        Some (kv\<lparr>skv_rf := rf'\<rparr>)
      }
      else Some kv)"

text \<open>One iteration of the loop: the server when the lock is released, and the channel and message of
  the send that follows.\<close>

definition SKV_applyHandler ::
  "(CommandMsg raft_gob list \<Rightarrow> int) \<Rightarrow> ShardKV \<Rightarrow> (CommandMsg, SKV_gob) ApplyMsg \<Rightarrow>
   (ShardKV \<times> (nat \<times> CommandMsg) option) option" where
  "SKV_applyHandler byteLen kv msg =
     (if SnapshotValid msg
      then do {
        (rf', ok) \<leftarrow> CondInstallSnapshot (skv_rf kv) (SnapshotTerm msg) (SnapshotIndex msg) (Snapshot_data msg);
        if \<not> ok then Some (kv\<lparr>skv_rf := rf'\<rparr>, None)
        else Some ((SKV_readServerPersistData (kv\<lparr>skv_rf := rf'\<rparr>) (Snapshot_data msg))
                     \<lparr>skv_lastIncludedIndex := SnapshotIndex msg\<rparr>, None)
      }
      else do {
        commandMsg \<leftarrow> Command msg;
        (kv1, reply) \<leftarrow> SKV_applyCommand kv (CommandIndex msg) commandMsg;
        case reply of
          None \<Rightarrow> Some (kv1, None)
        | Some m \<Rightarrow> do {
            kv2 \<leftarrow> SKV_takeSnapshot byteLen kv1 (CommandIndex msg);
            Some (kv2, map_option (\<lambda>c. (c, m)) (fmlookup (waitChan (skv_waitChan kv2)) (CommandIndex msg)))
          }
      })"

definition SKV_applyHandler_send :: "ShardKV \<Rightarrow> nat \<Rightarrow> CommandMsg \<Rightarrow> ShardKV option" where
  "SKV_applyHandler_send kv c m = do {
     t \<leftarrow> send_to (skv_waitChan kv) c m;
     Some (kv\<lparr>skv_waitChan := t\<rparr>)
   }"

section \<open>Client requests\<close>

definition SKV_getWaitCh :: "ShardKV \<Rightarrow> int \<Rightarrow> ShardKV \<times> nat" where
  "SKV_getWaitCh kv index =
     (let (t, c) = get_wait (skv_waitChan kv) index in (kv\<lparr>skv_waitChan := t\<rparr>, c))"

text \<open>The part both handlers share up to \<open>Start\<close>: the error of the reply or the log index. The group
  is checked again afterwards, when the configuration may have changed.\<close>

definition SKV_enter :: "ShardKV \<Rightarrow> Op \<Rightarrow> (ShardKV \<times> (Err + int)) option" where
  "SKV_enter kv op =
     (if \<not> snd (GetState (skv_rf kv)) then Some (kv, Inl ErrWrongLeader)
      else do {
        wrong \<leftarrow> isWrongGroup kv (key2shard (Key op));
        if wrong then Some (kv, Inl ErrWrongGroup)
        else do {
          (rf', index, _, isLeader, _) \<leftarrow> Start (skv_rf kv) \<lparr>CommandType = KVOperation, Data = Some (OpData op)\<rparr>;
          Some (kv\<lparr>skv_rf := rf'\<rparr>, if isLeader then Inr index else Inl ErrWrongLeader)
        }
      })"

definition SKV_wait :: "ShardKV \<Rightarrow> string \<Rightarrow> int \<Rightarrow> (ShardKV \<times> (Err + nat)) option" where
  "SKV_wait kv key index = do {
     wrong \<leftarrow> isWrongGroup kv (key2shard key);
     Some (if wrong then (kv, Inl ErrWrongGroup)
           else let (kv', c) = SKV_getWaitCh kv index in (kv', Inr c))
   }"

definition SKV_Get_enter :: "ShardKV \<Rightarrow> SKV_GetArgs \<Rightarrow> (ShardKV \<times> (Err + int)) option" where
  "SKV_Get_enter kv args =
     SKV_enter kv \<lparr>ClientID = sgaClientID args, SeqNum = sgaSeqNum args, Key = sgaKey args,
                    Value = '''', Optype = ''Get''\<rparr>"

definition SKV_PutAppend_enter :: "ShardKV \<Rightarrow> SKV_PutAppendArgs \<Rightarrow> (ShardKV \<times> (Err + int)) option" where
  "SKV_PutAppend_enter kv args =
     SKV_enter kv \<lparr>ClientID = spaClientID args, SeqNum = spaSeqNum args, Key = spaKey args,
                    Value = spaValue args, Optype = spaOp args\<rparr>"

text \<open>The \<open>select\<close> of the handlers; \<open>None\<close> as the outcome is the timeout. A closed channel yields the
  zero message in \<open>PutAppend\<close>, whose type is not \<open>KVOperation\<close>.\<close>

definition SKV_Get_finish :: "SKV_GetArgs \<Rightarrow> CommandMsg received option \<Rightarrow> SKV_GetReply option" where
  "SKV_Get_finish args outcome =
     (let wrong = \<lparr>sgrErr = ErrWrongLeader, sgrValue = ''''\<rparr> in
      case outcome of
        Some (Message m) \<Rightarrow>
          if CommandType m \<noteq> KVOperation then Some wrong
          else (case Data m of
                  Some (OpData applyOp) \<Rightarrow>
                    Some (if SeqNum applyOp = sgaSeqNum args \<and> ClientID applyOp = sgaClientID args
                          then \<lparr>sgrErr = OK, sgrValue = Value applyOp\<rparr> else wrong)
                | _ \<Rightarrow> None)
      | _ \<Rightarrow> Some wrong)"

definition SKV_PutAppend_finish ::
  "SKV_PutAppendArgs \<Rightarrow> CommandMsg received option \<Rightarrow> SKV_PutAppendReply option" where
  "SKV_PutAppend_finish args outcome =
     (let wrong = \<lparr>sprErr = ErrWrongLeader\<rparr> in
      case outcome of
        Some (Message m) \<Rightarrow>
          if CommandType m \<noteq> KVOperation then Some wrong
          else (case Data m of
                  Some (OpData applyOp) \<Rightarrow>
                    Some (if SeqNum applyOp = spaSeqNum args \<and> ClientID applyOp = spaClientID args
                          then \<lparr>sprErr = OK\<rparr> else wrong)
                | _ \<Rightarrow> None)
      | _ \<Rightarrow> Some wrong)"

text \<open>The deferred clean-up, which both handlers reach only when the channel delivered something.\<close>

definition SKV_cleanup :: "ShardKV \<Rightarrow> nat \<Rightarrow> int \<Rightarrow> ShardKV option" where
  "SKV_cleanup kv c index = do {
     t \<leftarrow> close_wait (skv_waitChan kv) c index;
     Some (kv\<lparr>skv_waitChan := t\<rparr>)
   }"

section \<open>Moving shards\<close>

definition SKV_RaftLogChecker :: "ShardKV \<Rightarrow> ShardKV option" where
  "SKV_RaftLogChecker kv = do {
     needEmptyLog \<leftarrow> NeedEmptyLogEntry (skv_rf kv);
     if needEmptyLog
     then do {
       (rf', _) \<leftarrow> Start (skv_rf kv) \<lparr>CommandType = NoOperation, Data = None\<rparr>;
       Some (kv\<lparr>skv_rf := rf'\<rparr>)
     }
     else Some kv
   }"

text \<open>The two loops that look for shards to move first collect the shards in a state, with copies
  of a configuration; then, without the lock, they build the arguments for every shard whose group
  is known, reading the configuration number again.\<close>

definition shardsIn :: "shard_state \<Rightarrow> ShardKV \<Rightarrow> nat list" where
  "shardsIn st kv = filter (\<lambda>index. skv_shardsState kv ! index = st) [0..<NShards]"

definition ShardsRequester_scan ::
  "int list \<Rightarrow> ShardKV \<Rightarrow> (nat list \<times> (int, string list) fmap \<times> int list) option" where
  "ShardsRequester_scan order kv =
     (if \<not> snd (GetState (skv_rf kv)) then None
      else Some (shardsIn PULLING kv, GetGroupMapCopy order (Groups (skv_prevConfig kv)),
                 GetShardsCopy (Shards (skv_prevConfig kv))))"

definition ShardsRequester_args ::
  "ShardKV \<Rightarrow> (int, string list) fmap \<Rightarrow> int list \<Rightarrow> nat \<Rightarrow> (ShardRequestArgs \<times> string list) option" where
  "ShardsRequester_args kv serversCopy shardsCopy i =
     map_option (\<lambda>servers. (\<lparr>sraConfigNum = Num (skv_config kv), sraShardIndex = int i, sraGID = skv_gid kv\<rparr>,
                            servers))
       (fmlookup serversCopy (shardsCopy ! i))"

text \<open>After the RPC: try the next server, propose the shard to the own group, or return while
  holding the lock.\<close>

datatype 'm rpc_next = TryNext | Propose 'm | ReturnLocked

definition ShardsRequester_reply ::
  "ShardKV \<Rightarrow> ShardRequestArgs \<Rightarrow> int \<Rightarrow> bool \<Rightarrow> ShardRequestReply \<Rightarrow> CommandMsg rpc_next" where
  "ShardsRequester_reply kv args shardIndex ok reply =
     (if ok \<and> srrErr reply = OK \<and> srrConfigNum reply = Num (skv_config kv)
      then if srrShardIndex reply \<noteq> shardIndex then ReturnLocked
           else Propose \<lparr>CommandType = ShardRequestOperation, Data = Some (ShardRequestData
                  \<lparr>srmConfigNum = sraConfigNum args, srmShardIndex = sraShardIndex args, srmGID = sraGID args,
                   srmShardData = srrShardData reply, srmClientSeqNum = srrClientSeqNum reply\<rparr>)\<rparr>
      else TryNext)"

text \<open>The handler in the other group. A server that is not the leader records \<open>ErrWrongLeader\<close> and
  goes on; every path below overwrites it.\<close>

definition ShardsRequestHandler :: "ShardKV \<Rightarrow> ShardRequestArgs \<Rightarrow> ShardRequestReply option" where
  "ShardsRequestHandler kv args =
     (let reply = (if \<not> snd (GetState (skv_rf kv))
                   then zeroShardRequestReply\<lparr>srrErr := ErrWrongLeader\<rparr> else zeroShardRequestReply) in
      if sraConfigNum args \<noteq> Num (skv_config kv) then Some (reply\<lparr>srrErr := ErrConfig\<rparr>)
      else do {
        st \<leftarrow> slice_get (skv_shardsState kv) (sraShardIndex args);
        Some (if st = BEPULLED
              then reply\<lparr>srrErr := OK, srrConfigNum := sraConfigNum args, srrShardIndex := sraShardIndex args,
                srrShardData := fmfilter (\<lambda>key. key2shard key = sraShardIndex args) (skv_currentState kv),
                srrClientSeqNum := skv_clientSeq kv\<rparr>
              else reply\<lparr>srrErr := ErrWrongGroup\<rparr>)
      })"

definition ShardsConfirmHandler :: "ShardKV \<Rightarrow> ShardConfirmArgs \<Rightarrow> ShardConfirmReply option" where
  "ShardsConfirmHandler kv args =
     (let reply = zeroShardConfirmReply; num = Num (skv_config kv) in
      if \<not> snd (GetState (skv_rf kv)) then Some (reply\<lparr>scrErr := ErrWrongLeader\<rparr>)
      else if num < scaConfigNum args then Some (reply\<lparr>scrErr := ErrConfig\<rparr>)
      else do {
        serving \<leftarrow> (if num = scaConfigNum args
                    then do { st \<leftarrow> slice_get (skv_shardsState kv) (scaShardIndex args); Some (st = SERVING) }
                    else Some False);
        Some (if serving \<or> num > scaConfigNum args
              then reply\<lparr>scrErr := OK, scrConfigNum := num, scrShardIndex := scaShardIndex args,
                         scrShardState := SERVING\<rparr>
              else reply\<lparr>scrErr := ErrWrongLeader\<rparr>)
      })"

definition ShardsConfirm_scan ::
  "int list \<Rightarrow> ShardKV \<Rightarrow> (nat list \<times> (int, string list) fmap \<times> int list) option" where
  "ShardsConfirm_scan order kv =
     (if \<not> snd (GetState (skv_rf kv)) then None
      else Some (shardsIn BEPULLED kv, GetGroupMapCopy order (Groups (skv_config kv)),
                 GetShardsCopy (Shards (skv_config kv))))"

definition ShardsConfirm_args ::
  "ShardKV \<Rightarrow> (int, string list) fmap \<Rightarrow> int list \<Rightarrow> nat \<Rightarrow> (ShardConfirmArgs \<times> string list) option" where
  "ShardsConfirm_args kv serversCopy shardsCopy i =
     map_option (\<lambda>servers. (\<lparr>scaConfigNum = Num (skv_config kv), scaShardIndex = int i\<rparr>, servers))
       (fmlookup serversCopy (shardsCopy ! i))"

definition ShardsConfirm_reply ::
  "ShardKV \<Rightarrow> ShardConfirmArgs \<Rightarrow> bool \<Rightarrow> ShardConfirmReply \<Rightarrow> CommandMsg rpc_next" where
  "ShardsConfirm_reply kv args ok reply =
     (if ok \<and> scrErr reply = OK \<and> scrConfigNum reply \<ge> Num (skv_config kv)
      then Propose \<lparr>CommandType = ShardConfirmOperation, Data = Some (ShardConfirmData
             \<lparr>scmConfigNum = scaConfigNum args, scmShardIndex = scaShardIndex args,
              scmShardState = scrShardState reply\<rparr>)\<rparr>
      else TryNext)"

text \<open>\<open>getLastConfig\<close>: the check under the lock, given the newest configuration, and the message that is
  proposed when the configuration with the number \<open>target\<close> has been fetched.\<close>

definition getLastConfig_check :: "ShardKV \<Rightarrow> Config \<Rightarrow> int option" where
  "getLastConfig_check kv newConfig =
     (let allShardsReady = (if Num (skv_config kv) = 0 then True else shardsStateReady kv);
          needToUpdate = (Num (skv_config kv) < Num newConfig)
      in if needToUpdate \<and> allShardsReady \<and> snd (GetState (skv_rf kv))
         then Some (Num (skv_config kv) + 1) else None)"

definition getLastConfig_msg :: "Config \<Rightarrow> CommandMsg" where
  "getLastConfig_msg newConfig =
     \<lparr>CommandType = ConfigOperation, Data = Some (ConfigData
        \<lparr>cmNum = Num newConfig, cmShards = Shards newConfig, cmGroups = Groups newConfig\<rparr>)\<rparr>"

section \<open>Life cycle\<close>

definition SKV_Kill :: "ShardKV \<Rightarrow> ShardKV" where
  "SKV_Kill kv = kv\<lparr>skv_rf := Kill (skv_rf kv)\<rparr>"

definition SKV_killed :: "ShardKV \<Rightarrow> bool" where
  "SKV_killed kv = killed (skv_rf kv)"

definition SKV_StartServer ::
  "int \<Rightarrow> nat \<Rightarrow> int \<Rightarrow> (CommandMsg raft_gob, SKV_gob) Persister \<Rightarrow> int \<Rightarrow> int \<Rightarrow> ShardKV" where
  "SKV_StartServer now servers i ps maxraftstate gid =
     (let rf = Make now servers i ps;
          kv = \<lparr>skv_me = i, skv_rf = rf, skv_maxraftstate = maxraftstate, skv_gid = gid,
                skv_currentState = fmempty, skv_waitChan = make_table, skv_clientSeq = fmempty,
                skv_lastIncludedIndex = 0, skv_config = zeroConfig, skv_prevConfig = zeroConfig,
                skv_shardsState = replicate NShards NO_SERVING\<rparr>;
          snap = GetSnapshot rf
      in if length snap > 0 then SKV_readServerPersistData kv snap else kv)"

lemma key2shard_range: "0 \<le> key2shard key" "key2shard key < int NShards"
  by (simp_all add: key2shard_def NShards_def)

end
