(* ===== verification/Raft_Service.thy ===== *)
theory Raft_Service
  imports Raft_Step Kv_Machine
begin

text \<open>
  The interface between raft and a service that snapshots. A service hands raft the encoding of
  its state together with a log index, raft stores both at once, hands the snapshot to other
  peers and back to the service after a restart. The client of the interface is a replica: a
  service whose state is always the replay of a prefix of the log, whatever mixture of commands,
  snapshots and restarts brought it there.
\<close>

section \<open>The interface\<close>

locale raft_store =
  fixes good :: "'rf \<Rightarrow> bool" and base :: "'rf \<Rightarrow> int" and top :: "'rf \<Rightarrow> int"
    and stored :: "'rf \<Rightarrow> 's list" and term_ok :: "'rf \<Rightarrow> int \<Rightarrow> bool"
    and take_snap :: "'rf \<Rightarrow> int \<Rightarrow> 's list \<Rightarrow> 'rf option"
    and install :: "'rf \<Rightarrow> int \<Rightarrow> int \<Rightarrow> 's list \<Rightarrow> ('rf \<times> bool) option"
    and reboot :: "int \<Rightarrow> 'rf \<Rightarrow> 'rf" and internal :: "'rf \<Rightarrow> 'rf \<Rightarrow> bool"
  assumes bounds: "good rf \<Longrightarrow> 0 \<le> base rf \<and> base rf \<le> top rf"
    and take_old: "i \<le> base rf \<Longrightarrow> take_snap rf i d = Some rf"
    and take_new: "good rf \<Longrightarrow> base rf < i \<Longrightarrow> i \<le> top rf \<Longrightarrow>
      \<exists>rf'. take_snap rf i d = Some rf' \<and> good rf' \<and> base rf' = i \<and> stored rf' = d \<and> top rf' = top rf"
    and install_old: "i \<le> top rf \<Longrightarrow> install rf t i d = Some (rf, False)"
    and install_new: "good rf \<Longrightarrow> top rf < i \<Longrightarrow> term_ok rf t \<Longrightarrow>
      \<exists>rf'. install rf t i d = Some (rf', True) \<and> good rf' \<and> base rf' = i \<and> stored rf' = d"
    and reboot_ok: "good rf \<Longrightarrow> good (reboot now rf) \<and> base (reboot now rf) = base rf \<and> stored (reboot now rf) = stored rf"
    and internal_ok: "internal rf rf' \<Longrightarrow> good rf \<Longrightarrow> good rf' \<and> base rf' = base rf \<and> stored rf' = stored rf"

locale replicated_service = snapshot_machine step save restore
    + raft_store good base top stored term_ok take_snap install reboot internal
  for step :: "'st \<Rightarrow> 'c \<Rightarrow> 'st option" and save :: "'st \<Rightarrow> 's list" and restore :: "'st \<Rightarrow> 's list \<Rightarrow> 'st"
    and good :: "'rf \<Rightarrow> bool" and base top and stored :: "'rf \<Rightarrow> 's list" and term_ok take_snap install
    reboot internal
begin

text \<open>The stored snapshot is the state at its index.\<close>

definition backed :: "'st \<Rightarrow> 'c list \<Rightarrow> 'rf \<Rightarrow> bool" where
  "backed s0 log rf \<longleftrightarrow>
     good rf \<and>
     (stored rf = [] \<and> base rf = 0 \<or>
      (\<exists>s. replay (take (nat (base rf)) log) s0 = Some s \<and> stored rf = save s))"

text \<open>A replica at position \<open>k\<close>: raft is backed and the service has replayed \<open>k\<close> commands.\<close>

definition replica :: "'st \<Rightarrow> 'c list \<Rightarrow> 'rf \<Rightarrow> 'st \<Rightarrow> nat \<Rightarrow> bool" where
  "replica s0 log rf s k \<longleftrightarrow> backed s0 log rf \<and> replay (take k log) s0 = Some s"

lemma replica_internal: "replica s0 log rf s k \<Longrightarrow> internal rf rf' \<Longrightarrow> replica s0 log rf' s k"
  using internal_ok [of rf rf'] by (auto simp: replica_def backed_def)

lemma replica_apply:
  assumes "replica s0 log rf s k" and "k < length log" and "step s (log ! k) = Some s'"
  shows "replica s0 log rf s' (Suc k)"
  using assms replay_append [of "take k log" "[log ! k]" s0]
  by (simp add: replica_def take_Suc_conv_app_nth)

lemma replica_snapshot:
  assumes "replica s0 log rf s k" and "int k \<le> top rf"
  shows "\<exists>rf'. take_snap rf (int k) (save s) = Some rf' \<and> replica s0 log rf' s k"
proof (cases "int k \<le> base rf")
  case True
  with assms show ?thesis by (simp add: take_old)
next
  case False
  then obtain rf' where "take_snap rf (int k) (save s) = Some rf'" "good rf'" "base rf' = int k"
    "stored rf' = save s"
    using take_new [of rf "int k" "save s"] assms by (auto simp: replica_def backed_def)
  with assms show ?thesis by (auto simp: replica_def backed_def)
qed

lemma replica_install:
  assumes "replica s0 log rf s k" and "replay (take j log) s0 = Some t" and "term_ok rf tm"
    and "top rf < int j"
  shows "\<exists>rf'. install rf tm (int j) (save t) = Some (rf', True) \<and> replica s0 log rf' (restore s (save t)) j"
proof -
  obtain rf' where "install rf tm (int j) (save t) = Some (rf', True)" "good rf'" "base rf' = int j"
    "stored rf' = save t"
    using install_new [of rf "int j" tm "save t"] assms by (auto simp: replica_def backed_def)
  with assms(2) show ?thesis by (auto simp: replica_def backed_def restore_save)
qed

lemma replica_reboot:
  assumes "replica s0 log rf s k"
  shows "replica s0 log (reboot now rf) (if stored rf = [] then s0 else restore s0 (stored rf)) (nat (base rf))"
  using assms reboot_ok [of rf now] save_nonempty
  by (auto simp: replica_def backed_def restore_save) (metis save_nonempty)+

end

text \<open>
  A server is a record with a raft peer, the service's state and the index below which its apply
  loop skips commands. It stands at position \<open>k\<close> of a log when it is a replica there and skips
  nothing beyond \<open>k\<close>; every step of the servers keeps that.
\<close>

locale replicated_server = replicated_service step save restore good base top stored term_ok take_snap
    install reboot internal
  for step :: "'st \<Rightarrow> 'c \<Rightarrow> 'st option" and save :: "'st \<Rightarrow> 's list" and restore :: "'st \<Rightarrow> 's list \<Rightarrow> 'st"
    and good :: "'rf \<Rightarrow> bool" and base top and stored :: "'rf \<Rightarrow> 's list" and term_ok take_snap install
    reboot internal
  + fixes raft_of :: "'srv \<Rightarrow> 'rf" and view_of :: "'srv \<Rightarrow> 'st" and skip_of :: "'srv \<Rightarrow> int" and s0 :: 'st
begin

definition stands :: "'c list \<Rightarrow> 'srv \<Rightarrow> nat \<Rightarrow> bool" where
  "stands log srv k \<longleftrightarrow> replica s0 log (raft_of srv) (view_of srv) k \<and> skip_of srv \<le> int k"

lemma stands_view: "stands log srv k \<Longrightarrow> replay (take k log) s0 = Some (view_of srv)"
  by (simp add: stands_def replica_def)

lemma stands_good: "stands log srv k \<Longrightarrow> good (raft_of srv)"
  by (simp add: stands_def replica_def backed_def)

lemma stands_frame:
  assumes "stands log srv k" and "internal (raft_of srv) (raft_of srv') \<or> raft_of srv' = raft_of srv"
    and "view_of srv' = view_of srv" and "skip_of srv' = skip_of srv"
  shows "stands log srv' k"
  using assms replica_internal by (auto simp: stands_def)

lemma stands_boot:
  assumes "good (raft_of srv)" "base (raft_of srv) = 0" "stored (raft_of srv) = []"
    and "view_of srv = s0" "skip_of srv = 0"
  shows "stands log srv 0"
  using assms by (simp add: stands_def replica_def backed_def)

lemma stands_command:
  assumes "stands log srv k" and "k < length log" and "int k + 1 \<le> top (raft_of srv)"
    and "step (view_of srv) (log ! k) = Some (view_of srv')" and "skip_of srv' = skip_of srv"
    and "raft_of srv' = raft_of srv \<or>
      take_snap (raft_of srv) (int k + 1) (save (view_of srv')) = Some (raft_of srv')"
  shows "stands log srv' (Suc k)"
proof -
  have rep: "replica s0 log (raft_of srv) (view_of srv') (Suc k)"
    using assms(1,2,4) by (intro replica_apply) (auto simp: stands_def)
  with replica_snapshot [OF rep] assms(3,6) have "replica s0 log (raft_of srv') (view_of srv') (Suc k)"
    by (auto simp: add.commute)
  with assms(1,5) show ?thesis by (simp add: stands_def)
qed

lemma stands_receive:
  assumes "stands log srv k" and "stands log srv2 j" and "stored (raft_of srv2) \<noteq> []"
    and "term_ok (raft_of srv) tm" and "i = base (raft_of srv2)" and "d = stored (raft_of srv2)"
    and "install (raft_of srv) tm i d = Some (raft_of srv', ok)"
    and "view_of srv' = (if ok then restore (view_of srv) d else view_of srv)"
    and "skip_of srv' = (if ok then i else skip_of srv)"
  shows "stands log srv' (if top (raft_of srv) < i then nat i else k)"
proof (cases "top (raft_of srv) < i")
  case False
  then have "raft_of srv' = raft_of srv" "\<not> ok"
    using assms(7) install_old [of i "raft_of srv" tm d] by simp_all
  with assms(1,8,9) False show ?thesis by (simp add: stands_def)
next
  case True
  have i: "i = int (nat i)"
    using assms(2,5) bounds [of "raft_of srv2"] stands_good by auto
  obtain s where s: "replay (take (nat i) log) s0 = Some s" "d = save s"
    using assms(2,3,5,6) by (auto simp: stands_def replica_def backed_def)
  obtain rf' where rf': "install (raft_of srv) tm i d = Some (rf', True)"
      "replica s0 log rf' (restore (view_of srv) d) (nat i)"
    using replica_install [of s0 log "raft_of srv" "view_of srv" k "nat i" s tm] assms(1,4) s True i
    by (auto simp: stands_def)
  with assms(7-9) have "raft_of srv' = rf'" "ok" by simp_all
  with assms(8,9) rf'(2) True i show ?thesis by (simp add: stands_def)
qed

lemma stands_restart:
  assumes "stands log srv k" and "raft_of srv' = reboot now (raft_of srv)"
    and "view_of srv' = (if stored (raft_of srv) = [] then s0 else restore s0 (stored (raft_of srv)))"
    and "skip_of srv' = 0"
  shows "stands log srv' (nat (base (raft_of srv)))"
  using replica_reboot [of s0 log "raft_of srv" "view_of srv" k now] assms by (simp add: stands_def)

end

section \<open>Raft provides it\<close>

text \<open>The critical sections raft runs on its own; the others are calls of the service.\<close>

fun internal_event :: "('c, 's) raft_event \<Rightarrow> bool" where
  "internal_event (EvSnapshot i d) \<longleftrightarrow> False"
| "internal_event (EvCondInstall t i d) \<longleftrightarrow> False"
| "internal_event (EvRestart now) \<longleftrightarrow> False"
| "internal_event _ \<longleftrightarrow> True"

definition raft_internal :: "('c, 's) Raft \<Rightarrow> ('c, 's) Raft \<Rightarrow> bool" where
  "raft_internal rf rf' \<longleftrightarrow>
     (\<exists>ev. internal_event ev \<and> event_ok rf ev \<and> raft_exec ev rf = Some rf')"

definition raft_good :: "('c, 's) Raft \<Rightarrow> bool" where
  "raft_good rf \<longleftrightarrow> raft_wf rf \<and> durable rf"

definition raft_stored :: "('c, 's) Raft \<Rightarrow> 's list" where
  "raft_stored rf = ReadSnapshot (persister rf)"

definition raft_term_ok :: "('c, 's) Raft \<Rightarrow> int \<Rightarrow> bool" where
  "raft_term_ok rf t \<longleftrightarrow> 0 \<le> t \<and> t \<le> currentTerm rf"

definition raft_reboot :: "int \<Rightarrow> ('c, 's) Raft \<Rightarrow> ('c, 's) Raft" where
  "raft_reboot now rf = Make now (peers rf) (me rf) (persister rf)"

text \<open>What a snapshot depends on, and that raft's own steps leave it alone.\<close>

definition snap_view :: "('c, 's) Raft \<Rightarrow> int \<times> 's list" where
  "snap_view rf = (lastIncludedIndex rf, raft_stored rf)"

lemma snap_view_upd [simp]:
  "snap_view (rf\<lparr>lastTimeHeared := t\<rparr>) = snap_view rf" "snap_view (rf\<lparr>snapShot := s\<rparr>) = snap_view rf"
  "snap_view (rf\<lparr>commitIndex := c\<rparr>) = snap_view rf" "snap_view (rf\<lparr>lastApplied := a\<rparr>) = snap_view rf"
  "snap_view (rf\<lparr>nextIndex := x\<rparr>) = snap_view rf" "snap_view (rf\<lparr>matchIndex := m\<rparr>) = snap_view rf"
  "snap_view (rf\<lparr>Log := l\<rparr>) = snap_view rf" "snap_view (rf\<lparr>state := r\<rparr>) = snap_view rf"
  "snap_view (rf\<lparr>getVotesNum := v\<rparr>) = snap_view rf" "snap_view (rf\<lparr>votedFor := w\<rparr>) = snap_view rf"
  "snap_view (rf\<lparr>currentTerm := u\<rparr>) = snap_view rf" "snap_view (rf\<lparr>dead := d\<rparr>) = snap_view rf"
  "snap_view (persist rf) = snap_view rf"
  by (simp_all add: snap_view_def raft_stored_def persist_def)

lemma snap_view_roles [simp]:
  "snap_view (FollowerState rf t) = snap_view rf" "snap_view (CandidateState rf) = snap_view rf"
  by (simp_all add: FollowerState_def CandidateState_def)

lemma snap_view_leaderStateLoop: "leaderStateLoop rf is = Some rf' \<Longrightarrow> snap_view rf' = snap_view rf"
  by (induction "is" arbitrary: rf) (auto split: Option.bind_splits)

lemma snap_view_acceptEntries: "snap_view (fst (acceptEntries rf args p l)) = snap_view rf"
  by (simp add: acceptEntries_def Let_def split_beta)

lemma snap_view_checkPrevLog:
  assumes "checkPrevLog rf args = Some (rf', reply)"
  shows "snap_view rf' = snap_view rf"
  using checkPrevLog_cases [OF assms] snap_view_acceptEntries by metis

lemma snap_view_handlers:
  shows "RequestVote now rf args = Some (rf', reply) \<Longrightarrow> snap_view rf' = snap_view rf"
    and "AppendEntries now rf aargs = Some (rf', areply) \<Longrightarrow> snap_view rf' = snap_view rf"
    and "snap_view (fst (InstallSnapshot now rf sargs)) = snap_view rf"
proof -
  show "RequestVote now rf args = Some (rf', reply) \<Longrightarrow> snap_view rf' = snap_view rf"
    by (auto simp: RequestVote_def Let_def split: Option.bind_splits if_splits)
  let ?rf1 = "if aeTerm aargs > currentTerm rf \<or> (aeTerm aargs = currentTerm rf \<and> state rf = CANDIDATE)
      then FollowerState rf (aeTerm aargs) else rf"
  have "snap_view ?rf1 = snap_view rf" by simp
  then show "AppendEntries now rf aargs = Some (rf', areply) \<Longrightarrow> snap_view rf' = snap_view rf"
    using snap_view_checkPrevLog [of "?rf1\<lparr>lastTimeHeared := now\<rparr>" aargs rf' areply]
    unfolding AppendEntries_def Let_def by (cases "aeTerm aargs < currentTerm ?rf1") auto
  show "snap_view (fst (InstallSnapshot now rf sargs)) = snap_view rf"
    by (simp add: InstallSnapshot_def Let_def)
qed

lemma snap_view_leader:
  shows "leaderAppendEntries_reply rf j args ok reply = Some rf' \<Longrightarrow> snap_view rf' = snap_view rf"
    and "leaderInstallSnapshot_reply rf j sargs ok sreply = Some rf' \<Longrightarrow> snap_view rf' = snap_view rf"
    and "leaderAppendEntries_send rf j = Some (rf', msg) \<Longrightarrow> snap_view rf' = snap_view rf"
    and "candidateRequestVote_reply rf vargs vreply = Some rf' \<Longrightarrow> snap_view rf' = snap_view rf"
proof -
  have log: "handleLogInconsistency rf j reply = Some rf1 \<Longrightarrow> snap_view rf1 = snap_view rf" for rf1
    by (auto simp: handleLogInconsistency_def split: Option.bind_splits if_splits)
  show "leaderAppendEntries_reply rf j args ok reply = Some rf' \<Longrightarrow> snap_view rf' = snap_view rf"
    by (auto simp: leaderAppendEntries_reply_def Let_def split: Option.bind_splits if_splits dest: log)
  show "leaderInstallSnapshot_reply rf j sargs ok sreply = Some rf' \<Longrightarrow> snap_view rf' = snap_view rf"
    by (auto simp: leaderInstallSnapshot_reply_def Let_def split: Option.bind_splits if_splits)
  show "leaderAppendEntries_send rf j = Some (rf', msg) \<Longrightarrow> snap_view rf' = snap_view rf"
    by (auto simp: leaderAppendEntries_send_def Let_def split: Option.bind_splits if_splits)
  show "candidateRequestVote_reply rf vargs vreply = Some rf' \<Longrightarrow> snap_view rf' = snap_view rf"
    by (auto simp: candidateRequestVote_reply_def Let_def LeaderState_def split: if_splits
        dest: snap_view_leaderStateLoop)
qed

lemma snap_view_service:
  shows "Start rf command = Some (rf', i, t, b, ps) \<Longrightarrow> snap_view rf' = snap_view rf"
    and "ticker now randTime rnd rf = Some (rf', r, e) \<Longrightarrow> snap_view rf' = snap_view rf"
    and "snap_view (applyChecker_done rf ci) = snap_view rf" and "snap_view (Kill rf) = snap_view rf"
  by (auto simp: Start_def ticker_def applyChecker_done_def Kill_def Let_def
      split: Option.bind_splits if_splits)

lemma raft_exec_snap_view:
  assumes "internal_event ev" and "raft_exec ev rf = Some rf'"
  shows "snap_view rf' = snap_view rf"
  using assms
  by (cases ev) (auto dest: snap_view_handlers(1,2) snap_view_leader snap_view_service(1,2)
      simp: snap_view_handlers(3) snap_view_service(3,4))

lemma raft_internal_ok:
  assumes "raft_internal rf rf'" and "raft_good rf"
  shows "raft_good rf' \<and> lastIncludedIndex rf' = lastIncludedIndex rf \<and> raft_stored rf' = raft_stored rf"
proof -
  obtain ev where ev: "internal_event ev" "event_ok rf ev" "raft_exec ev rf = Some rf'"
    using assms(1) by (auto simp: raft_internal_def)
  have "raft_wf rf'" using raft_exec_wf [of rf ev] assms(2) ev by (auto simp: raft_good_def)
  moreover have "durable rf'" using raft_exec_durable assms(2) ev by (auto simp: raft_good_def)
  ultimately show ?thesis
    using raft_exec_snap_view [OF ev(1,3)] by (simp add: raft_good_def snap_view_def)
qed

lemma raft_take_new:
  assumes "raft_good rf" and "lastIncludedIndex rf < i" and "i \<le> commitIndex rf"
  shows "\<exists>rf'. Snapshot rf i d = Some rf' \<and> raft_good rf' \<and> lastIncludedIndex rf' = i \<and>
    raft_stored rf' = d \<and> commitIndex rf' = commitIndex rf"
proof -
  have wf: "raft_wf rf" and d: "durable rf" using assms(1) by (auto simp: raft_good_def)
  then have "i \<le> lastLog rf" using assms(3) by (auto simp: raft_wf_def index_wf_def)
  with Snapshot_wf [OF wf, of i d] obtain rf' where rf': "Snapshot rf i d = Some rf'" "raft_wf rf'" by blast
  define k where "k = nat (i - lastIncludedIndex rf)"
  have k: "0 < k" "k < length (Log rf)" "i = lastIncludedIndex rf + int k"
    using assms(2) \<open>i \<le> lastLog rf\<close> by (auto simp: k_def lastLog_def)
  have "lastIncludedIndex rf' = i \<and> raft_stored rf' = d \<and> commitIndex rf' = commitIndex rf"
    using Snapshot_eq [of rf k d] k rf'(1) raft_wfD(4) [OF wf] assms(3)
    by (auto simp: Let_def raft_stored_def)
  with rf' durable_Snapshot [OF d rf'(1)] show ?thesis by (auto simp: raft_good_def)
qed

lemma raft_install_new:
  assumes "raft_good rf" and "commitIndex rf < i" and "raft_term_ok rf t"
  shows "\<exists>rf'. CondInstallSnapshot rf t i d = Some (rf', True) \<and> raft_good rf' \<and>
    lastIncludedIndex rf' = i \<and> raft_stored rf' = d"
proof -
  have wf: "raft_wf rf" and du: "durable rf" using assms(1) by (auto simp: raft_good_def)
  obtain rf' b where rf': "CondInstallSnapshot rf t i d = Some (rf', b)" "raft_wf rf'"
    using CondInstallSnapshot_wf [OF wf, of t i d] assms(3) by (auto simp: raft_term_ok_def)
  with CondInstallSnapshot_install [OF wf assms(2), of t d]
  have "b" "lastIncludedIndex rf' = i" "raft_stored rf' = d"
    by (auto simp: Let_def raft_stored_def)
  with rf' durable_CondInstallSnapshot [OF du rf'(1)] show ?thesis by (auto simp: raft_good_def)
qed

lemma raft_reboot_ok:
  assumes "raft_good rf"
  shows "raft_good (raft_reboot now rf) \<and> lastIncludedIndex (raft_reboot now rf) = lastIncludedIndex rf \<and>
    raft_stored (raft_reboot now rf) = raft_stored rf"
  using assms restart_persistent [of rf now] raft_wf_Make_persisted [of rf now]
  by (auto simp: raft_good_def raft_reboot_def raft_stored_def durable_Make persistent_def)

interpretation rs: raft_store raft_good lastIncludedIndex commitIndex raft_stored raft_term_ok
  Snapshot CondInstallSnapshot raft_reboot raft_internal
proof
  show "raft_good rf \<Longrightarrow> 0 \<le> lastIncludedIndex rf \<and> lastIncludedIndex rf \<le> commitIndex rf" for rf :: "('a, 'b) Raft"
    by (auto simp: raft_good_def raft_wf_def log_wf_def index_wf_def)
  show "i \<le> lastIncludedIndex rf \<Longrightarrow> Snapshot rf i d = Some rf" for rf :: "('a, 'b) Raft" and i d
    by (simp add: Snapshot_def)
qed (fact raft_take_new CondInstallSnapshot_refuse raft_install_new raft_reboot_ok raft_internal_ok)+

lemma Make_fresh_good:
  assumes "0 \<le> i" and "i < int n"
  shows "raft_good (Make now n i MakePersister)" "lastIncludedIndex (Make now n i MakePersister) = 0"
    "raft_stored (Make now n i MakePersister) = []"
  using Make_fresh_wf [OF assms, of now]
  by (simp_all add: raft_good_def durable_Make raft_stored_def) (simp add: Make_def readPersist_def)

end
