(* ===== verification/SKV_Inv.thy ===== *)
theory SKV_Inv
  imports SKV_Server Raft_Service
begin

text \<open>
  The sharded server as a replicated state machine. \<open>SKV_step\<close> is what a log entry does to the part of
  a server that its snapshots hold; the apply loop implements it, snapshots and restarts keep it,
  and within a configuration a retried operation takes effect once.
\<close>

section \<open>The reference machine\<close>

record shard_view =
  vStore :: kv_map
  vSeq :: session_map
  vStates :: "shard_state list"
  vConfig :: Config
  vPrev :: Config

definition initial_view :: shard_view where
  "initial_view = \<lparr>vStore = fmempty, vSeq = fmempty, vStates = replicate NShards NO_SERVING,
     vConfig = zeroConfig, vPrev = zeroConfig\<rparr>"

definition step_op :: "shard_view \<Rightarrow> Op \<Rightarrow> shard_view option" where
  "step_op s op = do {
     st \<leftarrow> slice_get (vStates s) (key2shard (Key op));
     Some (if st = SERVING
           then s\<lparr>vStore := fst (KV_step (vStore s, vSeq s) op), vSeq := snd (KV_step (vStore s, vSeq s) op)\<rparr>
           else s)
   }"

definition next_state :: "int \<Rightarrow> int \<Rightarrow> int \<Rightarrow> shard_state" where
  "next_state gid prev now =
     (if now = gid then if prev = gid then SERVING else PULLING
      else if prev = gid then BEPULLED else NO_SERVING)"

definition next_states :: "int \<Rightarrow> Config \<Rightarrow> Config \<Rightarrow> shard_state list \<Rightarrow> shard_state list" where
  "next_states gid prev now states =
     map (\<lambda>i. if Num prev = 0 then if Shards now ! i = gid then SERVING else states ! i
              else next_state gid (Shards prev ! i) (Shards now ! i)) [0..<NShards]"

definition msgConfig :: "ConfigMsg \<Rightarrow> Config" where
  "msgConfig c = \<lparr>Num = cmNum c, Shards = cmShards c, Groups = cmGroups c\<rparr>"

definition step_config :: "int \<Rightarrow> shard_view \<Rightarrow> ConfigMsg \<Rightarrow> shard_view" where
  "step_config gid s c =
     (if Num (vConfig s) = 0 \<or> cmNum c = Num (vConfig s) + 1
      then s\<lparr>vPrev := vConfig s, vConfig := msgConfig c,
             vStates := next_states gid (vConfig s) (msgConfig c) (vStates s)\<rparr>
      else s)"

definition step_pull :: "shard_view \<Rightarrow> ShardRequestMsg \<Rightarrow> shard_view option" where
  "step_pull s m =
     (if srmConfigNum m \<noteq> Num (vConfig s) then Some s
      else do {
        st \<leftarrow> slice_get (vStates s) (srmShardIndex m);
        Some (if st = PULLING
              then s\<lparr>vStore := vStore s ++\<^sub>f srmShardData m, vSeq := maxSeq (vSeq s) (srmClientSeqNum m),
                     vStates := (vStates s)[nat (srmShardIndex m) := SERVING]\<rparr>
              else s)
      })"

definition step_confirm :: "shard_view \<Rightarrow> ShardConfirmMsg \<Rightarrow> shard_view option" where
  "step_confirm s m =
     (if scmConfigNum m \<noteq> Num (vConfig s) then Some s
      else do {
        st \<leftarrow> slice_get (vStates s) (scmShardIndex m);
        Some (if st = BEPULLED
              then s\<lparr>vStore := fmfilter (\<lambda>key. key2shard key \<noteq> scmShardIndex m) (vStore s),
                     vStates := (vStates s)[nat (scmShardIndex m) := NO_SERVING]\<rparr>
              else s)
      })"

definition msgOpData :: "CommandMsg \<Rightarrow> Op" where
  "msgOpData m = (case Data m of Some (OpData op) \<Rightarrow> op | _ \<Rightarrow> zeroKvOp)"

definition SKV_step :: "int \<Rightarrow> shard_view \<Rightarrow> CommandMsg \<Rightarrow> shard_view option" where
  "SKV_step gid s m =
     (if CommandType m = KVOperation then step_op s (msgOpData m)
      else if CommandType m = ConfigOperation
      then (case Data m of Some (ConfigData c) \<Rightarrow> Some (step_config gid s c) | _ \<Rightarrow> None)
      else if CommandType m = ShardRequestOperation
      then (case Data m of Some (ShardRequestData r) \<Rightarrow> step_pull s r | _ \<Rightarrow> None)
      else if CommandType m = ShardConfirmOperation
      then (case Data m of Some (ShardConfirmData f) \<Rightarrow> step_confirm s f | _ \<Rightarrow> None)
      else Some s)"

section \<open>The apply loop implements it\<close>

definition skv_view :: "ShardKV \<Rightarrow> shard_view" where
  "skv_view kv = \<lparr>vStore = skv_currentState kv, vSeq = skv_clientSeq kv, vStates = skv_shardsState kv,
     vConfig = skv_config kv, vPrev = skv_prevConfig kv\<rparr>"

definition skv_put :: "ShardKV \<Rightarrow> shard_view \<Rightarrow> ShardKV" where
  "skv_put kv s = kv\<lparr>skv_currentState := vStore s, skv_clientSeq := vSeq s, skv_shardsState := vStates s,
     skv_config := vConfig s, skv_prevConfig := vPrev s\<rparr>"

lemma skv_put_view [simp]: "skv_put kv (skv_view kv) = kv"
  by (simp add: skv_put_def skv_view_def)

lemma skv_view_put [simp]: "skv_view (skv_put kv s) = s"
  by (simp add: skv_put_def skv_view_def)

lemma skv_put_frame [simp]:
  "skv_rf (skv_put kv s) = skv_rf kv" "skv_waitChan (skv_put kv s) = skv_waitChan kv"
  "skv_lastIncludedIndex (skv_put kv s) = skv_lastIncludedIndex kv" "skv_gid (skv_put kv s) = skv_gid kv"
  "skv_maxraftstate (skv_put kv s) = skv_maxraftstate kv"
  by (simp_all add: skv_put_def)

lemma skv_applyOp_step:
  assumes "skv_lastIncludedIndex kv < index"
  shows "map_option fst (SKV_applyOp kv index op) = map_option (skv_put kv) (step_op (skv_view kv) op)"
proof -
  have "fmupd c n (touch m c) = fmupd c n m" for c n and m :: session_map
    by (rule fmap_ext) (simp add: touch_def)
  with assms show ?thesis
    by (simp add: SKV_applyOp_def SKV_applyToStateMachine_def step_op_def KV_step_def KV_effect_def
        skv_put_def skv_view_def Let_def touch_def map_get_def split: Option.bind_split)
qed

lemma skv_applyConfig_step:
  assumes "skv_lastIncludedIndex kv < index"
  shows "map_option fst (SKV_applyConfig kv index c) = Some (skv_put kv (step_config (skv_gid kv) (skv_view kv) c))"
proof -
  have "next_states g p c st = (if Num p = 0 then map (\<lambda>i. if Shards c ! i = g then SERVING else st ! i) [0..<NShards]
     else map (\<lambda>i. if Shards p ! i = g \<and> Shards c ! i = g then SERVING
                      else if Shards p ! i \<noteq> g \<and> Shards c ! i = g then PULLING
                      else if Shards p ! i = g \<and> Shards c ! i \<noteq> g then BEPULLED
                      else NO_SERVING) [0..<NShards])" for g p c st
    by (auto simp: next_states_def next_state_def)
  with assms show ?thesis
    by (simp add: SKV_applyConfig_def step_config_def updateShardsState_def msgConfig_def
        skv_put_def skv_view_def Let_def)
qed

lemma skv_applyShard_step:
  "map_option fst (SKV_applyShardRequest kv r) = map_option (skv_put kv) (step_pull (skv_view kv) r)"
  "map_option fst (SKV_applyShardConfirm kv f) = map_option (skv_put kv) (step_confirm (skv_view kv) f)"
proof -
  show "map_option fst (SKV_applyShardRequest kv r) = map_option (skv_put kv) (step_pull (skv_view kv) r)"
    by (auto simp: SKV_applyShardRequest_def step_pull_def mergeShardData_def mergeClientSeqNum_def
        skv_put_def skv_view_def slice_get_def slice_set_def)
  show "map_option fst (SKV_applyShardConfirm kv f) = map_option (skv_put kv) (step_confirm (skv_view kv) f)"
    by (auto simp: SKV_applyShardConfirm_def step_confirm_def skv_put_def skv_view_def slice_get_def slice_set_def)
qed

lemma skv_applyCommand_step:
  assumes "skv_lastIncludedIndex kv < index"
  shows "map_option fst (SKV_applyCommand kv index m) =
    map_option (skv_put kv) (SKV_step (skv_gid kv) (skv_view kv) m)"
  unfolding SKV_applyCommand_def SKV_step_def msgOpData_def
  using skv_applyOp_step [OF assms] skv_applyConfig_step [OF assms] skv_applyShard_step
  by (simp split: option.split command_data.split)

section \<open>Interfaces\<close>

definition skv_save :: "shard_view \<Rightarrow> SKV_gob list" where
  "skv_save s = [SGStore (vStore s), SGSeq (vSeq s), SGStates (vStates s), SGConfig (vConfig s), SGConfig (vPrev s)]"

definition skv_restore :: "shard_view \<Rightarrow> SKV_gob list \<Rightarrow> shard_view" where
  "skv_restore s data =
     (case data of
        SGStore st # SGSeq seqs # SGStates states # SGConfig c # SGConfig p # _ \<Rightarrow>
          \<lparr>vStore = st, vSeq = seqs, vStates = states, vConfig = c, vPrev = p\<rparr>
      | _ \<Rightarrow> s)"

lemma SKV_persist_view:
  "SKV_getServerPersistData kv = skv_save (skv_view kv)"
  "SKV_readServerPersistData kv data = skv_put kv (skv_restore (skv_view kv) data)"
  by (simp_all add: SKV_getServerPersistData_def skv_save_def skv_view_def SKV_readServerPersistData_def
      skv_restore_def skv_put_def split: list.split SKV_gob.split)

lemma skv_view_rf [simp]: "skv_view (kv\<lparr>skv_rf := rf\<rparr>) = skv_view kv" "skv_view (kv\<lparr>skv_waitChan := t\<rparr>) = skv_view kv"
  "skv_view (kv\<lparr>skv_lastIncludedIndex := i\<rparr>) = skv_view kv"
  by (simp_all add: skv_view_def)

text \<open>A client operation at an index the server has not passed.\<close>

definition SKV_perform :: "ShardKV \<Rightarrow> Op \<Rightarrow> ShardKV" where
  "SKV_perform kv op =
     (case SKV_applyOp kv (skv_lastIncludedIndex kv + 1) op of Some (kv', _) \<Rightarrow> kv' | None \<Rightarrow> kv)"

definition skv_serves :: "ShardKV \<Rightarrow> Op \<Rightarrow> bool" where
  "skv_serves kv op \<longleftrightarrow> slice_get (skv_shardsState kv) (key2shard (Key op)) = Some SERVING"

lemma SKV_perform_eq:
  "SKV_perform kv op =
   (if skv_serves kv op
    then kv\<lparr>skv_currentState := fst (KV_step (skv_currentState kv, skv_clientSeq kv) op),
            skv_clientSeq := snd (KV_step (skv_currentState kv, skv_clientSeq kv) op)\<rparr>
    else kv)"
proof -
  have "map_option fst (SKV_applyOp kv (skv_lastIncludedIndex kv + 1) op) = map_option (skv_put kv) (step_op (skv_view kv) op)"
    by (rule skv_applyOp_step) simp
  moreover have "SKV_perform kv op = (case map_option fst (SKV_applyOp kv (skv_lastIncludedIndex kv + 1) op) of
      Some kv' \<Rightarrow> kv' | None \<Rightarrow> kv)"
    by (simp add: SKV_perform_def split: option.split)
  ultimately show ?thesis
    by (auto simp: step_op_def skv_serves_def skv_put_def skv_view_def split: Option.bind_split)
qed

interpretation skvd: dedup_machine SKV_perform skv_currentState
  "\<lambda>kv. map_get 0 (skv_clientSeq kv)" skv_serves ClientID SeqNum KV_effect
  by unfold_locales
    (auto simp: SKV_perform_eq skv_serves_def KV_step_def fun_eq_iff map_get_upd)

interpretation skvp: replicated_server "SKV_step gid" skv_save skv_restore
  raft_good lastIncludedIndex commitIndex raft_stored raft_term_ok Snapshot CondInstallSnapshot
  raft_reboot raft_internal skv_rf skv_view skv_lastIncludedIndex initial_view for gid
  by unfold_locales (simp_all add: skv_save_def skv_restore_def)

section \<open>Replicas\<close>

text \<open>The servers of a group with its log, at the number of entries each has applied.\<close>

inductive skv_replica :: "(CommandMsg raft_gob list \<Rightarrow> int) \<Rightarrow> int \<Rightarrow> CommandMsg list \<Rightarrow> ShardKV \<Rightarrow> nat \<Rightarrow> bool"
  for bl gid log where
  boot: "0 \<le> i \<Longrightarrow> i < int n \<Longrightarrow> skv_replica bl gid log (SKV_StartServer now n i MakePersister m gid) 0"
| command: "skv_replica bl gid log kv k \<Longrightarrow> k < length log \<Longrightarrow> \<not> SnapshotValid msg \<Longrightarrow> Command msg = Some (log ! k) \<Longrightarrow>
     CommandIndex msg = int k + 1 \<Longrightarrow> CommandIndex msg \<le> commitIndex (skv_rf kv) \<Longrightarrow>
     SKV_applyHandler bl kv msg = Some (kv', send) \<Longrightarrow> skv_replica bl gid log kv' (Suc k)"
| receive: "skv_replica bl gid log kv k \<Longrightarrow> skv_replica bl gid log kv2 j \<Longrightarrow> SnapshotValid msg \<Longrightarrow>
     Snapshot_data msg = raft_stored (skv_rf kv2) \<Longrightarrow> raft_stored (skv_rf kv2) \<noteq> [] \<Longrightarrow>
     SnapshotIndex msg = lastIncludedIndex (skv_rf kv2) \<Longrightarrow> raft_term_ok (skv_rf kv) (SnapshotTerm msg) \<Longrightarrow>
     SKV_applyHandler bl kv msg = Some (kv', send) \<Longrightarrow>
     skv_replica bl gid log kv' (if commitIndex (skv_rf kv) < SnapshotIndex msg then nat (SnapshotIndex msg) else k)"
| raft: "skv_replica bl gid log kv k \<Longrightarrow> raft_internal (skv_rf kv) rf' \<Longrightarrow> skv_replica bl gid log (kv\<lparr>skv_rf := rf'\<rparr>) k"
| wait: "skv_replica bl gid log kv k \<Longrightarrow> skv_replica bl gid log (fst (SKV_getWaitCh kv index)) k"
| send: "skv_replica bl gid log kv k \<Longrightarrow> SKV_applyHandler_send kv c m = Some kv' \<Longrightarrow> skv_replica bl gid log kv' k"
| cleanup: "skv_replica bl gid log kv k \<Longrightarrow> SKV_cleanup kv c index = Some kv' \<Longrightarrow> skv_replica bl gid log kv' k"
| restart: "skv_replica bl gid log kv k \<Longrightarrow>
     skv_replica bl gid log (SKV_StartServer now (peers (skv_rf kv)) (me (skv_rf kv)) (persister (skv_rf kv)) m gid)
       (nat (lastIncludedIndex (skv_rf kv)))"

lemma SKV_takeSnapshot_cases:
  assumes "SKV_takeSnapshot bl kv i = Some kv'"
  shows "kv' = kv \<or> (\<exists>rf'. Snapshot (skv_rf kv) i (skv_save (skv_view kv)) = Some rf' \<and> kv' = kv\<lparr>skv_rf := rf'\<rparr>)"
  using assms by (auto simp: SKV_takeSnapshot_def SKV_persist_view split: Option.bind_splits if_splits)

lemma SKV_applyHandler_command:
  assumes "\<not> SnapshotValid msg" and "Command msg = Some m" and "skv_lastIncludedIndex kv < CommandIndex msg"
    and "SKV_applyHandler bl kv msg = Some (kv', send)"
  shows "SKV_step (skv_gid kv) (skv_view kv) m = Some (skv_view kv')"
    and "skv_lastIncludedIndex kv' = skv_lastIncludedIndex kv" and "skv_gid kv' = skv_gid kv"
    and "skv_rf kv' = skv_rf kv \<or>
      Snapshot (skv_rf kv) (CommandIndex msg) (skv_save (skv_view kv')) = Some (skv_rf kv')"
proof -
  obtain kv1 reply where kv1: "SKV_applyCommand kv (CommandIndex msg) m = Some (kv1, reply)"
      "kv' = kv1 \<or> SKV_takeSnapshot bl kv1 (CommandIndex msg) = Some kv'"
    using assms(1,2,4) by (auto simp: SKV_applyHandler_def split: Option.bind_splits option.splits)
  from skv_applyCommand_step [OF assms(3), of m] kv1(1)
  obtain s where s: "SKV_step (skv_gid kv) (skv_view kv) m = Some s" "kv1 = skv_put kv s"
    by (cases "SKV_step (skv_gid kv) (skv_view kv) m") simp_all
  have cases: "kv' = kv1 \<or> (\<exists>rf'. Snapshot (skv_rf kv1) (CommandIndex msg) (skv_save (skv_view kv1)) = Some rf' \<and>
      kv' = kv1\<lparr>skv_rf := rf'\<rparr>)"
    using kv1(2) SKV_takeSnapshot_cases [of bl kv1 "CommandIndex msg" kv'] by auto
  then show "SKV_step (skv_gid kv) (skv_view kv) m = Some (skv_view kv')"
    "skv_lastIncludedIndex kv' = skv_lastIncludedIndex kv" "skv_gid kv' = skv_gid kv"
    "skv_rf kv' = skv_rf kv \<or>
      Snapshot (skv_rf kv) (CommandIndex msg) (skv_save (skv_view kv')) = Some (skv_rf kv')"
    using s by auto
qed

lemma skv_start:
  "skv_view (SKV_StartServer now n i ps m gid) =
   (if ReadSnapshot ps = [] then initial_view else skv_restore initial_view (ReadSnapshot ps))"
  "skv_rf (SKV_StartServer now n i ps m gid) = Make now n i ps"
  "skv_lastIncludedIndex (SKV_StartServer now n i ps m gid) = 0"
  "skv_gid (SKV_StartServer now n i ps m gid) = gid"
  "skv_waitChan (SKV_StartServer now n i ps m gid) = make_table"
proof -
  let ?kv = "\<lparr>skv_me = i, skv_rf = Make now n i ps, skv_maxraftstate = m, skv_gid = gid,
    skv_currentState = fmempty, skv_waitChan = make_table, skv_clientSeq = fmempty,
    skv_lastIncludedIndex = 0, skv_config = zeroConfig, skv_prevConfig = zeroConfig,
    skv_shardsState = replicate NShards NO_SERVING\<rparr>"
  have kv: "SKV_StartServer now n i ps m gid =
      (if ReadSnapshot ps = [] then ?kv else skv_put ?kv (skv_restore (skv_view ?kv) (ReadSnapshot ps)))"
    by (simp add: SKV_StartServer_def Let_def GetSnapshot_def SKV_persist_view)
  have "skv_view ?kv = initial_view" by (simp add: skv_view_def initial_view_def)
  then show "skv_view (SKV_StartServer now n i ps m gid) =
      (if ReadSnapshot ps = [] then initial_view else skv_restore initial_view (ReadSnapshot ps))"
    "skv_rf (SKV_StartServer now n i ps m gid) = Make now n i ps"
    "skv_lastIncludedIndex (SKV_StartServer now n i ps m gid) = 0"
    "skv_gid (SKV_StartServer now n i ps m gid) = gid"
    "skv_waitChan (SKV_StartServer now n i ps m gid) = make_table"
    by (simp_all add: kv)
qed

lemma SKV_applyHandler_snapshot:
  assumes "SnapshotValid msg" and "SKV_applyHandler bl kv msg = Some (kv', send)"
  obtains rf' ok where
    "CondInstallSnapshot (skv_rf kv) (SnapshotTerm msg) (SnapshotIndex msg) (Snapshot_data msg) = Some (rf', ok)"
    "skv_rf kv' = rf'" "skv_gid kv' = skv_gid kv"
    "skv_view kv' = (if ok then skv_restore (skv_view kv) (Snapshot_data msg) else skv_view kv)"
    "skv_lastIncludedIndex kv' = (if ok then SnapshotIndex msg else skv_lastIncludedIndex kv)"
  using assms by (auto simp: SKV_applyHandler_def SKV_persist_view split: Option.bind_splits if_splits)

lemma skv_waits:
  "skv_rf (fst (SKV_getWaitCh kv index)) = skv_rf kv" "skv_view (fst (SKV_getWaitCh kv index)) = skv_view kv"
  "skv_lastIncludedIndex (fst (SKV_getWaitCh kv index)) = skv_lastIncludedIndex kv"
  "skv_gid (fst (SKV_getWaitCh kv index)) = skv_gid kv"
  by (simp_all add: SKV_getWaitCh_def split_beta)

lemma skv_sends:
  assumes "SKV_applyHandler_send kv c m = Some kv' \<or> SKV_cleanup kv c index = Some kv'"
  shows "skv_rf kv' = skv_rf kv" "skv_view kv' = skv_view kv"
    "skv_lastIncludedIndex kv' = skv_lastIncludedIndex kv" "skv_gid kv' = skv_gid kv"
  using assms by (auto simp: SKV_applyHandler_send_def SKV_cleanup_def split: Option.bind_splits)

lemma skv_replica_stands: "skv_replica bl gid log kv k \<Longrightarrow> skv_gid kv = gid \<and> skvp.stands gid log kv k"
proof (induction rule: skv_replica.induct)
  case (boot i n now m)
  then show ?case by (auto simp: skv_start Make_fresh_good intro!: skvp.stands_boot)
next
  case (command kv k msg kv' send)
  have "skv_lastIncludedIndex kv < CommandIndex msg" using command.IH command.hyps(5) by (auto simp: skvp.stands_def)
  note step = SKV_applyHandler_command [OF command.hyps(3,4) this command.hyps(7)]
  show ?case
    using command.IH command.hyps step by (auto intro!: skvp.stands_command)
next
  case (receive kv k kv2 j msg kv' send)
  from receive.hyps(3,8) obtain rf' ok where
    "CondInstallSnapshot (skv_rf kv) (SnapshotTerm msg) (SnapshotIndex msg) (Snapshot_data msg) = Some (rf', ok)"
    "skv_rf kv' = rf'" "skv_gid kv' = skv_gid kv"
    "skv_view kv' = (if ok then skv_restore (skv_view kv) (Snapshot_data msg) else skv_view kv)"
    "skv_lastIncludedIndex kv' = (if ok then SnapshotIndex msg else skv_lastIncludedIndex kv)"
    by (rule SKV_applyHandler_snapshot)
  with skvp.stands_receive [of gid log kv k kv2 j "SnapshotTerm msg" "SnapshotIndex msg" "Snapshot_data msg" kv' ok]
    receive show ?case by simp
next
  case (raft kv k rf')
  then show ?case by (auto elim!: skvp.stands_frame)
next
  case (wait kv k index)
  then show ?case by (auto elim!: skvp.stands_frame simp: skv_waits)
next
  case (send kv k c m kv')
  then show ?case using skv_sends [of kv c m kv'] by (auto elim!: skvp.stands_frame)
next
  case (cleanup kv k c index kv')
  then show ?case using skv_sends [of kv c _ kv' index] by (auto elim!: skvp.stands_frame)
next
  case (restart kv k now m)
  have "skvp.stands gid log (SKV_StartServer now (peers (skv_rf kv)) (me (skv_rf kv)) (persister (skv_rf kv)) m gid)
      (nat (lastIncludedIndex (skv_rf kv)))"
    by (rule skvp.stands_restart [where now = now, of gid log kv k])
      (use restart.IH in \<open>simp_all add: skv_start raft_reboot_def raft_stored_def [symmetric]\<close>)
  then show ?case by (simp add: skv_start)
qed

lemma SKV_takeSnapshot_ok:
  assumes "raft_good (skv_rf kv)" and "i \<le> commitIndex (skv_rf kv)"
  shows "\<exists>kv'. SKV_takeSnapshot bl kv i = Some kv'"
  using rs.take_old [of i "skv_rf kv" "SKV_getServerPersistData kv"]
    rs.take_new [of "skv_rf kv" i "SKV_getServerPersistData kv"] assms
  by (cases "i \<le> lastIncludedIndex (skv_rf kv)") (auto simp: SKV_takeSnapshot_def)

end
