(* ===== verification/Shard_Ctrler_Inv.thy ===== *)
theory Shard_Ctrler_Inv
  imports Shard_Ctrler
begin

text \<open>
  Properties of the shard controller: configurations are numbered by their position and never
  change once made, \<open>Join\<close> and \<open>Leave\<close> give balanced assignments with as few moves as possible,
  \<open>Move\<close> changes one shard, replicas that apply the same log agree whatever the iteration orders of
  their maps, and a retried request is applied again.
\<close>

section \<open>Invariant\<close>

definition orders_ok :: "range_orders \<Rightarrow> bool" where
  "orders_ok ord \<longleftrightarrow> (\<forall>k A. distinct (ord k A) \<and> set (ord k A) = fset A)"

definition config_wf :: "Config \<Rightarrow> bool" where
  "config_wf c \<longleftrightarrow> length (Shards c) = NShards \<and> 0 \<notin> fmdom' (Groups c)"

definition configs_wf :: "Config list \<Rightarrow> bool" where
  "configs_wf cs \<longleftrightarrow> cs \<noteq> [] \<and> (\<forall>i < length cs. Num (cs ! i) = int i \<and> config_wf (cs ! i))"

definition sc_inv :: "ShardCtrler \<Rightarrow> bool" where
  "sc_inv sc \<longleftrightarrow> configs_wf (configs sc) \<and> table_sound (sc_waitChan sc)"

text \<open>Group 0 is the invalid group, so nobody joins it; a shard number is in range.\<close>

definition op_ok :: "SC_Op \<Rightarrow> bool" where
  "op_ok op \<longleftrightarrow>
     (scArgsType op = JoinArgsType \<longrightarrow> 0 \<notin> fmdom' (scServers op)) \<and>
     (scArgsType op = MoveArgsType \<longrightarrow> 0 \<le> scShard op \<and> scShard op < int NShards)"

lemma orders_ok_range: "orders_ok ord \<Longrightarrow> range_order (ord k (fmdom m)) m"
  by (simp add: orders_ok_def range_order_def fmdom'_alt_def)

lemma argsType_distinct [simp]:
  "JoinArgsType \<noteq> LeaveArgsType" "JoinArgsType \<noteq> MoveArgsType" "JoinArgsType \<noteq> QueryArgsType"
  "LeaveArgsType \<noteq> JoinArgsType" "LeaveArgsType \<noteq> MoveArgsType" "LeaveArgsType \<noteq> QueryArgsType"
  "MoveArgsType \<noteq> JoinArgsType" "MoveArgsType \<noteq> LeaveArgsType" "MoveArgsType \<noteq> QueryArgsType"
  "QueryArgsType \<noteq> JoinArgsType" "QueryArgsType \<noteq> LeaveArgsType" "QueryArgsType \<noteq> MoveArgsType"
  by (simp_all add: JoinArgsType_def LeaveArgsType_def MoveArgsType_def QueryArgsType_def)

lemma configs_wf_last:
  assumes "configs_wf cs"
  shows "slice_get cs (int (length cs) - 1) = Some (last cs)" "Num (last cs) = int (length cs) - 1"
    "config_wf (last cs)"
proof -
  obtain n where n: "length cs = Suc n" using assms by (cases "length cs") (auto simp: configs_wf_def)
  then have "last cs = cs ! n" by (metis diff_Suc_1 last_conv_nth length_0_conv nat.distinct(1))
  then show "slice_get cs (int (length cs) - 1) = Some (last cs)" "Num (last cs) = int (length cs) - 1"
    "config_wf (last cs)"
    using assms n by (simp_all add: slice_get_def configs_wf_def)
qed

lemma configs_wf_append:
  assumes "configs_wf cs" and "Num c = Num (last cs) + 1" and "config_wf c"
  shows "configs_wf (cs @ [c])"
  using assms configs_wf_last(2) [OF assms(1)]
  by (auto simp: configs_wf_def nth_append less_Suc_eq)

section \<open>Groups\<close>

lemma joinGroups_eq:
  assumes "range_order order new"
  shows "joinGroups order new m = m ++\<^sub>f new"
proof (rule fmap_ext)
  fix g
  have "fmlookup (joinGroups gs new m') g =
      (if g \<in> set gs then Some (map_get [] new g) else fmlookup m' g)" for gs m'
    by (induction gs arbitrary: m') (auto simp: joinGroups_def)
  moreover have "g \<in> set order \<longleftrightarrow> fmlookup new g \<noteq> None"
    using assms by (simp add: range_order_def fmlookup_dom'_iff)
  ultimately show "fmlookup (joinGroups order new m) g = fmlookup (m ++\<^sub>f new) g"
    by (auto simp: map_get_def fmlookup_dom_iff)
qed

lemma leaveGroups_eq: "leaveGroups gids m = fmdrop_set (set gids) m"
  by (rule fmap_ext, induction gids arbitrary: m) (auto simp: leaveGroups_def)

text \<open>The groups after an operation, and the assignment \<open>Join\<close> and \<open>Leave\<close> owe to them.\<close>

definition groups_after :: "SC_Op \<Rightarrow> (int, string list) fmap \<Rightarrow> (int, string list) fmap" where
  "groups_after op m =
     (if scArgsType op = JoinArgsType then m ++\<^sub>f scServers op
      else if scArgsType op = LeaveArgsType then fmdrop_set (set (scGIDs op)) m
      else m)"

definition rebalanced :: "Config \<Rightarrow> Config \<Rightarrow> bool" where
  "rebalanced old new \<longleftrightarrow>
     length (Shards new) = NShards \<and>
     (if fmdom' (Groups new) = {} then Shards new = replicate NShards 0
      else set (Shards new) \<subseteq> fmdom' (Groups new) \<and> balanced (fmdom' (Groups new)) (Shards new) \<and>
           minimal_move (fmdom' (Groups new)) (Shards old) (Shards new))"

lemma rebalanced_length: "rebalanced old new \<Longrightarrow> length (Shards new) = NShards"
  by (simp add: rebalanced_def)

lemma appendRebalanced_spec:
  assumes "orders_ok ord" and "config_wf old" and "0 \<notin> fmdom' m"
  shows "\<exists>c. appendRebalanced ord sc old m = Some (sc\<lparr>configs := configs sc @ [c]\<rparr>) \<and>
    Num c = Num old + 1 \<and> Groups c = m \<and> rebalanced old c"
proof -
  let ?m = "getGIDtoShardsMap (ord 3 (fmdom m)) (Shards old) m"
  note r = orders_ok_range [OF assms(1), of 3 m] orders_ok_range [OF assms(1), of 4 ?m]
  have "\<exists>new moved. rebalance (ord 4 (fmdom ?m)) ?m (Shards old) = Some (new, moved) \<and>
      rebalanced old \<lparr>Num = Num old + 1, Shards = new, Groups = m\<rparr>"
  proof (cases "fmdom' m = {}")
    case True
    from rebalance_none [OF True r] show ?thesis by (auto simp: rebalanced_def True)
  next
    case False
    have "length (Shards old) = NShards" using assms(2) by (simp add: config_wf_def)
    from rebalance_live [OF r this assms(3) False] obtain new moved where
      "rebalance (ord 4 (fmdom ?m)) ?m (Shards old) = Some (new, moved)"
      "length new = NShards" "set new \<subseteq> fmdom' m" "balanced (fmdom' m) new"
      "minimal_move (fmdom' m) (Shards old) new" by blast
    then show ?thesis by (simp add: rebalanced_def False)
  qed
  then obtain new moved where "rebalance (ord 4 (fmdom ?m)) ?m (Shards old) = Some (new, moved)"
    "rebalanced old \<lparr>Num = Num old + 1, Shards = new, Groups = m\<rparr>" by blast
  then show ?thesis
    by (intro exI [of _ "\<lparr>Num = Num old + 1, Shards = new, Groups = m\<rparr>"])
      (simp add: appendRebalanced_def Let_def)
qed

section \<open>Applying an operation\<close>

text \<open>What one operation does to the newest configuration.\<close>

definition config_after :: "SC_Op \<Rightarrow> Config \<Rightarrow> Config \<Rightarrow> bool" where
  "config_after op old new \<longleftrightarrow>
     Num new = Num old + 1 \<and> Groups new = groups_after op (Groups old) \<and>
     (if scArgsType op = MoveArgsType
      then Shards new = (Shards old)[nat (scShard op) := scGID op] else rebalanced old new)"

lemma SC_applyToStateMachine_change:
  assumes "orders_ok ord" and "configs_wf (configs sc)" and "op_ok op"
    and "scArgsType op \<in> {JoinArgsType, LeaveArgsType, MoveArgsType}"
  shows "\<exists>c. SC_applyToStateMachine ord sc op = Some (sc\<lparr>configs := configs sc @ [c]\<rparr>) \<and>
    config_after op (last (configs sc)) c \<and> config_wf c"
proof -
  let ?old = "last (configs sc)"
  note old = configs_wf_last [OF assms(2)]
  note copy = GetGroupMapCopy_eq [OF orders_ok_range [OF assms(1)]]
  have reb: "\<exists>c. appendRebalanced ord sc ?old (groups_after op (Groups ?old)) =
        Some (sc\<lparr>configs := configs sc @ [c]\<rparr>) \<and> config_after op ?old c \<and> config_wf c"
    if "scArgsType op \<noteq> MoveArgsType" "0 \<notin> fmdom' (groups_after op (Groups ?old))"
    using appendRebalanced_spec [OF assms(1) old(3) that(2), of sc] that
    by (auto simp: config_after_def config_wf_def rebalanced_length)
  consider "scArgsType op = JoinArgsType" | "scArgsType op = LeaveArgsType"
    | "scArgsType op = MoveArgsType" using assms(4) by blast
  then show ?thesis
  proof cases
    case 1
    then have "0 \<notin> fmdom' (groups_after op (Groups ?old))"
      using old(3) assms(3) by (auto simp: groups_after_def op_ok_def config_wf_def)
    with 1 reb show ?thesis
      by (simp add: SC_applyToStateMachine_def old(1) copy
          joinGroups_eq [OF orders_ok_range [OF assms(1)]] groups_after_def)
  next
    case 2
    then have "0 \<notin> fmdom' (groups_after op (Groups ?old))"
      using old(3) by (auto simp: groups_after_def config_wf_def)
    with 2 reb show ?thesis
      by (simp add: SC_applyToStateMachine_def old(1) copy leaveGroups_eq groups_after_def)
  next
    case 3
    then have "slice_set (Shards ?old) (scShard op) (scGID op) =
        Some ((Shards ?old)[nat (scShard op) := scGID op])"
      using old(3) assms(3) by (simp add: slice_set_def op_ok_def config_wf_def)
    with 3 old show ?thesis
      by (intro exI [of _ "\<lparr>Num = Num ?old + 1, Shards = (Shards ?old)[nat (scShard op) := scGID op],
            Groups = Groups ?old\<rparr>"])
        (simp add: SC_applyToStateMachine_def GetShardsCopy_eq config_wf_def config_after_def
          groups_after_def)
  qed
qed

lemma SC_applyToStateMachine_query:
  assumes "configs_wf (configs sc)" and "scArgsType op \<notin> {JoinArgsType, LeaveArgsType, MoveArgsType}"
  shows "SC_applyToStateMachine ord sc op = Some sc"
  using assms configs_wf_last(1) [OF assms(1)] by (simp add: SC_applyToStateMachine_def)

section \<open>The apply loop\<close>

definition msgOp :: "(SC_Op, SC_gob) ApplyMsg \<Rightarrow> SC_Op" where
  "msgOp msg = (case Command msg of Some op \<Rightarrow> op | None \<Rightarrow> zeroOp)"

definition changes :: "SC_Op \<Rightarrow> bool" where
  "changes op \<longleftrightarrow> scArgsType op \<in> {JoinArgsType, LeaveArgsType, MoveArgsType}"

text \<open>An operation is carried out when its sequence number is above the client's entry. The entries
  never leave 0: \<open>applyToStateMachine\<close> does not record the sequence number.\<close>

definition sessions_zero :: "ShardCtrler \<Rightarrow> bool" where
  "sessions_zero sc \<longleftrightarrow> (\<forall>c. map_get 0 (sc_clientSeq sc) c = 0)"

definition performs :: "ShardCtrler \<Rightarrow> (SC_Op, SC_gob) ApplyMsg \<Rightarrow> bool" where
  "performs sc msg \<longleftrightarrow>
     CommandValid msg \<and> changes (msgOp msg) \<and>
     map_get 0 (sc_clientSeq sc) (scClientID (msgOp msg)) < scSeqNum (msgOp msg)"

text \<open>One iteration: the configurations grow by the effect of the operation, or stay.\<close>

lemma SC_applyHandler_eq:
  assumes "CommandValid msg"
  shows "SC_applyHandler ord sc msg =
    (let sc1 = sc\<lparr>sc_clientSeq := touch (sc_clientSeq sc) (scClientID (msgOp msg))\<rparr> in
     do { sc2 \<leftarrow> (if scSeqNum (msgOp msg) \<le> map_get 0 (sc_clientSeq sc) (scClientID (msgOp msg))
                  then Some sc1 else SC_applyToStateMachine ord sc1 (msgOp msg));
          t \<leftarrow> notify (sc_waitChan sc2) (CommandIndex msg) (msgOp msg);
          Some (sc2\<lparr>sc_waitChan := t\<rparr>) })"
  using assms
  by (simp add: SC_applyHandler_def msgOp_def [symmetric] touch_def Let_def map_get_def
      split: option.splits)

lemma SC_applyHandler_performs:
  assumes "sc_inv sc" and "orders_ok ord" and "op_ok (msgOp msg)" and "performs sc msg"
  shows "\<exists>c t. SC_applyHandler ord sc msg =
      Some (sc\<lparr>sc_clientSeq := touch (sc_clientSeq sc) (scClientID (msgOp msg)),
               configs := configs sc @ [c], sc_waitChan := t\<rparr>) \<and>
    config_after (msgOp msg) (last (configs sc)) c \<and> config_wf c \<and> table_sound t"
proof -
  let ?sc1 = "sc\<lparr>sc_clientSeq := touch (sc_clientSeq sc) (scClientID (msgOp msg))\<rparr>"
  obtain c where "SC_applyToStateMachine ord ?sc1 (msgOp msg) = Some (?sc1\<lparr>configs := configs sc @ [c]\<rparr>)"
    "config_after (msgOp msg) (last (configs sc)) c" "config_wf c"
    using SC_applyToStateMachine_change [OF assms(2), of ?sc1 "msgOp msg"] assms
    by (auto simp: sc_inv_def performs_def changes_def)
  moreover obtain t where "notify (sc_waitChan sc) (CommandIndex msg) (msgOp msg) = Some t" "table_sound t"
    using notify_ok [of "sc_waitChan sc"] assms(1) by (auto simp: sc_inv_def)
  ultimately show ?thesis
    using assms(4) by (auto simp: SC_applyHandler_eq performs_def Let_def)
qed

lemma SC_applyHandler_skips:
  assumes "sc_inv sc" and "\<not> performs sc msg"
  shows "\<exists>seqs t. SC_applyHandler ord sc msg = Some (sc\<lparr>sc_clientSeq := seqs, sc_waitChan := t\<rparr>) \<and>
    (\<forall>c. map_get 0 seqs c = map_get 0 (sc_clientSeq sc) c) \<and> table_sound t"
proof (cases "CommandValid msg")
  case False
  with assms show ?thesis
    by (intro exI [of _ "sc_clientSeq sc"] exI [of _ "sc_waitChan sc"])
      (simp add: SC_applyHandler_def sc_inv_def)
next
  case True
  let ?sc1 = "sc\<lparr>sc_clientSeq := touch (sc_clientSeq sc) (scClientID (msgOp msg))\<rparr>"
  obtain t where t: "notify (sc_waitChan sc) (CommandIndex msg) (msgOp msg) = Some t" "table_sound t"
    using notify_ok [of "sc_waitChan sc"] assms(1) by (auto simp: sc_inv_def)
  have "SC_applyToStateMachine ord ?sc1 (msgOp msg) = Some ?sc1" if "\<not> changes (msgOp msg)"
    using SC_applyToStateMachine_query [of ?sc1] that assms(1) by (simp add: sc_inv_def changes_def)
  then have "SC_applyHandler ord sc msg = Some (?sc1\<lparr>sc_waitChan := t\<rparr>)"
    using assms(2) True t(1) by (auto simp: SC_applyHandler_eq performs_def Let_def)
  with t(2) show ?thesis
    by (intro exI [of _ "touch (sc_clientSeq sc) (scClientID (msgOp msg))"] exI [of _ t]) simp
qed

section \<open>Runs\<close>

text \<open>The apply loop over a sequence of messages. Each message comes with the iteration orders of
  the maps while it is handled.\<close>

fun SC_run :: "(range_orders \<times> (SC_Op, SC_gob) ApplyMsg) list \<Rightarrow> ShardCtrler \<Rightarrow> ShardCtrler option" where
  "SC_run [] sc = Some sc"
| "SC_run ((ord, msg) # msgs) sc = do { sc' \<leftarrow> SC_applyHandler ord sc msg; SC_run msgs sc' }"

definition msgs_ok :: "(range_orders \<times> (SC_Op, SC_gob) ApplyMsg) list \<Rightarrow> bool" where
  "msgs_ok msgs \<longleftrightarrow> (\<forall>(ord, msg) \<in> set msgs. orders_ok ord \<and> op_ok (msgOp msg))"

text \<open>The abstract controller: a history of configurations in which every operation that is carried
  out appends one.\<close>

inductive config_history :: "Config list \<Rightarrow> SC_Op list \<Rightarrow> Config list \<Rightarrow> bool" where
  history_Nil: "config_history cs [] cs"
| history_Cons: "config_after op (last cs) c \<Longrightarrow> config_wf c \<Longrightarrow> config_history (cs @ [c]) ops cs' \<Longrightarrow>
     config_history cs (op # ops) cs'"

inductive_cases history_ConsE: "config_history cs (op # ops) cs'"

lemma config_history_prefix:
  "config_history cs ops cs' \<Longrightarrow> prefix cs cs' \<and> length cs' = length cs + length ops"
  by (induction rule: config_history.induct) (auto simp: prefix_def)

text \<open>The operations of a log that are carried out, given that no sequence number is recorded.\<close>

definition effective :: "(SC_Op, SC_gob) ApplyMsg list \<Rightarrow> SC_Op list" where
  "effective msgs = map msgOp (filter (\<lambda>msg. CommandValid msg \<and> changes (msgOp msg) \<and> 0 < scSeqNum (msgOp msg)) msgs)"

lemma sc_inv_append:
  assumes "sc_inv sc" and "config_after op (last (configs sc)) c" and "config_wf c" and "table_sound t"
  shows "sc_inv (sc\<lparr>sc_clientSeq := seqs, configs := configs sc @ [c], sc_waitChan := t\<rparr>)"
  using assms configs_wf_append [of "configs sc" c] by (simp add: sc_inv_def config_after_def)

lemma SC_run_history:
  assumes "sc_inv sc" and "sessions_zero sc" and "msgs_ok msgs"
  shows "\<exists>sc'. SC_run msgs sc = Some sc' \<and> sc_inv sc' \<and> sessions_zero sc' \<and>
    config_history (configs sc) (effective (map snd msgs)) (configs sc')"
  using assms
proof (induction msgs arbitrary: sc)
  case Nil
  then show ?case by (simp add: effective_def history_Nil)
next
  case (Cons om msgs)
  obtain ord msg where om: "om = (ord, msg)" by (cases om)
  have ok: "orders_ok ord" "op_ok (msgOp msg)" "msgs_ok msgs"
    using Cons.prems(3) by (auto simp: om msgs_ok_def)
  have perf: "performs sc msg \<longleftrightarrow> CommandValid msg \<and> changes (msgOp msg) \<and> 0 < scSeqNum (msgOp msg)"
    using Cons.prems(2) by (simp add: performs_def sessions_zero_def)
  show ?case
  proof (cases "performs sc msg")
    case True
    from SC_applyHandler_performs [OF Cons.prems(1) ok(1,2) True] obtain c t sc1 where
      sc1: "sc1 = sc\<lparr>sc_clientSeq := touch (sc_clientSeq sc) (scClientID (msgOp msg)),
               configs := configs sc @ [c], sc_waitChan := t\<rparr>"
        "SC_applyHandler ord sc msg = Some sc1"
      and c: "config_after (msgOp msg) (last (configs sc)) c" "config_wf c" "table_sound t" by blast
    have "sc_inv sc1" "sessions_zero sc1"
      using sc_inv_append [OF Cons.prems(1) c] Cons.prems(2) by (simp_all add: sc1(1) sessions_zero_def)
    from Cons.IH [OF this ok(3)] show ?thesis
      using True perf c sc1 by (auto simp: om effective_def intro: history_Cons)
  next
    case False
    from SC_applyHandler_skips [OF Cons.prems(1) False, of ord] obtain seqs t sc1 where
      sc1: "sc1 = sc\<lparr>sc_clientSeq := seqs, sc_waitChan := t\<rparr>" "SC_applyHandler ord sc msg = Some sc1"
      and "\<forall>c. map_get 0 seqs c = map_get 0 (sc_clientSeq sc) c" "table_sound t" by blast
    then have "sc_inv sc1" "sessions_zero sc1"
      using Cons.prems(1,2) by (simp_all add: sc_inv_def sessions_zero_def)
    from Cons.IH [OF this ok(3)] show ?thesis
      using False perf sc1 by (auto simp: om effective_def)
  qed
qed

lemma sc_inv_StartServer: "sc_inv (SC_StartServer now n i ps)" "sessions_zero (SC_StartServer now n i ps)"
  by (simp_all add: sc_inv_def SC_StartServer_def configs_wf_def config_wf_def zeroConfig_def
      table_sound_make sessions_zero_def map_get_empty)

section \<open>Replicas agree\<close>

lemma sort_unique:
  "distinct xs \<Longrightarrow> distinct ys \<Longrightarrow> set xs = set ys \<Longrightarrow> sort xs = sort (ys :: int list)"
  by (rule sorted_distinct_set_unique) simp_all

lemma getGIDtoShardsMap_order:
  "range_order o1 m \<Longrightarrow> range_order o2 m \<Longrightarrow> getGIDtoShardsMap o1 shards m = getGIDtoShardsMap o2 shards m"
  by (rule fmap_ext) (simp add: getGIDtoShardsMap_lookup)

lemma rebalance_order:
  assumes "range_order o1 m" and "range_order o2 m"
  shows "rebalance o1 m shards = rebalance o2 m shards"
proof -
  have "sort o1 = sort o2" using assms by (intro sort_unique) (simp_all add: range_order_def)
  then show ?thesis by (simp only: rebalance_def)
qed

lemma appendRebalanced_order:
  assumes "orders_ok o1" and "orders_ok o2"
  shows "appendRebalanced o1 sc old m = appendRebalanced o2 sc old m"
proof -
  let ?m = "getGIDtoShardsMap (o2 3 (fmdom m)) (Shards old) m"
  have "getGIDtoShardsMap (o1 3 (fmdom m)) (Shards old) m = ?m"
    using assms by (intro getGIDtoShardsMap_order orders_ok_range)
  moreover have "rebalance (o1 4 (fmdom ?m)) ?m (Shards old) = rebalance (o2 4 (fmdom ?m)) ?m (Shards old)"
    using assms by (intro rebalance_order orders_ok_range)
  ultimately show ?thesis by (simp only: appendRebalanced_def Let_def)
qed

lemma SC_applyToStateMachine_order:
  assumes "orders_ok o1" and "orders_ok o2"
  shows "SC_applyToStateMachine o1 sc op = SC_applyToStateMachine o2 sc op"
  unfolding SC_applyToStateMachine_def Let_def
  by (simp only: GetGroupMapCopy_eq [OF orders_ok_range [OF assms(1)]]
      GetGroupMapCopy_eq [OF orders_ok_range [OF assms(2)]]
      joinGroups_eq [OF orders_ok_range [OF assms(1)]] joinGroups_eq [OF orders_ok_range [OF assms(2)]]
      appendRebalanced_order [OF assms])

text \<open>The replicated part of a controller. Raft and the wait channels differ between replicas.\<close>

definition sc_view :: "ShardCtrler \<Rightarrow> Config list \<times> (int, int) fmap" where
  "sc_view sc = (configs sc, sc_clientSeq sc)"

lemma appendRebalanced_view:
  "configs sc2 = configs sc \<Longrightarrow>
   appendRebalanced ord sc2 old m = map_option (\<lambda>s. sc2\<lparr>configs := configs s\<rparr>) (appendRebalanced ord sc old m)"
  by (auto simp: appendRebalanced_def Let_def split: Option.bind_split)

lemma SC_applyToStateMachine_view:
  assumes "configs sc2 = configs sc"
  shows "SC_applyToStateMachine ord sc2 op =
    map_option (\<lambda>s. sc2\<lparr>configs := configs s\<rparr>) (SC_applyToStateMachine ord sc op)"
proof (cases "slice_get (configs sc) (int (length (configs sc)) - 1)")
  case None
  then show ?thesis using assms by (simp add: SC_applyToStateMachine_def)
next
  case (Some old)
  show ?thesis
    unfolding SC_applyToStateMachine_def assms Some bind.bind_lunit appendRebalanced_view [OF assms] Let_def
    using assms
    by (cases "slice_set (GetShardsCopy (Shards old)) (scShard op) (scGID op)") simp_all
qed

lemma SC_applyToStateMachine_frame:
  assumes "SC_applyToStateMachine ord sc op = Some sc'"
  shows "sc_clientSeq sc' = sc_clientSeq sc" "sc_waitChan sc' = sc_waitChan sc" "sc_rf sc' = sc_rf sc"
proof -
  have "sc' = sc\<lparr>configs := configs sc'\<rparr>"
    using SC_applyToStateMachine_view [of sc sc ord op] assms by simp
  then show "sc_clientSeq sc' = sc_clientSeq sc" "sc_waitChan sc' = sc_waitChan sc" "sc_rf sc' = sc_rf sc"
    by (metis ShardCtrler.select_convs(5) ShardCtrler.surjective ShardCtrler.update_convs(3),
        metis ShardCtrler.select_convs(4) ShardCtrler.surjective ShardCtrler.update_convs(3),
        metis ShardCtrler.select_convs(2) ShardCtrler.surjective ShardCtrler.update_convs(3))
qed

lemma SC_applyHandler_view:
  assumes "sc_view sc1 = sc_view sc2" and "orders_ok o1" "orders_ok o2"
    and "SC_applyHandler o1 sc1 msg = Some sc1'" and "SC_applyHandler o2 sc2 msg = Some sc2'"
  shows "sc_view sc1' = sc_view sc2'"
proof (cases "CommandValid msg")
  case False
  with assms show ?thesis by (simp add: SC_applyHandler_def)
next
  case True
  let ?seq = "touch (sc_clientSeq sc1) (scClientID (msgOp msg))"
  have view: "configs sc2 = configs sc1" "sc_clientSeq sc2 = sc_clientSeq sc1"
    using assms(1) by (simp_all add: sc_view_def)
  have same: "SC_applyToStateMachine o2 (sc2\<lparr>sc_clientSeq := ?seq\<rparr>) (msgOp msg) =
      map_option (\<lambda>s. (sc2\<lparr>sc_clientSeq := ?seq\<rparr>)\<lparr>configs := configs s\<rparr>)
        (SC_applyToStateMachine o1 (sc1\<lparr>sc_clientSeq := ?seq\<rparr>) (msgOp msg))"
    using SC_applyToStateMachine_view [of "sc2\<lparr>sc_clientSeq := ?seq\<rparr>" "sc1\<lparr>sc_clientSeq := ?seq\<rparr>"] view
      SC_applyToStateMachine_order [OF assms(2,3)] by simp
  show ?thesis
    using assms(4,5) view same
      SC_applyToStateMachine_frame [of o1 "sc1\<lparr>sc_clientSeq := ?seq\<rparr>" "msgOp msg"]
    unfolding SC_applyHandler_eq [OF True] Let_def
    by (auto simp: sc_view_def split: Option.bind_splits if_splits)
qed

lemma SC_run_view:
  assumes "sc_view sc1 = sc_view sc2" and "map snd msgs1 = map snd msgs2"
    and "msgs_ok msgs1" "msgs_ok msgs2"
    and "SC_run msgs1 sc1 = Some sc1'" and "SC_run msgs2 sc2 = Some sc2'"
  shows "sc_view sc1' = sc_view sc2'"
  using assms
proof (induction msgs1 arbitrary: msgs2 sc1 sc2)
  case (Cons m1 msgs1)
  obtain o1 msg where m1: "m1 = (o1, msg)" by (cases m1)
  with Cons.prems(2) obtain o2 msgs2' where m2: "msgs2 = (o2, msg) # msgs2'" "map snd msgs1 = map snd msgs2'"
    by (cases msgs2) auto
  obtain s1 s2 where step: "SC_applyHandler o1 sc1 msg = Some s1" "SC_run msgs1 s1 = Some sc1'"
      "SC_applyHandler o2 sc2 msg = Some s2" "SC_run msgs2' s2 = Some sc2'"
    using Cons.prems(5,6) by (auto simp: m1 m2 split: Option.bind_splits)
  have "orders_ok o1" "orders_ok o2" using Cons.prems(3,4) by (simp_all add: m1 m2 msgs_ok_def)
  then have "sc_view s1 = sc_view s2"
    using SC_applyHandler_view [OF Cons.prems(1)] step(1,3) by blast
  with Cons.IH [of s1 s2 msgs2'] step(2,4) m2(2) Cons.prems(3,4) show ?case
    by (simp add: m1 m2 msgs_ok_def)
qed simp

section \<open>Queries\<close>

lemma SC_getConfig_index:
  assumes "sc_inv sc" and "0 \<le> n" "n < int (length (configs sc))"
  shows "SC_getConfig sc n = Some (configs sc ! nat n)" "Num (configs sc ! nat n) = n"
  using assms configs_wf_last(1) [of "configs sc"]
  by (auto simp: SC_getConfig_def sc_inv_def configs_wf_def slice_get_nth)

lemma SC_getConfig_last:
  assumes "sc_inv sc" and "n = -1 \<or> int (length (configs sc)) \<le> n"
  shows "SC_getConfig sc n = Some (last (configs sc))"
  using assms configs_wf_last(1) [of "configs sc"]
  by (auto simp: SC_getConfig_def sc_inv_def)

lemma SC_getConfig_panic: "n < -1 \<Longrightarrow> SC_getConfig sc n = None"
  by (auto simp: SC_getConfig_def slice_get_def split: Option.bind_splits)

lemma SC_getConfig_stable:
  assumes "sc_inv sc" and "sc_inv sc'" and "prefix (configs sc) (configs sc')"
    and "0 \<le> n" "n < int (length (configs sc))"
  shows "SC_getConfig sc' n = SC_getConfig sc n"
proof -
  have "n < int (length (configs sc'))" "configs sc' ! nat n = configs sc ! nat n"
    using assms(3-5) by (auto simp: prefix_def nth_append)
  with assms show ?thesis by (simp add: SC_getConfig_index)
qed

section \<open>Round trip\<close>

lemma SC_persist_roundtrip:
  "sc_view (SC_readServerPersistData sc' (SC_getServerPersistData sc)) = sc_view sc"
  by (simp add: SC_readServerPersistData_def SC_getServerPersistData_def sc_view_def)

section \<open>Properties\<close>

definition demo_ord :: range_orders where
  "demo_ord k A = (if k = 0 then rev (sorted_list_of_fset A) else sorted_list_of_fset A)"

definition demo_ord2 :: range_orders where
  "demo_ord2 k A = rev (sorted_list_of_fset A)"

lemma demo_ord_ok: "orders_ok demo_ord" "orders_ok demo_ord2"
  by (simp_all add: orders_ok_def demo_ord_def demo_ord2_def sorted_list_of_fset.rep_eq)

definition demo_groups :: "(int, string list) fmap" where
  "demo_groups = fmap_of_list [(1, [''a'']), (2, [''b'']), (3, [''c''])]"

lemma demo_groups_dom: "fmdom' demo_groups = {1, 2, 3}"
  by (simp add: demo_groups_def)




text \<open>C15. The controller implements its abstract history: starting from a fresh server, applying any
  log of well-formed operations never panics, and the configurations are the history in which
  each \<open>Join\<close>, \<open>Leave\<close> or \<open>Move\<close> with a positive sequence number appends one configuration, with the
  next number, the groups the operation asks for, and a balanced assignment with no needless moves
  (\<open>Move\<close> changes the one shard it names).\<close>

theorem controller_refines_history:
  assumes "msgs_ok msgs"
  shows "\<exists>sc. SC_run msgs (SC_StartServer now n i ps) = Some sc \<and> sc_inv sc \<and>
    config_history [zeroConfig] (effective (map snd msgs)) (configs sc)"
  using SC_run_history [OF sc_inv_StartServer assms, of now n i ps] by (auto simp: SC_StartServer_def)

definition demo_join :: SC_Op where
  "demo_join = zeroOp\<lparr>scArgsType := JoinArgsType, scServers := demo_groups, scSeqNum := 1, scClientID := 7\<rparr>"

definition demo_move :: "int \<Rightarrow> int \<Rightarrow> SC_Op" where
  "demo_move client g = zeroOp\<lparr>scArgsType := MoveArgsType, scShard := 0, scGID := g, scSeqNum := 2, scClientID := client\<rparr>"

definition applied_msg :: "SC_Op \<Rightarrow> int \<Rightarrow> (SC_Op, SC_gob) ApplyMsg" where
  "applied_msg op index = \<lparr>CommandValid = True, Command = Some op, CommandIndex = index,
     SnapshotValid = False, Snapshot_data = [], SnapshotTerm = 0, SnapshotIndex = 0\<rparr>"

lemma applied_msgs_ok: "msgs_ok [(demo_ord, applied_msg demo_join 1), (demo_ord2, applied_msg (demo_move 7 3) 2)]"
  by (simp add: msgs_ok_def demo_ord_ok op_ok_def msgOp_def applied_msg_def demo_join_def demo_move_def
      demo_groups_dom NShards_def)

theorem controller_refines_history_witness:
  "\<exists>sc. SC_run [(demo_ord, applied_msg demo_join 1), (demo_ord2, applied_msg (demo_move 7 3) 2)]
      (SC_StartServer 0 3 0 MakePersister) = Some sc \<and>
    config_history [zeroConfig] [demo_join, demo_move 7 3] (configs sc)"
proof -
  have "effective (map snd [(demo_ord, applied_msg demo_join 1), (demo_ord2, applied_msg (demo_move 7 3) 2)]) =
      [demo_join, demo_move 7 3]"
    by (simp add: effective_def changes_def msgOp_def applied_msg_def demo_join_def demo_move_def zeroOp_def)
  with controller_refines_history [OF applied_msgs_ok, of 0 3 0 MakePersister] show ?thesis by auto
qed

text \<open>C27. Configurations are immutable and \<open>Query\<close> finds them: whatever the controller applies later,
  \<open>Query(n)\<close> for a number that exists keeps returning the same configuration, whose number is \<open>n\<close>,
  and \<open>Query(-1)\<close> or a number from the future returns the newest configuration.\<close>

theorem query_history:
  assumes "sc_inv sc" and "sessions_zero sc" and "msgs_ok msgs"
    and "0 \<le> n" and "n < int (length (configs sc))"
  shows "\<exists>sc' c. SC_run msgs sc = Some sc' \<and> SC_getConfig sc n = Some c \<and> SC_getConfig sc' n = Some c \<and>
    Num c = n \<and>
    (\<forall>k. k = -1 \<or> int (length (configs sc')) \<le> k \<longrightarrow> SC_getConfig sc' k = Some (last (configs sc')))"
proof -
  obtain sc' where sc': "SC_run msgs sc = Some sc'" "sc_inv sc'" "prefix (configs sc) (configs sc')"
    using SC_run_history [OF assms(1-3)] config_history_prefix by blast
  show ?thesis
    using sc'(1) SC_getConfig_index [OF assms(1,4,5)] SC_getConfig_stable [OF assms(1) sc'(2,3) assms(4,5)]
      SC_getConfig_last [OF sc'(2)] by auto
qed

theorem query_history_witness:
  "\<exists>sc c. SC_run [(demo_ord, applied_msg demo_join 1), (demo_ord2, applied_msg (demo_move 7 3) 2)]
      (SC_StartServer 0 3 0 MakePersister) = Some sc \<and>
    SC_getConfig (SC_StartServer 0 3 0 MakePersister) 0 = Some c \<and> SC_getConfig sc 0 = Some c \<and> Num c = 0"
  using query_history [OF sc_inv_StartServer applied_msgs_ok, of 0 0 3 0 MakePersister]
  by (auto simp: SC_StartServer_def)

text \<open>C26. Replicas agree: two controllers with the same configurations and sessions that apply the same
  messages end with the same configurations and sessions, although each iterates over its Go maps
  in its own orders.\<close>

theorem controllers_agree:
  assumes "sc_inv sc1" "sc_inv sc2" and "sessions_zero sc1" "sessions_zero sc2"
    and "sc_view sc1 = sc_view sc2" and "map snd msgs1 = map snd msgs2"
    and "msgs_ok msgs1" "msgs_ok msgs2"
  shows "\<exists>sc1' sc2'. SC_run msgs1 sc1 = Some sc1' \<and> SC_run msgs2 sc2 = Some sc2' \<and>
    sc_view sc1' = sc_view sc2'"
proof -
  obtain sc1' sc2' where "SC_run msgs1 sc1 = Some sc1'" "SC_run msgs2 sc2 = Some sc2'"
    using SC_run_history assms(1-4,7,8) by blast
  with SC_run_view [OF assms(5-8)] show ?thesis by blast
qed

theorem controllers_agree_witness:
  "\<exists>sc1 sc2. SC_run [(demo_ord, applied_msg demo_join 1)] (SC_StartServer 0 3 0 MakePersister) = Some sc1 \<and>
    SC_run [(demo_ord2, applied_msg demo_join 1)] (SC_StartServer 5 3 1 MakePersister) = Some sc2 \<and>
    sc_view sc1 = sc_view sc2"
proof -
  have "msgs_ok [(demo_ord, applied_msg demo_join 1)]" "msgs_ok [(demo_ord2, applied_msg demo_join 1)]"
    using applied_msgs_ok demo_ord_ok by (simp_all add: msgs_ok_def)
  then show ?thesis
    by (intro controllers_agree) (simp_all add: sc_inv_StartServer, simp add: SC_StartServer_def sc_view_def)
qed

text \<open>C40. A retried request is applied again. The controller never records a sequence number, so when
  client A's \<open>Move\<close> is in the log a second time after client B has moved the same shard, the shard
  goes back to A's group: three configurations are made and B's move is lost.\<close>

theorem retried_move_is_reapplied:
  assumes "sc_inv sc" and "sessions_zero sc" and "orders_ok o1" "orders_ok o2" "orders_ok o3"
    and "scArgsType A = MoveArgsType" "scArgsType B = MoveArgsType"
    and "scShard A = int s" "scShard B = int s" "s < NShards" and "0 < scSeqNum A" "0 < scSeqNum B"
  shows "\<exists>sc'. SC_run [(o1, applied_msg A i), (o2, applied_msg B j), (o3, applied_msg A k)] sc = Some sc' \<and>
    length (configs sc') = length (configs sc) + 3 \<and> Shards (last (configs sc')) ! s = scGID A"
proof -
  let ?msgs = "[(o1, applied_msg A i), (o2, applied_msg B j), (o3, applied_msg A k)]"
  have eff: "effective (map snd ?msgs) = [A, B, A]"
    using assms(6-12) by (simp add: effective_def changes_def msgOp_def applied_msg_def)
  have "msgs_ok ?msgs"
    using assms by (simp add: msgs_ok_def op_ok_def msgOp_def applied_msg_def)
  from SC_run_history [OF assms(1,2) this] obtain sc' where run: "SC_run ?msgs sc = Some sc'"
    and inv: "sc_inv sc'" and hist: "config_history (configs sc) [A, B, A] (configs sc')"
    unfolding eff by blast
  from hist obtain c1 c2 c3 where "configs sc' = ((configs sc @ [c1]) @ [c2]) @ [c3]"
    and c: "config_after A c2 c3" "config_wf c2"
    by (auto elim!: history_ConsE elim: config_history.cases)
  moreover have "Shards c3 ! s = scGID A"
    using c assms(6,8,10) by (simp add: config_after_def config_wf_def)
  ultimately show ?thesis using run by simp
qed

theorem retried_move_is_reapplied_witness:
  "\<exists>sc'. SC_run [(demo_ord, applied_msg (demo_move 7 1) 1), (demo_ord, applied_msg (demo_move 8 2) 2),
      (demo_ord, applied_msg (demo_move 7 1) 3)] (SC_StartServer 0 3 0 MakePersister) = Some sc' \<and>
    Shards (last (configs sc')) ! 0 = 1"
  using retried_move_is_reapplied [OF sc_inv_StartServer demo_ord_ok(1,1,1),
      of "demo_move 7 1" "demo_move 8 2" 0 1 2 3 0 3 0 MakePersister]
  by (auto simp: demo_move_def NShards_def)

end
