(* ===== verification/Shard_System.thy ===== *)
theory Shard_System
  imports SKV_Inv Shard_Ctrler_Inv
begin

text \<open>
  The whole sharded store: the shard controller and the replica groups. A group is its log; its
  servers are the replicas of \<open>skv_replica\<close>, each at some prefix of the log. The goroutines of a
  server read one or more replicas and propose a command; a proposal may enter the log of its
  group at any later time, in any order, several times or never. What raft contributes is that a
  group has one log that only grows. The history of a shard lists the client operations that took
  effect on it, in whatever group they did; it is recorded for the properties only.
\<close>

section \<open>The controller as a service\<close>

text \<open>What the groups need from the controller: configurations numbered from 0 that never change.\<close>

locale config_service =
  fixes good :: "'sc \<Rightarrow> bool" and known :: "'sc \<Rightarrow> Config list" and query :: "'sc \<Rightarrow> int \<Rightarrow> Config option"
    and advance :: "'sc \<Rightarrow> 'sc \<Rightarrow> bool"
  assumes known_wf: "good sc \<Longrightarrow> configs_wf (known sc)"
    and query_known: "good sc \<Longrightarrow> 0 \<le> n \<Longrightarrow> n < int (length (known sc)) \<Longrightarrow> query sc n = Some (known sc ! nat n)"
    and advance_good: "advance sc sc' \<Longrightarrow> good sc \<Longrightarrow> good sc' \<and> prefix (known sc) (known sc')"
begin

lemma known_num: "good sc \<Longrightarrow> n < length (known sc) \<Longrightarrow> Num (known sc ! n) = int n"
  using known_wf by (simp add: configs_wf_def)

lemma known_shards: "good sc \<Longrightarrow> n < length (known sc) \<Longrightarrow> length (Shards (known sc ! n)) = NShards"
  using known_wf by (simp add: configs_wf_def config_wf_def)

text \<open>A server that knows of a newer configuration fetches the successor of its own.\<close>

lemma successor_known:
  assumes "good sc" and "c \<in> set (known sc)" and "int n < Num c"
  shows "Suc n < length (known sc)" "query sc (int n + 1) = Some (known sc ! Suc n)"
proof -
  obtain m where "c = known sc ! m" "m < length (known sc)" using assms(2) by (auto simp: in_set_conv_nth)
  then show len: "Suc n < length (known sc)" using known_num [OF assms(1)] assms(3) by simp
  have "nat (int n + 1) = Suc n" by simp
  with query_known [OF assms(1), of "int n + 1"] len show "query sc (int n + 1) = Some (known sc ! Suc n)" by simp
qed

lemma known_stable:
  assumes "advance sc sc'" and "good sc" and "n < length (known sc)"
  shows "n < length (known sc')" "known sc' ! n = known sc ! n"
  using advance_good [OF assms(1,2)] assms(3) by (auto simp: prefix_def nth_append)

end

definition ctrl_good :: "ShardCtrler \<Rightarrow> bool" where
  "ctrl_good sc \<longleftrightarrow> sc_inv sc \<and> sessions_zero sc"

text \<open>The controller applies a message.\<close>

definition ctrl_step :: "ShardCtrler \<Rightarrow> ShardCtrler \<Rightarrow> bool" where
  "ctrl_step sc sc' \<longleftrightarrow>
     (\<exists>ord msg. orders_ok ord \<and> op_ok (msgOp msg) \<and> SC_applyHandler ord sc msg = Some sc')"

lemma ctrl_step_good:
  assumes "ctrl_step sc sc'" and "ctrl_good sc"
  shows "ctrl_good sc' \<and> prefix (configs sc) (configs sc')"
proof -
  obtain ord msg where ok: "orders_ok ord" "op_ok (msgOp msg)" "SC_applyHandler ord sc msg = Some sc'"
    using assms(1) by (auto simp: ctrl_step_def)
  then have "msgs_ok [(ord, msg)]" "SC_run [(ord, msg)] sc = Some sc'" by (simp_all add: msgs_ok_def)
  with SC_run_history [of sc "[(ord, msg)]"] assms(2) show ?thesis
    using config_history_prefix by (auto simp: ctrl_good_def)
qed

interpretation cc: config_service ctrl_good configs SC_getConfig ctrl_step
  by unfold_locales
    (auto simp: ctrl_good_def sc_inv_def SC_getConfig_index(1) dest: ctrl_step_good)

section \<open>The system\<close>

record shard_system =
  ctrl :: ShardCtrler
  logs :: "int \<Rightarrow> CommandMsg list"
  pool :: "int \<Rightarrow> CommandMsg set"
  hist :: "nat \<Rightarrow> Op list"

text \<open>The state of a group, and the states its servers can be in.\<close>

primrec group_run :: "int \<Rightarrow> CommandMsg list \<Rightarrow> shard_view \<Rightarrow> shard_view option" where
  "group_run g [] s = Some s"
| "group_run g (m # log) s = do { s' \<leftarrow> SKV_step g s m; group_run g log s' }"

definition group_view :: "int \<Rightarrow> CommandMsg list \<Rightarrow> shard_view option" where
  "group_view g log = group_run g log initial_view"

definition views :: "int \<Rightarrow> CommandMsg list \<Rightarrow> shard_view set" where
  "views g log = {v. \<exists>k. group_view g (take k log) = Some v}"

definition kvMsg :: "Op \<Rightarrow> CommandMsg" where
  "kvMsg op = \<lparr>CommandType = KVOperation, Data = Some (OpData op)\<rparr>"

definition noMsg :: CommandMsg where
  "noMsg = \<lparr>CommandType = NoOperation, Data = None\<rparr>"

definition shard :: "Op \<Rightarrow> nat" where
  "shard op = nat (key2shard (Key op))"

definition takes_effect :: "shard_view \<Rightarrow> Op \<Rightarrow> bool" where
  "takes_effect v op \<longleftrightarrow> vStates v ! shard op = SERVING \<and> map_get 0 (vSeq v) (ClientID op) < SeqNum op"

definition record_effect :: "shard_view option \<Rightarrow> CommandMsg \<Rightarrow> (nat \<Rightarrow> Op list) \<Rightarrow> nat \<Rightarrow> Op list" where
  "record_effect w m h =
     (case w of
        Some v \<Rightarrow> if CommandType m = KVOperation \<and> takes_effect v (msgOpData m)
                  then h(shard (msgOpData m) := h (shard (msgOpData m)) @ [msgOpData m]) else h
      | None \<Rightarrow> h)"

definition propose :: "int \<Rightarrow> CommandMsg \<Rightarrow> shard_system \<Rightarrow> shard_system" where
  "propose g m s = s\<lparr>pool := (pool s)(g := insert m (pool s g))\<rparr>"

definition commit :: "int \<Rightarrow> CommandMsg \<Rightarrow> shard_system \<Rightarrow> shard_system" where
  "commit g m s = s\<lparr>logs := (logs s)(g := logs s g @ [m]),
     hist := record_effect (group_view g (logs s g)) m (hist s)\<rparr>"

definition init_system :: "ShardCtrler \<Rightarrow> shard_system" where
  "init_system sc = \<lparr>ctrl = sc, logs = (\<lambda>_. []), pool = (\<lambda>_. {}), hist = (\<lambda>_. [])\<rparr>"

inductive shard_reachable :: "(CommandMsg raft_gob list \<Rightarrow> int) \<Rightarrow> shard_system \<Rightarrow> bool" for bl where
  start: "shard_reachable bl (init_system (SC_StartServer now n i ps))"
| control: "shard_reachable bl s \<Longrightarrow> ctrl_step (ctrl s) sc' \<Longrightarrow> shard_reachable bl (s\<lparr>ctrl := sc'\<rparr>)"
| client: "shard_reachable bl s \<Longrightarrow> shard_reachable bl (propose g (kvMsg op) s)"
| empty: "shard_reachable bl s \<Longrightarrow> shard_reachable bl (propose g noMsg s)"
| config: "shard_reachable bl s \<Longrightarrow> skv_replica bl g (logs s g) kv k \<Longrightarrow> c \<in> set (configs (ctrl s)) \<Longrightarrow>
     getLastConfig_check kv c = Some target \<Longrightarrow> SC_getConfig (ctrl s) target = Some cfg \<Longrightarrow>
     shard_reachable bl (propose g (getLastConfig_msg cfg) s)"
| pull: "shard_reachable bl s \<Longrightarrow> skv_replica bl g (logs s g) kv k \<Longrightarrow> skv_replica bl h (logs s h) kvh j \<Longrightarrow>
     ShardsRequestHandler kvh args = Some reply \<Longrightarrow>
     ShardsRequester_reply kv args index True reply = Propose m \<Longrightarrow>
     shard_reachable bl (propose g m s)"
| confirm: "shard_reachable bl s \<Longrightarrow> skv_replica bl g (logs s g) kv0 k0 \<Longrightarrow>
     ShardsConfirm_scan order kv0 = Some (found, servers, owners) \<Longrightarrow> i \<in> set found \<Longrightarrow>
     ShardsConfirm_args kv0 servers owners i = Some (args, names) \<Longrightarrow>
     skv_replica bl (owners ! i) (logs s (owners ! i)) kvh j \<Longrightarrow>
     ShardsConfirmHandler kvh args = Some reply \<Longrightarrow>
     skv_replica bl g (logs s g) kv k \<Longrightarrow> ShardsConfirm_reply kv args True reply = Propose m \<Longrightarrow>
     shard_reachable bl (propose g m s)"
| commit: "shard_reachable bl s \<Longrightarrow> m \<in> pool s g \<Longrightarrow> shard_reachable bl (commit g m s)"

section \<open>Groups and their logs\<close>

lemma group_run_replay: "skvp.replay g log s = group_run g log s"
  by (induction log arbitrary: s) (auto split: Option.bind_split)

lemma group_view_Nil [simp]: "group_view g [] = Some initial_view"
  by (simp add: group_view_def)

lemma group_view_append: "group_view g (log @ log') = do { v \<leftarrow> group_view g log; group_run g log' v }"
  using skvp.replay_append [of g log log' initial_view] by (simp add: group_view_def group_run_replay)

lemma group_view_snoc: "group_view g (log @ [m]) = do { v \<leftarrow> group_view g log; SKV_step g v m }"
  by (simp add: group_view_append)

lemma views_Nil [simp]: "views g [] = {initial_view}"
  by (auto simp: views_def)

lemma views_snoc:
  "views g (log @ [m]) = views g log \<union> {v. group_view g (log @ [m]) = Some v}"
proof -
  have "(\<exists>k. group_view g (take k (log @ [m])) = Some v) \<longleftrightarrow>
      (\<exists>k. group_view g (take k log) = Some v) \<or> group_view g (log @ [m]) = Some v" for v
  proof
    assume "\<exists>k. group_view g (take k (log @ [m])) = Some v"
    then obtain k where k: "group_view g (take k (log @ [m])) = Some v" by blast
    then show "(\<exists>k. group_view g (take k log) = Some v) \<or> group_view g (log @ [m]) = Some v"
      by (cases "k \<le> length log") auto
  next
    assume "(\<exists>k. group_view g (take k log) = Some v) \<or> group_view g (log @ [m]) = Some v"
    then show "\<exists>k. group_view g (take k (log @ [m])) = Some v"
    proof
      assume "\<exists>k. group_view g (take k log) = Some v"
      then obtain k where "group_view g (take k log) = Some v" by blast
      then have "group_view g (take (min k (length log)) (log @ [m])) = Some v" 
        by (cases "k \<le> length log") simp_all
      then show ?thesis by blast
    next
      assume "group_view g (log @ [m]) = Some v"
      then have "group_view g (take (Suc (length log)) (log @ [m])) = Some v" by simp
      then show ?thesis by blast
    qed
  qed
  then show ?thesis by (auto simp: views_def)
qed

lemma group_view_views: "group_view g log = Some v \<Longrightarrow> v \<in> views g log"
  unfolding views_def by (metis (mono_tags) mem_Collect_eq order_refl take_all)

text \<open>A server is in one of the states of its group.\<close>

lemma replica_views: "skv_replica bl g log kv k \<Longrightarrow> skv_view kv \<in> views g log \<and> skv_gid kv = g"
  using skv_replica_stands [of bl g log kv k] skvp.stands_view [of g log kv k]
  by (auto simp: views_def group_view_def group_run_replay)

end
