(* ===== verification/Shard_Migration.thy ===== *)
theory Shard_Migration
  imports Shard_System
begin

text \<open>
  What a configuration change does to the groups. \<open>cs\<close> are the configurations of the controller,
  \<open>past g\<close> the states group \<open>g\<close> has been in and \<open>cur g\<close> the state after its whole log.
\<close>

section \<open>States of a group\<close>

definition cnum :: "shard_view \<Rightarrow> nat" where
  "cnum v = nat (Num (vConfig v))"

definition owner :: "Config list \<Rightarrow> nat \<Rightarrow> nat \<Rightarrow> int" where
  "owner cs n i = Shards (cs ! n) ! i"

text \<open>A shard's state, by the owner in the previous and in the current configuration.\<close>

definition state_ok :: "int \<Rightarrow> nat \<Rightarrow> int \<Rightarrow> int \<Rightarrow> shard_state \<Rightarrow> bool" where
  "state_ok g n prev now st \<longleftrightarrow>
     (case st of
        SERVING \<Rightarrow> 0 < n \<and> now = g
      | PULLING \<Rightarrow> 1 < n \<and> now = g \<and> prev \<noteq> g
      | BEPULLED \<Rightarrow> 1 < n \<and> now \<noteq> g \<and> prev = g
      | NO_SERVING \<Rightarrow> n = 0 \<or> now \<noteq> g
      | UNSET \<Rightarrow> False)"

text \<open>Only shards that are served or wait to be pulled have data.\<close>

definition keys_ok :: "shard_view \<Rightarrow> bool" where
  "keys_ok v \<longleftrightarrow> (\<forall>key. key \<in> fmdom' (vStore v) \<longrightarrow> vStates v ! nat (key2shard key) \<in> {SERVING, BEPULLED})"

definition view_ok :: "Config list \<Rightarrow> int \<Rightarrow> shard_view \<Rightarrow> bool" where
  "view_ok cs g v \<longleftrightarrow>
     cnum v < length cs \<and> vConfig v = cs ! cnum v \<and> vPrev v = cs ! (cnum v - 1) \<and>
     length (vStates v) = NShards \<and>
     (\<forall>i < NShards. state_ok g (cnum v) (owner cs (cnum v - 1) i) (owner cs (cnum v) i) (vStates v ! i)) \<and>
     keys_ok v \<and> (\<forall>c. 0 \<le> map_get 0 (vSeq v) c)"

definition ready :: "shard_view \<Rightarrow> bool" where
  "ready v \<longleftrightarrow> (\<forall>i < NShards. vStates v ! i \<in> {SERVING, NO_SERVING})"

text \<open>Within a configuration a pulled shard gets served and a shard given away is dropped.\<close>

definition state_leads :: "shard_state \<Rightarrow> shard_state \<Rightarrow> bool" where
  "state_leads a b \<longleftrightarrow> b = a \<or> a = PULLING \<and> b = SERVING \<or> a = BEPULLED \<and> b = NO_SERVING"

definition leads :: "shard_view \<Rightarrow> shard_view \<Rightarrow> bool" where
  "leads v w \<longleftrightarrow> cnum v < cnum w \<or>
     cnum v = cnum w \<and> (\<forall>i < NShards. state_leads (vStates v ! i) (vStates w ! i))"

definition shard_data :: "nat \<Rightarrow> kv_map \<Rightarrow> kv_map" where
  "shard_data i st = fmfilter (\<lambda>key. key2shard key = int i) st"

lemma shard_lt: "shard op < NShards" "key2shard (Key op) = int (shard op)"
  using key2shard_range [of "Key op"] by (simp_all add: shard_def)

lemma leads_refl: "leads v v"
  by (simp add: leads_def state_leads_def)

lemma state_leads_trans: "state_leads a b \<Longrightarrow> state_leads b c \<Longrightarrow> state_leads a c"
  by (auto simp: state_leads_def)

lemma leads_trans:
  assumes "leads u v" and "leads v w"
  shows "leads u w"
proof (cases "cnum u < cnum w")
  case False
  with assms have "cnum u = cnum w" "cnum v = cnum w" by (auto simp: leads_def)
  moreover from this assms have "state_leads (vStates u ! i) (vStates w ! i)" if "i < NShards" for i
    using state_leads_trans that by (fastforce simp: leads_def)
  ultimately show ?thesis by (simp add: leads_def)
qed (simp add: leads_def)

lemma leads_ready:
  assumes "leads v w" and "cnum v = cnum w" and "ready v"
  shows "ready w"
  unfolding ready_def
proof (intro allI impI)
  fix i assume "i < NShards"
  with assms have "state_leads (vStates v ! i) (vStates w ! i)" "vStates v ! i \<in> {SERVING, NO_SERVING}"
    by (auto simp: leads_def ready_def)
  then show "vStates w ! i \<in> {SERVING, NO_SERVING}" by (auto simp: state_leads_def)
qed

lemma leads_num: "leads v w \<Longrightarrow> cnum v \<le> cnum w"
  by (auto simp: leads_def)

section \<open>Stores and shards\<close>

lemma shard_data_add:
  "shard_data j (st ++\<^sub>f shard_data i st') =
   (if j = i then shard_data i st ++\<^sub>f shard_data i st' else shard_data j st)"
  by (rule fmap_ext) (auto simp: shard_data_def fmlookup_dom_iff)

lemma shard_data_drop:
  "shard_data j (fmfilter (\<lambda>key. key2shard key \<noteq> int i) st) = (if j = i then fmempty else shard_data j st)"
  by (rule fmap_ext) (auto simp: shard_data_def)

lemma shard_data_effect:
  "shard_data i (KV_effect op st) = (if shard op = i then KV_effect op (shard_data i st) else shard_data i st)"
proof (rule fmap_ext)
  fix key
  have "key2shard (Key op) = int (shard op)" by (rule shard_lt)
  then show "fmlookup (shard_data i (KV_effect op st)) key =
      fmlookup (if shard op = i then KV_effect op (shard_data i st) else shard_data i st) key"
    by (auto simp: shard_data_def KV_effect_def map_get_def)
qed

lemma KV_effect_dom: "fmdom' (KV_effect op st) \<subseteq> insert (Key op) (fmdom' st)"
  by (auto simp: KV_effect_def)

lemma shard_data_empty:
  assumes "keys_ok v" and "vStates v ! i \<notin> {SERVING, BEPULLED}"
  shows "shard_data i (vStore v) = fmempty"
proof (rule fmap_ext)
  fix key
  show "fmlookup (shard_data i (vStore v)) key = fmlookup fmempty key"
  proof (cases "key2shard key = int i")
    case True
    with assms have "key \<notin> fmdom' (vStore v)" by (auto simp: keys_ok_def)
    then show ?thesis by (simp add: shard_data_def fmdom'_notD)
  qed (simp add: shard_data_def)
qed

lemma maxSeq_get: "0 \<le> map_get 0 a c \<Longrightarrow> map_get 0 (maxSeq a b) c = max (map_get 0 a c) (map_get 0 b c)"
  by (auto simp: maxSeq_def map_get_def fmlookup_dom_iff split: option.splits)

section \<open>Messages\<close>

text \<open>The owner of a shard under a configuration has served it.\<close>

definition served :: "Config list \<Rightarrow> (int \<Rightarrow> shard_view set) \<Rightarrow> nat \<Rightarrow> nat \<Rightarrow> bool" where
  "served cs past n i \<longleftrightarrow> (\<exists>v \<in> past (owner cs n i). cnum v = n \<and> vStates v ! i = SERVING)"

definition pullMsg :: "ShardRequestMsg \<Rightarrow> CommandMsg" where
  "pullMsg r = \<lparr>CommandType = ShardRequestOperation, Data = Some (ShardRequestData r)\<rparr>"

definition confirmMsg :: "ShardConfirmMsg \<Rightarrow> CommandMsg" where
  "confirmMsg f = \<lparr>CommandType = ShardConfirmOperation, Data = Some (ShardConfirmData f)\<rparr>"

text \<open>Where a proposed command comes from: the next configuration is proposed by a server that was
  ready for it, a shard was read from a group that gives it away, and it was seen at its new owner
  before the old one is told to drop it.\<close>

definition config_proposed :: "Config list \<Rightarrow> shard_view set \<Rightarrow> CommandMsg \<Rightarrow> bool" where
  "config_proposed cs P m \<longleftrightarrow>
     (\<exists>n. Suc n < length cs \<and> m = getLastConfig_msg (cs ! Suc n) \<and> (\<exists>v \<in> P. cnum v = n \<and> (n = 0 \<or> ready v)))"

definition pull_proposed :: "(int \<Rightarrow> shard_view set) \<Rightarrow> CommandMsg \<Rightarrow> bool" where
  "pull_proposed past m \<longleftrightarrow>
     (\<exists>r h w i. m = pullMsg r \<and> i < NShards \<and> w \<in> past h \<and> vStates w ! i = BEPULLED \<and>
        srmShardIndex r = int i \<and> srmConfigNum r = int (cnum w) \<and>
        srmShardData r = shard_data i (vStore w) \<and> srmClientSeqNum r = vSeq w)"

definition confirm_proposed :: "Config list \<Rightarrow> (int \<Rightarrow> shard_view set) \<Rightarrow> CommandMsg \<Rightarrow> bool" where
  "confirm_proposed cs past m \<longleftrightarrow>
     (\<exists>f n i. m = confirmMsg f \<and> i < NShards \<and> scmShardIndex f = int i \<and> scmConfigNum f = int n \<and> served cs past n i)"

definition msg_ok :: "Config list \<Rightarrow> (int \<Rightarrow> shard_view set) \<Rightarrow> int \<Rightarrow> CommandMsg \<Rightarrow> bool" where
  "msg_ok cs past g m \<longleftrightarrow>
     (\<exists>op. m = kvMsg op) \<or> m = noMsg \<or> config_proposed cs (past g) m \<or> pull_proposed past m \<or>
     confirm_proposed cs past m"

section \<open>Moves of a group\<close>

inductive view_moves ::
  "Config list \<Rightarrow> (int \<Rightarrow> shard_view set) \<Rightarrow> int \<Rightarrow> shard_view \<Rightarrow> CommandMsg \<Rightarrow> shard_view \<Rightarrow> bool"
  for cs past g v m where
  idle: "\<not> (CommandType m = KVOperation \<and> takes_effect v (msgOpData m)) \<Longrightarrow> view_moves cs past g v m v"
| op: "m = kvMsg op \<Longrightarrow> vStates v ! shard op = SERVING \<Longrightarrow>
     view_moves cs past g v m (v\<lparr>vStore := fst (KV_step (vStore v, vSeq v) op), vSeq := snd (KV_step (vStore v, vSeq v) op)\<rparr>)"
| config: "CommandType m \<noteq> KVOperation \<Longrightarrow> Suc (cnum v) < length cs \<Longrightarrow> cnum v = 0 \<or> ready v \<Longrightarrow>
     view_moves cs past g v m (v\<lparr>vPrev := cs ! cnum v, vConfig := cs ! Suc (cnum v),
       vStates := next_states g (cs ! cnum v) (cs ! Suc (cnum v)) (vStates v)\<rparr>)"
| pull: "CommandType m \<noteq> KVOperation \<Longrightarrow> i < NShards \<Longrightarrow> vStates v ! i = PULLING \<Longrightarrow>
     w \<in> past h \<Longrightarrow> vStates w ! i = BEPULLED \<Longrightarrow> cnum w = cnum v \<Longrightarrow>
     view_moves cs past g v m (v\<lparr>vStore := vStore v ++\<^sub>f shard_data i (vStore w),
       vSeq := maxSeq (vSeq v) (vSeq w), vStates := (vStates v)[i := SERVING]\<rparr>)"
| confirm: "CommandType m \<noteq> KVOperation \<Longrightarrow> i < NShards \<Longrightarrow> vStates v ! i = BEPULLED \<Longrightarrow> served cs past (cnum v) i \<Longrightarrow>
     view_moves cs past g v m (v\<lparr>vStore := fmfilter (\<lambda>key. key2shard key \<noteq> int i) (vStore v),
       vStates := (vStates v)[i := NO_SERVING]\<rparr>)"

lemma cnum_cfg:
  assumes "configs_wf cs" and "view_ok cs g v"
  shows "Num (vConfig v) = int (cnum v)"
  using assms by (metis configs_wf_def view_ok_def)

lemma slice_state:
  assumes "view_ok cs g v" and "i < NShards"
  shows "slice_get (vStates v) (int i) = Some (vStates v ! i)"
  using assms by (simp add: view_ok_def slice_get_nat)

lemma step_op_moves:
  assumes "view_ok cs g v"
  shows "\<exists>v'. SKV_step g v (kvMsg op) = Some v' \<and> view_moves cs past g v (kvMsg op) v'"
proof (cases "vStates v ! shard op = SERVING")
  case True
  have "SKV_step g v (kvMsg op) =
      Some (v\<lparr>vStore := fst (KV_step (vStore v, vSeq v) op), vSeq := snd (KV_step (vStore v, vSeq v) op)\<rparr>)"
    using slice_state [OF assms shard_lt(1)] True
    by (simp add: SKV_step_def kvMsg_def msgOpData_def step_op_def shard_lt(2))
  with view_moves.op [OF refl True] show ?thesis by blast
next
  case False
  have "SKV_step g v (kvMsg op) = Some v"
    using slice_state [OF assms shard_lt(1)] False
    by (simp add: SKV_step_def kvMsg_def msgOpData_def step_op_def shard_lt(2))
  moreover have "\<not> takes_effect v (msgOpData (kvMsg op))"
    using False by (simp add: takes_effect_def msgOpData_def kvMsg_def)
  ultimately show ?thesis using view_moves.idle by blast
qed

lemma msgConfig_copy: "msgConfig \<lparr>cmNum = Num c, cmShards = Shards c, cmGroups = Groups c\<rparr> = c"
  by (simp add: msgConfig_def)

lemma step_config_moves:
  assumes "configs_wf cs" and "view_ok cs g v" and "config_proposed cs P m"
    and "\<And>w. w \<in> P \<Longrightarrow> leads w v"
  shows "\<exists>v'. SKV_step g v m = Some v' \<and> view_moves cs past g v m v'"
proof -
  obtain n w where n: "Suc n < length cs" "m = getLastConfig_msg (cs ! Suc n)" "w \<in> P" "cnum w = n" "n = 0 \<or> ready w"
    using assms(3) by (auto simp: config_proposed_def)
  have types: "CommandType m = ConfigOperation" "CommandType m \<noteq> KVOperation"
    using n(2) by (simp_all add: getLastConfig_msg_def operation_types)
  have le: "n \<le> cnum v" using leads_num [OF assms(4) [OF n(3)]] n(4) by simp
  have num: "Num (vConfig v) = int (cnum v)" "Num (cs ! Suc n) = int (Suc n)" "vConfig v = cs ! cnum v"
    using cnum_cfg [OF assms(1,2)] n(1) assms(1,2) by (auto simp: configs_wf_def view_ok_def)
  have step: "SKV_step g v m = Some (if cnum v = 0 \<or> Suc n = Suc (cnum v)
      then v\<lparr>vPrev := vConfig v, vConfig := cs ! Suc n, vStates := next_states g (vConfig v) (cs ! Suc n) (vStates v)\<rparr>
      else v)"
    using n(2) num msgConfig_copy [of "cs ! Suc n"]
    by (simp add: SKV_step_def getLastConfig_msg_def operation_types step_config_def)
  show ?thesis
  proof (cases "n = cnum v")
    case True
    have "cnum v = 0 \<or> ready v" using leads_ready [OF assms(4) [OF n(3)]] n(4,5) True by auto
    with view_moves.config [OF types(2), of v cs] n(1) True num(3) step show ?thesis by auto
  next
    case False
    then have "SKV_step g v m = Some v" using step le by auto
    with view_moves.idle [of m v] types show ?thesis by blast
  qed
qed

lemma step_pull_moves:
  assumes "configs_wf cs" and "view_ok cs g v" and "pull_proposed past m"
  shows "\<exists>v'. SKV_step g v m = Some v' \<and> view_moves cs past g v m v'"
proof -
  obtain r h w i where r: "m = pullMsg r" "i < NShards" "w \<in> past h" "vStates w ! i = BEPULLED"
      "srmShardIndex r = int i" "srmConfigNum r = int (cnum w)" "srmShardData r = shard_data i (vStore w)"
      "srmClientSeqNum r = vSeq w"
    using assms(3) by (auto simp: pull_proposed_def)
  have type: "CommandType m \<noteq> KVOperation" using r(1) by (simp add: pullMsg_def operation_types)
  note num = cnum_cfg [OF assms(1,2)] and st = slice_state [OF assms(2) r(2)]
  show ?thesis
  proof (cases "cnum w = cnum v \<and> vStates v ! i = PULLING")
    case True
    then have "SKV_step g v m = Some (v\<lparr>vStore := vStore v ++\<^sub>f shard_data i (vStore w),
       vSeq := maxSeq (vSeq v) (vSeq w), vStates := (vStates v)[i := SERVING]\<rparr>)"
      using r num st by (simp add: SKV_step_def pullMsg_def operation_types step_pull_def)
    with view_moves.pull [of m i v w past h cs g] type r(2-4) True show ?thesis by blast
  next
    case False
    then have "SKV_step g v m = Some v"
      using r num st by (auto simp: SKV_step_def pullMsg_def operation_types step_pull_def)
    with view_moves.idle [of m v] type show ?thesis by blast
  qed
qed

lemma step_confirm_moves:
  assumes "configs_wf cs" and "view_ok cs g v" and "confirm_proposed cs past m"
  shows "\<exists>v'. SKV_step g v m = Some v' \<and> view_moves cs past g v m v'"
proof -
  obtain f n i where f: "m = confirmMsg f" "i < NShards" "scmShardIndex f = int i" "scmConfigNum f = int n"
      "served cs past n i"
    using assms(3) by (auto simp: confirm_proposed_def)
  have type: "CommandType m \<noteq> KVOperation" using f(1) by (simp add: confirmMsg_def operation_types)
  note num = cnum_cfg [OF assms(1,2)] and st = slice_state [OF assms(2) f(2)]
  show ?thesis
  proof (cases "n = cnum v \<and> vStates v ! i = BEPULLED")
    case True
    then have "SKV_step g v m = Some (v\<lparr>vStore := fmfilter (\<lambda>key. key2shard key \<noteq> int i) (vStore v),
       vStates := (vStates v)[i := NO_SERVING]\<rparr>)"
      using f num st by (simp add: SKV_step_def confirmMsg_def operation_types step_confirm_def)
    with view_moves.confirm [of m i v cs past g] type f(2,5) True show ?thesis by blast
  next
    case False
    then have "SKV_step g v m = Some v"
      using f num st by (auto simp: SKV_step_def confirmMsg_def operation_types step_confirm_def)
    with view_moves.idle [of m v] type show ?thesis by blast
  qed
qed

text \<open>A proposed command never makes a group panic.\<close>

lemma msg_moves:
  assumes "configs_wf cs" and "view_ok cs g v" and "msg_ok cs past g m" and "\<And>w. w \<in> past g \<Longrightarrow> leads w v"
  shows "\<exists>v'. SKV_step g v m = Some v' \<and> view_moves cs past g v m v'"
proof -
  have "SKV_step g v noMsg = Some v" "CommandType noMsg \<noteq> KVOperation"
    by (simp_all add: SKV_step_def noMsg_def operation_types)
  then have "\<exists>v'. SKV_step g v noMsg = Some v' \<and> view_moves cs past g v noMsg v'"
    using view_moves.idle by blast
  with assms step_op_moves [OF assms(2)] step_config_moves [OF assms(1,2) _ assms(4)]
    step_pull_moves [OF assms(1,2)] step_confirm_moves [OF assms(1,2)]
  show ?thesis unfolding msg_ok_def by blast
qed

section \<open>Moves keep a group's state consistent\<close>

lemma view_okD:
  assumes "view_ok cs g v"
  shows "cnum v < length cs" "vConfig v = cs ! cnum v" "vPrev v = cs ! (cnum v - 1)" "length (vStates v) = NShards"
    "i < NShards \<Longrightarrow> state_ok g (cnum v) (owner cs (cnum v - 1) i) (owner cs (cnum v) i) (vStates v ! i)"
    "keys_ok v" "0 \<le> map_get 0 (vSeq v) c"
  using assms by (simp_all add: view_ok_def)

lemma cnum_upd [simp]:
  "cnum (v\<lparr>vStore := st\<rparr>) = cnum v" "cnum (v\<lparr>vSeq := sq\<rparr>) = cnum v" "cnum (v\<lparr>vStates := ss\<rparr>) = cnum v"
  "cnum (v\<lparr>vPrev := p\<rparr>) = cnum v"
  by (simp_all add: cnum_def)

lemma cnum_config:
  "configs_wf cs \<Longrightarrow> n < length cs \<Longrightarrow> cnum (v\<lparr>vPrev := p, vConfig := cs ! n, vStates := ss\<rparr>) = n"
  by (simp add: cnum_def configs_wf_def)

lemma KV_step_seq: "map_get 0 (snd (KV_step s op)) c =
    (if ClientID op = c \<and> map_get 0 (snd s) c < SeqNum op then SeqNum op else map_get 0 (snd s) c)"
  by (auto simp: KV_step_def map_get_upd)

lemma KV_step_dom: "fmdom' (fst (KV_step s op)) \<subseteq> insert (Key op) (fmdom' (fst s))"
  using KV_effect_dom [of op "fst s"] by (auto simp: KV_step_def)

lemma next_states_nth:
  assumes "configs_wf cs" and "n < length cs" and "i < NShards"
  shows "next_states g (cs ! n) (cs ! Suc n) ss ! i =
    (if n = 0 then if owner cs (Suc n) i = g then SERVING else ss ! i
     else next_state g (owner cs n i) (owner cs (Suc n) i))"
proof -
  have "Num (cs ! n) = int n" using assms(1,2) by (simp add: configs_wf_def)
  with assms(3) show ?thesis by (simp add: next_states_def owner_def)
qed

lemma view_ok_op:
  assumes "view_ok cs g v" and "vStates v ! shard op = SERVING"
  shows "view_ok cs g (v\<lparr>vStore := fst (KV_step (vStore v, vSeq v) op), vSeq := snd (KV_step (vStore v, vSeq v) op)\<rparr>)"
proof -
  have "vStates v ! nat (key2shard key) \<in> {SERVING, BEPULLED}"
    if "key \<in> fmdom' (fst (KV_step (vStore v, vSeq v) op))" for key
    using KV_step_dom [of "(vStore v, vSeq v)" op] that assms view_okD(6) [OF assms(1)]
    by (auto simp: keys_ok_def shard_def)
  moreover have "0 \<le> map_get 0 (snd (KV_step (vStore v, vSeq v) op)) c" for c
    using view_okD(7) [OF assms(1), of c] by (auto simp: KV_step_seq)
  ultimately show ?thesis using assms(1) by (simp add: view_ok_def keys_ok_def)
qed

lemma view_ok_config:
  assumes "configs_wf cs" and "view_ok cs g v" and "Suc (cnum v) < length cs" and "cnum v = 0 \<or> ready v"
  shows "view_ok cs g (v\<lparr>vPrev := cs ! cnum v, vConfig := cs ! Suc (cnum v),
       vStates := next_states g (cs ! cnum v) (cs ! Suc (cnum v)) (vStates v)\<rparr>)" (is "view_ok cs g ?v")
proof -
  let ?n = "cnum v"
  have num: "cnum ?v = Suc ?n" using cnum_config [OF assms(1,3)] .
  note nth = next_states_nth [OF assms(1), of ?n _ g "vStates v"]
  have states: "vStates ?v ! i =
      (if ?n = 0 then if owner cs (Suc ?n) i = g then SERVING else vStates v ! i
       else next_state g (owner cs ?n i) (owner cs (Suc ?n) i))" if "i < NShards" for i
    using nth that assms(3) by simp
  have ok: "state_ok g (Suc ?n) (owner cs ?n i) (owner cs (Suc ?n) i) (vStates ?v ! i)" if i: "i < NShards" for i
    using states [OF i] view_okD(5) [OF assms(2) i]
    by (auto simp: state_ok_def next_state_def split: shard_state.splits if_splits)
  have "vStates ?v ! nat (key2shard key) \<in> {SERVING, BEPULLED}" if "key \<in> fmdom' (vStore v)" for key
  proof -
    let ?i = "nat (key2shard key)"
    have i: "?i < NShards" using key2shard_range [of key] by (simp add: NShards_def)
    have "vStates v ! ?i \<in> {SERVING, BEPULLED}" using view_okD(6) [OF assms(2)] that by (simp add: keys_ok_def)
    with view_okD(5) [OF assms(2) i] assms(4) i have "0 < ?n" "vStates v ! ?i = SERVING"
      by (auto simp: state_ok_def ready_def)
    with view_okD(5) [OF assms(2) i] have "owner cs ?n ?i = g" by (simp add: state_ok_def)
    with states [OF i] \<open>0 < ?n\<close> show ?thesis by (auto simp: next_state_def)
  qed
  then have "keys_ok ?v" by (simp add: keys_ok_def)
  with num ok assms(3) view_okD(7) [OF assms(2)] show ?thesis
    by (simp add: view_ok_def next_states_def)
qed

lemma view_ok_pull:
  assumes "view_ok cs g v" and "view_ok cs h w" and "i < NShards" and "vStates v ! i = PULLING"
  shows "view_ok cs g (v\<lparr>vStore := vStore v ++\<^sub>f shard_data i (vStore w),
       vSeq := maxSeq (vSeq v) (vSeq w), vStates := (vStates v)[i := SERVING]\<rparr>)" (is "view_ok cs g ?v")
proof -
  have "vStates ?v ! nat (key2shard key) \<in> {SERVING, BEPULLED}" if "key \<in> fmdom' (vStore ?v)" for key
  proof (cases "key2shard key = int i")
    case True
    with view_okD(4) [OF assms(1)] assms(3) show ?thesis by simp
  next
    case False
    with that have "key \<in> fmdom' (vStore v)" by (auto simp: shard_data_def fmlookup_dom'_iff)
    moreover have "nat (key2shard key) \<noteq> i" using False key2shard_range [of key] by auto
    ultimately show ?thesis using view_okD(6) [OF assms(1)] by (simp add: keys_ok_def)
  qed
  moreover have "0 \<le> map_get 0 (maxSeq (vSeq v) (vSeq w)) c" for c
    using view_okD(7) [OF assms(1), of c] by (simp add: maxSeq_get)
  moreover have "state_ok g (cnum v) (owner cs (cnum v - 1) j) (owner cs (cnum v) j) ((vStates v)[i := SERVING] ! j)"
    if "j < NShards" for j
    using view_okD(5) [OF assms(1) that] view_okD(4) [OF assms(1)] assms(3,4) that
    by (cases "j = i") (auto simp: state_ok_def)
  ultimately show ?thesis using assms(1) by (simp add: view_ok_def keys_ok_def)
qed

lemma view_ok_confirm:
  assumes "view_ok cs g v" and "i < NShards" and "vStates v ! i = BEPULLED"
  shows "view_ok cs g (v\<lparr>vStore := fmfilter (\<lambda>key. key2shard key \<noteq> int i) (vStore v),
       vStates := (vStates v)[i := NO_SERVING]\<rparr>)" (is "view_ok cs g ?v")
proof -
  have "vStates ?v ! nat (key2shard key) \<in> {SERVING, BEPULLED}" if "key \<in> fmdom' (vStore ?v)" for key
  proof -
    have "key \<in> fmdom' (vStore v)" "nat (key2shard key) \<noteq> i"
      using that key2shard_range [of key] by (auto simp: fmlookup_dom'_iff split: if_splits)
    with view_okD(6) [OF assms(1)] show ?thesis by (simp add: keys_ok_def)
  qed
  moreover have "state_ok g (cnum v) (owner cs (cnum v - 1) j) (owner cs (cnum v) j) ((vStates v)[i := NO_SERVING] ! j)"
    if "j < NShards" for j
    using view_okD(5) [OF assms(1) that] view_okD(4) [OF assms(1)] assms(2,3) that
    by (cases "j = i") (auto simp: state_ok_def)
  ultimately show ?thesis using assms(1) by (simp add: view_ok_def keys_ok_def)
qed

lemma move_ok:
  assumes "view_moves cs past g v m v'" and "configs_wf cs" and "view_ok cs g v"
    and "\<And>h w. w \<in> past h \<Longrightarrow> view_ok cs h w"
  shows "view_ok cs g v'"
  using assms(1)
proof cases
  case (pull i w h)
  then show ?thesis using view_ok_pull [OF assms(3) assms(4) [of w h]] by simp
qed (use assms(2,3) view_ok_op view_ok_config view_ok_confirm in auto)

lemma move_leads:
  assumes "view_moves cs past g v m v'" and "configs_wf cs" and "view_ok cs g v"
  shows "leads v v'"
  using assms(1)
proof cases
  case config
  then show ?thesis using cnum_config [OF assms(2)] by (simp add: leads_def)
next
  case (pull i w h)
  then show ?thesis using view_okD(4) [OF assms(3)]
    by (auto simp: leads_def state_leads_def nth_list_update)
next
  case (confirm i)
  then show ?thesis using view_okD(4) [OF assms(3)]
    by (auto simp: leads_def state_leads_def nth_list_update)
qed (simp_all add: leads_def state_leads_def)

end
