(* ===== verification/Shard_Safety.thy ===== *)
theory Shard_Safety
  imports Shard_Migration
begin

text \<open>
  The invariant of the sharded store. It has a part for the groups, that shards are handed from
  owner to owner in the order of the configurations, and a part for the data, that whoever holds
  a shard holds the result of the shard's history.
\<close>

section \<open>Where shards come from and go to\<close>

lemma move_cnum:
  assumes "view_moves cs past g v m v'" and "configs_wf cs"
  shows "cnum v' = cnum v \<or> cnum v' = Suc (cnum v) \<and> (cnum v = 0 \<or> ready v)"
  using assms(1)
proof cases
  case config
  then show ?thesis using cnum_config [OF assms(2)] by simp
qed simp_all

text \<open>Every way the state of a shard can change.\<close>

lemma move_state:
  assumes "view_moves cs past g v m v'" and "configs_wf cs" and "view_ok cs g v" and "i < NShards"
  obtains
    (same) "cnum v' = cnum v" "vStates v' ! i = vStates v ! i"
  | (pulled) w h where "cnum v' = cnum v" "vStates v ! i = PULLING" "vStates v' ! i = SERVING"
      "w \<in> past h" "vStates w ! i = BEPULLED" "cnum w = cnum v"
  | (confirmed) "cnum v' = cnum v" "vStates v ! i = BEPULLED" "vStates v' ! i = NO_SERVING" "served cs past (cnum v) i"
  | (first) "cnum v = 0" "cnum v' = 1" "vStates v ! i = NO_SERVING"
      "vStates v' ! i = (if owner cs 1 i = g then SERVING else NO_SERVING)"
  | (nextcfg) "0 < cnum v" "cnum v' = Suc (cnum v)" "vStates v ! i = (if owner cs (cnum v) i = g then SERVING else NO_SERVING)"
      "vStates v' ! i = next_state g (owner cs (cnum v) i) (owner cs (Suc (cnum v)) i)"
  using assms(1)
proof cases
  case config
  have num: "cnum v' = Suc (cnum v)" using config cnum_config [OF assms(2)] by simp
  have st: "vStates v' ! i = (if cnum v = 0 then if owner cs (Suc (cnum v)) i = g then SERVING else vStates v ! i
      else next_state g (owner cs (cnum v) i) (owner cs (Suc (cnum v)) i))"
    using config next_states_nth [OF assms(2), of "cnum v" i g "vStates v"] assms(4) by simp
  note ok = view_okD(5) [OF assms(3,4)]
  show ?thesis
  proof (cases "cnum v = 0")
    case True
    with ok have "vStates v ! i = NO_SERVING" by (auto simp: state_ok_def split: shard_state.splits)
    with True num st show ?thesis by (intro first) auto
  next
    case False
    with ok config(4) assms(4) have "vStates v ! i = (if owner cs (cnum v) i = g then SERVING else NO_SERVING)"
      by (auto simp: state_ok_def ready_def)
    with False num st show ?thesis by (intro nextcfg) auto
  qed
next
  case (pull j w h)
  then show ?thesis using view_okD(4) [OF assms(3)] assms(4) by (cases "j = i") (auto intro: same pulled)
next
  case (confirm j)
  then show ?thesis using view_okD(4) [OF assms(3)] assms(4) by (cases "j = i") (auto intro: same confirmed)
qed (auto intro: same)

section \<open>The invariant of the groups\<close>

text \<open>
  Every state is consistent and leads to the group's current one; a group enters the next
  configuration only when it was ready; a shard served under a configuration was served under the
  previous one, whose owner either keeps it or has moved on; a shard that waits to be pulled was
  served; and the last owner that served a shard still holds it.
\<close>

definition past_ok :: "Config list \<Rightarrow> (int \<Rightarrow> shard_view set) \<Rightarrow> (int \<Rightarrow> shard_view) \<Rightarrow> bool" where
  "past_ok cs past cur \<longleftrightarrow> (\<forall>g. cur g \<in> past g \<and> (\<forall>v \<in> past g. view_ok cs g v \<and> leads v (cur g)))"

definition steps_ok :: "(int \<Rightarrow> shard_view set) \<Rightarrow> bool" where
  "steps_ok past \<longleftrightarrow>
     (\<forall>g n. \<forall>v \<in> past g. cnum v = Suc n \<longrightarrow> 0 < n \<longrightarrow> (\<exists>w \<in> past g. cnum w = n \<and> ready w))"

definition chain_ok :: "Config list \<Rightarrow> (int \<Rightarrow> shard_view set) \<Rightarrow> bool" where
  "chain_ok cs past \<longleftrightarrow>
     (\<forall>n i. i < NShards \<longrightarrow> 0 < n \<longrightarrow> served cs past (Suc n) i \<longrightarrow>
        served cs past n i \<and>
        (owner cs n i = owner cs (Suc n) i \<or> (\<exists>w \<in> past (owner cs n i). cnum w = Suc n)))"

definition given_ok :: "Config list \<Rightarrow> (int \<Rightarrow> shard_view set) \<Rightarrow> bool" where
  "given_ok cs past \<longleftrightarrow>
     (\<forall>g i. \<forall>v \<in> past g. i < NShards \<longrightarrow> vStates v ! i = BEPULLED \<longrightarrow> served cs past (cnum v - 1) i)"

definition keeps :: "shard_view \<Rightarrow> nat \<Rightarrow> nat \<Rightarrow> bool" where
  "keeps c n i \<longleftrightarrow> cnum c = n \<and> vStates c ! i = SERVING \<or> cnum c = Suc n \<and> vStates c ! i = BEPULLED"

definition held_ok :: "Config list \<Rightarrow> (int \<Rightarrow> shard_view set) \<Rightarrow> (int \<Rightarrow> shard_view) \<Rightarrow> bool" where
  "held_ok cs past cur \<longleftrightarrow>
     (\<forall>n i. i < NShards \<longrightarrow> 0 < n \<longrightarrow> served cs past n i \<longrightarrow> \<not> served cs past (Suc n) i \<longrightarrow>
        keeps (cur (owner cs n i)) n i)"

definition groups_inv :: "Config list \<Rightarrow> (int \<Rightarrow> shard_view set) \<Rightarrow> (int \<Rightarrow> shard_view) \<Rightarrow> bool" where
  "groups_inv cs past cur \<longleftrightarrow>
     configs_wf cs \<and> past_ok cs past cur \<and> steps_ok past \<and> chain_ok cs past \<and> given_ok cs past \<and> held_ok cs past cur"

lemma groups_inv_parts:
  assumes "groups_inv cs past cur"
  shows "past_ok cs past cur" "steps_ok past" "chain_ok cs past" "given_ok cs past" "held_ok cs past cur"
  using assms by (simp_all add: groups_inv_def)

lemma groups_invD:
  assumes "groups_inv cs past cur"
  shows "configs_wf cs" "cur g \<in> past g" "v \<in> past g \<Longrightarrow> view_ok cs g v" "v \<in> past g \<Longrightarrow> leads v (cur g)"
    "view_ok cs g (cur g)"
  using assms by (auto simp: groups_inv_def past_ok_def)

lemma served_serving:
  assumes "groups_inv cs past cur" and "v \<in> past g" and "i < NShards" and "vStates v ! i = SERVING"
  shows "served cs past (cnum v) i" "owner cs (cnum v) i = g" "0 < cnum v"
  using view_okD(5) [OF groups_invD(3) [OF assms(1,2)] assms(3)] assms(2,4)
  by (auto simp: served_def state_ok_def)

lemma bepulled_facts:
  assumes "groups_inv cs past cur" and "v \<in> past g" and "i < NShards" and "vStates v ! i = BEPULLED"
  shows "served cs past (cnum v - 1) i" "owner cs (cnum v - 1) i = g" "1 < cnum v"
proof -
  show "owner cs (cnum v - 1) i = g" "1 < cnum v"
    using view_okD(5) [OF groups_invD(3) [OF assms(1,2)] assms(3)] assms(4) by (simp_all add: state_ok_def)
  show "served cs past (cnum v - 1) i"
    using groups_inv_parts(4) [OF assms(1)] assms(2-4) unfolding given_ok_def by blast
qed

lemma chainD:
  assumes "groups_inv cs past cur" and "i < NShards" and "0 < n" and "served cs past (Suc n) i"
  shows "served cs past n i"
    "owner cs n i = owner cs (Suc n) i \<or> (\<exists>w \<in> past (owner cs n i). cnum w = Suc n)"
  using groups_inv_parts(3) [OF assms(1), unfolded chain_ok_def, rule_format, OF assms(2-4)] by simp_all

lemma served_down:
  assumes "groups_inv cs past cur" and "i < NShards" and "served cs past n i" and "0 < l" and "l \<le> n"
  shows "served cs past l i"
  using assms(5,3)
proof (induction rule: dec_induct)
  case (step n)
  have "0 < n" using step.hyps assms(4) by simp
  from step.IH [OF chainD(1) [OF assms(1,2) this step.prems]] show ?case .
qed

text \<open>Between two configurations under which a shard is served, its earlier owner still owns it or
  has entered a later configuration.\<close>

lemma chain_owner:
  assumes "groups_inv cs past cur" and "i < NShards" and "served cs past m i" and "0 < n" and "n \<le> m"
  shows "owner cs n i = owner cs m i \<or> (\<exists>w \<in> past (owner cs n i). n < cnum w)"
  using assms(5,3)
proof (induction rule: dec_induct)
  case (step m)
  have "0 < m" using step.hyps assms(4) by simp
  note s = chainD [OF assms(1,2) this step.prems]
  from step.IH [OF s(1)] show ?case
  proof
    assume "owner cs n i = owner cs m i"
    with s(2) step.hyps(1) show ?thesis by (metis le_imp_less_Suc)
  qed simp
qed simp

lemma owner_stays:
  assumes "groups_inv cs past cur" and "i < NShards" and "served cs past m i" and "0 < n" and "n \<le> m"
    and "owner cs n i = g" and "cnum (cur g) = n"
  shows "owner cs m i = g"
proof -
  have "\<not> (\<exists>w \<in> past g. n < cnum w)"
    using leads_num [OF groups_invD(4) [OF assms(1)], of _ g] assms(7) by (auto simp: not_less)
  with chain_owner [OF assms(1-5)] assms(6) show ?thesis by simp
qed

text \<open>At any time one group at most serves a shard.\<close>

lemma one_server:
  assumes "groups_inv cs past cur" and "i < NShards"
    and "vStates (cur g) ! i = SERVING" and "vStates (cur h) ! i = SERVING"
  shows "g = h"
proof -
  have *: "g = h" if "cnum (cur g) \<le> cnum (cur h)" "vStates (cur g) ! i = SERVING" "vStates (cur h) ! i = SERVING" for g h
  proof -
    note sg = served_serving [OF assms(1) groups_invD(2) [OF assms(1)] assms(2) that(2)]
    note sh = served_serving [OF assms(1) groups_invD(2) [OF assms(1)] assms(2) that(3)]
    from owner_stays [OF assms(1,2) sh(1) sg(3) that(1) sg(2) refl] sh(2) show ?thesis by simp
  qed
  show ?thesis using * [of g h] * [of h g] assms(3,4) by linarith
qed

text \<open>While a group serves a shard, every copy of it that waits to be pulled has been pulled.\<close>

lemma no_pending:
  assumes "groups_inv cs past cur" and "i < NShards" and "vStates (cur g) ! i = SERVING"
    and "w \<in> past h" and "vStates w ! i = BEPULLED"
  shows "served cs past (cnum w) i"
proof (cases "cnum w \<le> cnum (cur g)")
  case True
  note sg = served_serving [OF assms(1) groups_invD(2) [OF assms(1)] assms(2,3)]
  from served_down [OF assms(1,2) sg(1) _ True] bepulled_facts(3) [OF assms(1,4,2,5)] show ?thesis by simp
next
  case False
  note sg = served_serving [OF assms(1) groups_invD(2) [OF assms(1)] assms(2,3)]
  note b = bepulled_facts [OF assms(1,4,2,5)]
  from owner_stays [OF assms(1,2) b(1) sg(3) _ sg(2) refl] b(2) False have "h = g" by simp
  with leads_num [OF groups_invD(4) [OF assms(1,4)]] False show ?thesis by simp
qed

section \<open>The invariant is kept\<close>

definition add_view :: "int \<Rightarrow> shard_view \<Rightarrow> (int \<Rightarrow> shard_view set) \<Rightarrow> int \<Rightarrow> shard_view set" where
  "add_view g v past = past(g := insert v (past g))"

lemma add_view_iff: "w \<in> add_view g v past h \<longleftrightarrow> w \<in> past h \<or> h = g \<and> w = v"
  by (auto simp: add_view_def)

lemma served_mono: "served cs past n i \<Longrightarrow> served cs (add_view g v past) n i"
  by (auto simp: served_def add_view_iff)

lemma served_add:
  "served cs (add_view g v past) n i \<longleftrightarrow>
   served cs past n i \<or> owner cs n i = g \<and> cnum v = n \<and> vStates v ! i = SERVING"
  by (auto simp: served_def add_view_iff)

lemma past_ok_move:
  assumes inv: "groups_inv cs past cur" and move: "view_moves cs past g (cur g) m v'"
  shows "past_ok cs (add_view g v' past) (cur(g := v'))"
proof -
  note D = groups_invD [OF inv]
  have "view_ok cs g v'" by (rule move_ok [OF move D(1) D(5) D(3)])
  moreover have "leads (cur g) v'" by (rule move_leads [OF move D(1) D(5)])
  ultimately show ?thesis
    using D(2,3,4) leads_trans leads_refl by (fastforce simp: past_ok_def add_view_iff)
qed

lemma steps_ok_move:
  assumes inv: "groups_inv cs past cur" and move: "view_moves cs past g (cur g) m v'"
  shows "steps_ok (add_view g v' past)"
  unfolding steps_ok_def
proof (intro allI ballI impI)
  fix h n w assume w: "w \<in> add_view g v' past h" "cnum w = Suc n" "0 < n"
  have old: "\<exists>u \<in> past h. cnum u = n \<and> ready u" if "w' \<in> past h" "cnum w' = Suc n" for w'
    using groups_inv_parts(2) [OF inv] that w(3) unfolding steps_ok_def by blast
  have "\<exists>u \<in> past h. cnum u = n \<and> ready u"
  proof (cases "w \<in> past h")
    case True
    with old w(2) show ?thesis by blast
  next
    case False
    then have h: "h = g" "w = v'" using w(1) by (auto simp: add_view_iff)
    from move_cnum [OF move groups_invD(1) [OF inv]] show ?thesis
    proof
      assume "cnum v' = cnum (cur g)"
      with old [of "cur g"] h w(2) groups_invD(2) [OF inv] show ?thesis by simp
    next
      assume "cnum v' = Suc (cnum (cur g)) \<and> (cnum (cur g) = 0 \<or> ready (cur g))"
      with h w(2,3) groups_invD(2) [OF inv] show ?thesis by auto
    qed
  qed
  then show "\<exists>u \<in> add_view g v' past h. cnum u = n \<and> ready u" by (auto simp: add_view_iff)
qed

lemma newly_served:
  assumes inv: "groups_inv cs past cur" and move: "view_moves cs past g (cur g) m v'" and i: "i < NShards"
    and new: "vStates v' ! i = SERVING" "\<not> served cs past (cnum v') i" and n: "cnum v' = Suc n" "0 < n"
  shows "served cs past n i \<and> (owner cs n i = g \<or> (\<exists>w \<in> past (owner cs n i). cnum w = Suc n))"
proof -
  note D = groups_invD [OF inv]
  from move D(1,5) i show ?thesis
  proof (cases rule: move_state)
    case same
    with new served_serving(1) [OF inv D(2) i] show ?thesis by simp
  next
    case (pulled w h)
    note b = bepulled_facts [OF inv pulled(4) i pulled(5)]
    have "cnum w = Suc n" using pulled(1,6) n by simp
    with b pulled(4) show ?thesis by auto
  next
    case nextcfg
    then have "owner cs (cnum (cur g)) i = g" "vStates (cur g) ! i = SERVING"
      using new(1) by (auto simp: next_state_def split: if_splits)
    with served_serving(1) [OF inv D(2) i this(2)] nextcfg(2) n(1) show ?thesis by simp
  qed (use new n in \<open>auto split: if_splits\<close>)
qed

lemma chain_ok_move:
  assumes inv: "groups_inv cs past cur" and move: "view_moves cs past g (cur g) m v'"
  shows "chain_ok cs (add_view g v' past)"
  unfolding chain_ok_def
proof (intro allI impI)
  fix n i assume i: "i < NShards" and n: "0 < n" and s: "served cs (add_view g v' past) (Suc n) i"
  have "served cs past n i \<and> (owner cs n i = owner cs (Suc n) i \<or> (\<exists>w \<in> past (owner cs n i). cnum w = Suc n))"
  proof (cases "served cs past (Suc n) i")
    case True
    with chainD [OF inv i n] show ?thesis by simp
  next
    case False
    then have "owner cs (Suc n) i = g" "cnum v' = Suc n" "vStates v' ! i = SERVING"
      using s by (auto simp: served_add)
    with newly_served [OF inv move i _ _ _ n] False show ?thesis by auto
  qed
  then show "served cs (add_view g v' past) n i \<and> (owner cs n i = owner cs (Suc n) i \<or>
      (\<exists>w \<in> add_view g v' past (owner cs n i). cnum w = Suc n))"
    by (auto simp: served_add add_view_iff)
qed

lemma given_ok_move:
  assumes inv: "groups_inv cs past cur" and move: "view_moves cs past g (cur g) m v'"
  shows "given_ok cs (add_view g v' past)"
  unfolding given_ok_def
proof (intro allI ballI impI)
  fix h i w assume w: "w \<in> add_view g v' past h" "i < NShards" "vStates w ! i = BEPULLED"
  note D = groups_invD [OF inv]
  have "served cs past (cnum w - 1) i"
  proof (cases "w \<in> past h")
    case True
    from bepulled_facts(1) [OF inv True w(2,3)] show ?thesis .
  next
    case False
    then have h: "h = g" "w = v'" using w(1) by (auto simp: add_view_iff)
    from move D(1,5) w(2) show ?thesis
    proof (cases rule: move_state)
      case same
      with bepulled_facts(1) [OF inv D(2) w(2)] h w(3) show ?thesis by simp
    next
      case nextcfg
      then have "vStates (cur g) ! i = SERVING" using h w(3) by (auto simp: next_state_def split: if_splits)
      with served_serving(1) [OF inv D(2) w(2) this] nextcfg(2) h show ?thesis by simp
    qed (use h w(3) in \<open>auto split: if_splits\<close>)
  qed
  then show "served cs (add_view g v' past) (cnum w - 1) i" by (rule served_mono)
qed

lemma held_ok_move:
  assumes inv: "groups_inv cs past cur" and move: "view_moves cs past g (cur g) m v'"
  shows "held_ok cs (add_view g v' past) (cur(g := v'))"
  unfolding held_ok_def
proof (intro allI impI)
  fix n i assume i: "i < NShards" and n: "0 < n" and s: "served cs (add_view g v' past) n i"
    and ns: "\<not> served cs (add_view g v' past) (Suc n) i"
  note D = groups_invD [OF inv]
  show "keeps ((cur(g := v')) (owner cs n i)) n i"
  proof (cases "served cs past n i")
    case False
    with s show ?thesis by (simp add: served_add keeps_def)
  next
    case True
    have k: "keeps (cur (owner cs n i)) n i"
      using groups_inv_parts(5) [OF inv] i n True ns unfolding held_ok_def by (simp add: served_add)
    show ?thesis
    proof (cases "owner cs n i = g")
      case owner: True
      from move D(1,5) i show ?thesis
      proof (cases rule: move_state)
        case nextcfg
        with k owner n ns show ?thesis
          by (auto simp: keeps_def served_add next_state_def split: if_splits)
      qed (use k owner n ns in \<open>auto simp: keeps_def served_add split: if_splits\<close>)
    qed (use k in simp)
  qed
qed

lemma groups_inv_move:
  assumes "groups_inv cs past cur" and "view_moves cs past g (cur g) m v'"
  shows "groups_inv cs (add_view g v' past) (cur(g := v'))"
  using assms past_ok_move steps_ok_move chain_ok_move given_ok_move held_ok_move groups_invD(1)
  unfolding groups_inv_def by metis

section \<open>The data of a shard\<close>

definition run_ops :: "Op list \<Rightarrow> kv_map" where
  "run_ops ops = foldl (\<lambda>st op. KV_effect op st) fmempty ops"

text \<open>A state holds a shard with a history when its data is the result of the history and its
  duplicate table covers it.\<close>

definition holds :: "shard_view \<Rightarrow> nat \<Rightarrow> Op list \<Rightarrow> bool" where
  "holds v i ops \<longleftrightarrow>
     shard_data i (vStore v) = run_ops ops \<and> (\<forall>op \<in> set ops. SeqNum op \<le> map_get 0 (vSeq v) (ClientID op))"

definition requests :: "Op list \<Rightarrow> (int \<times> int) list" where
  "requests ops = map (\<lambda>op. (ClientID op, SeqNum op)) ops"

definition data_ok ::
  "Config list \<Rightarrow> (int \<Rightarrow> shard_view set) \<Rightarrow> (int \<Rightarrow> shard_view) \<Rightarrow> nat \<Rightarrow> Op list \<Rightarrow> bool" where
  "data_ok cs past cur i ops \<longleftrightarrow>
     (served cs past 1 i \<or> ops = []) \<and> distinct (requests ops) \<and> (\<forall>op \<in> set ops. shard op = i) \<and>
     (\<forall>g. vStates (cur g) ! i = SERVING \<longrightarrow> holds (cur g) i ops) \<and>
     (\<forall>g. \<forall>v \<in> past g. vStates v ! i = BEPULLED \<longrightarrow> \<not> served cs past (cnum v) i \<longrightarrow> holds v i ops)"

lemma data_okD:
  assumes "data_ok cs past cur i ops"
  shows "served cs past 1 i \<or> ops = []" "distinct (requests ops)" "\<And>op. op \<in> set ops \<Longrightarrow> shard op = i"
    "\<And>g. vStates (cur g) ! i = SERVING \<Longrightarrow> holds (cur g) i ops"
    "\<And>g v. v \<in> past g \<Longrightarrow> vStates v ! i = BEPULLED \<Longrightarrow> \<not> served cs past (cnum v) i \<Longrightarrow> holds v i ops"
  using assms by (auto simp: data_ok_def)

lemma holds_same:
  assumes "holds v i ops" and "shard_data i (vStore v') = shard_data i (vStore v)"
    and "\<And>c. map_get 0 (vSeq v) c \<le> map_get 0 (vSeq v') c"
  shows "holds v' i ops"
  using assms by (auto simp: holds_def intro: order_trans)

lemma holds_effect:
  assumes "holds v i ops" and "takes_effect v op" and "shard op = i"
  shows "holds (v\<lparr>vStore := fst (KV_step (vStore v, vSeq v) op), vSeq := snd (KV_step (vStore v, vSeq v) op)\<rparr>) i (ops @ [op])"
proof -
  have "fst (KV_step (vStore v, vSeq v) op) = KV_effect op (vStore v)"
    using assms(2) by (simp add: KV_step_def takes_effect_def)
  then have "shard_data i (fst (KV_step (vStore v, vSeq v) op)) = run_ops (ops @ [op])"
    using assms by (simp add: shard_data_effect holds_def run_ops_def)
  moreover have "SeqNum x \<le> map_get 0 (snd (KV_step (vStore v, vSeq v) op)) (ClientID x)" if "x \<in> set (ops @ [op])" for x
    using that assms(1,2) by (auto simp: KV_step_seq holds_def takes_effect_def)
  ultimately show ?thesis by (simp add: holds_def)
qed

lemma effect_is_new:
  assumes "holds v i ops" and "takes_effect v op"
  shows "(ClientID op, SeqNum op) \<notin> set (requests ops)"
  using assms by (fastforce simp: holds_def takes_effect_def requests_def)

text \<open>A move that lets no operation on the shard take effect keeps what is held.\<close>

lemma move_holds:
  assumes move: "view_moves cs past g v m v'" and "view_ok cs g v" and "i < NShards" and "holds v i ops"
    and "\<not> (CommandType m = KVOperation \<and> takes_effect v (msgOpData m) \<and> shard (msgOpData m) = i)"
    and "vStates v ! i = SERVING \<or> vStates v ! i = BEPULLED \<and> vStates v' ! i = BEPULLED"
  shows "holds v' i ops"
  using move
proof cases
  case (op x)
  have quiet: "\<not> (map_get 0 (vSeq v) (ClientID x) < SeqNum x \<and> shard x = i)"
    using assms(5) op by (simp add: takes_effect_def kvMsg_def msgOpData_def)
  have "shard_data i (fst (KV_step (vStore v, vSeq v) x)) = shard_data i (vStore v)"
    using quiet by (auto simp: KV_step_def shard_data_effect)
  then show ?thesis using op by (intro holds_same [OF assms(4)]) (auto simp: KV_step_seq)
next
  case (pull j w h)
  have "j \<noteq> i" using pull assms(6) by auto
  then show ?thesis using pull view_okD(7) [OF assms(2)]
    by (intro holds_same [OF assms(4)]) (auto simp: shard_data_add maxSeq_get)
next
  case (confirm j)
  have "j \<noteq> i" using confirm assms(3,6) view_okD(4) [OF assms(2)] by auto
  then show ?thesis using confirm by (intro holds_same [OF assms(4)]) (auto simp: shard_data_drop)
qed (use assms(4) in \<open>auto intro: holds_same\<close>)

text \<open>A shard that is pulled, or served first, arrives with its history.\<close>

lemma pull_holds:
  assumes move: "view_moves cs past g v m v'" and "view_ok cs g v" and "i < NShards"
    and "vStates v ! i = PULLING" and "vStates v' ! i = SERVING"
    and "\<And>h w. w \<in> past h \<Longrightarrow> vStates w ! i = BEPULLED \<Longrightarrow> cnum w = cnum v \<Longrightarrow> holds w i ops" and "cnum v' = cnum v"
    and "configs_wf cs"
  shows "holds v' i ops"
  using move
proof cases
  case (pull j w h)
  have j: "j = i" using pull assms(4,5) by (cases "j = i") auto
  have "holds w i ops" using assms(6) pull j by blast
  moreover have "shard_data i (vStore v) = fmempty"
    using shard_data_empty [OF view_okD(6) [OF assms(2)], of i] assms(4) by simp
  then have "shard_data i (vStore v') = shard_data i (vStore w)" using pull j by (simp add: shard_data_add)
  moreover have "map_get 0 (vSeq w) c \<le> map_get 0 (vSeq v') c" for c
    using pull view_okD(7) [OF assms(2)] by (simp add: maxSeq_get)
  ultimately show ?thesis by (rule holds_same)
next
  case config
  then show ?thesis using assms(7) cnum_config [OF assms(8)] by simp
next
  case (confirm j)
  then show ?thesis using assms(4,5) by (cases "j = i") auto
qed (use assms(4,5) in simp_all)

lemma serving_holds:
  assumes inv: "groups_inv cs past cur" and move: "view_moves cs past g (cur g) m v'" and i: "i < NShards"
    and data: "data_ok cs past cur i ops"
    and quiet: "\<not> (CommandType m = KVOperation \<and> takes_effect (cur g) (msgOpData m) \<and> shard (msgOpData m) = i)"
    and st: "vStates v' ! i = SERVING"
  shows "holds v' i ops"
proof -
  note D = groups_invD [OF inv] and H = data_okD [OF data]
  note keep = move_holds [OF move D(5) i _ quiet]
  from move D(1,5) i show ?thesis
  proof (cases rule: move_state)
    case same
    with keep H(4) st show ?thesis by simp
  next
    case (pulled w h)
    have "owner cs (cnum (cur g)) i = g" using view_okD(5) [OF D(5) [of g] i] pulled(2) by (simp add: state_ok_def)
    then have "\<not> served cs past (cnum (cur g)) i"
      using D(4) pulled(2) i by (force simp: served_def leads_def state_leads_def)
    then have "holds w i ops" if "w \<in> past h" "vStates w ! i = BEPULLED" "cnum w = cnum (cur g)" for w h
      using H(5) that by metis
    from pull_holds [OF move D(5) i pulled(2,3) this pulled(1) D(1)] show ?thesis .
  next
    case first
    have "owner cs 1 i = g" using first(4) st by (auto split: if_splits)
    then have "\<not> served cs past 1 i" using leads_num [OF D(4)] first(1) by (fastforce simp: served_def)
    then have "ops = []" using H(1) by blast
    moreover have "shard_data i (vStore (cur g)) = fmempty"
      using shard_data_empty [OF view_okD(6) [OF D(5) [of g]], of i] first(3) by simp
    moreover from move first have "vStore v' = vStore (cur g)" by cases simp_all
    ultimately show ?thesis by (simp add: holds_def run_ops_def)
  next
    case nextcfg
    then have "vStates (cur g) ! i = SERVING" using st by (auto simp: next_state_def split: if_splits)
    with keep H(4) show ?thesis by simp
  qed (use st in simp)
qed

lemma bepulled_holds:
  assumes inv: "groups_inv cs past cur" and move: "view_moves cs past g (cur g) m v'" and i: "i < NShards"
    and data: "data_ok cs past cur i ops"
    and quiet: "\<not> (CommandType m = KVOperation \<and> takes_effect (cur g) (msgOpData m) \<and> shard (msgOpData m) = i)"
    and st: "vStates v' ! i = BEPULLED" "\<not> served cs past (cnum v') i"
  shows "holds v' i ops"
proof -
  note D = groups_invD [OF inv] and H = data_okD [OF data]
  note keep = move_holds [OF move D(5) i _ quiet]
  from move D(1,5) i show ?thesis
  proof (cases rule: move_state)
    case same
    with H(5) [OF D(2)] st have "holds (cur g) i ops" by simp
    with keep same st show ?thesis by simp
  next
    case nextcfg
    then have "vStates (cur g) ! i = SERVING" using st by (auto simp: next_state_def split: if_splits)
    with keep H(4) show ?thesis by simp
  qed (use st in \<open>auto split: if_splits\<close>)
qed

lemma data_ok_quiet:
  assumes inv: "groups_inv cs past cur" and move: "view_moves cs past g (cur g) m v'" and i: "i < NShards"
    and data: "data_ok cs past cur i ops"
    and quiet: "\<not> (CommandType m = KVOperation \<and> takes_effect (cur g) (msgOpData m) \<and> shard (msgOpData m) = i)"
  shows "data_ok cs (add_view g v' past) (cur(g := v')) i ops"
  unfolding data_ok_def
proof (intro conjI allI ballI impI)
  note H = data_okD [OF data]
  show "served cs (add_view g v' past) 1 i \<or> ops = []" using H(1) served_mono by blast
  show "distinct (requests ops)" by (rule H(2))
  show "shard op = i" if "op \<in> set ops" for op using H(3) that .
  show "holds ((cur(g := v')) h) i ops" if "vStates ((cur(g := v')) h) ! i = SERVING" for h
    using serving_holds [OF inv move i data quiet] H(4) that by (cases "h = g") simp_all
  fix h w assume w: "w \<in> add_view g v' past h" "vStates w ! i = BEPULLED" "\<not> served cs (add_view g v' past) (cnum w) i"
  then have "\<not> served cs past (cnum w) i" using served_mono by blast
  with w bepulled_holds [OF inv move i data quiet] H(5) show "holds w i ops"
    by (auto simp: add_view_iff)
qed

lemma data_ok_effect:
  assumes inv: "groups_inv cs past cur" and "takes_effect (cur g) op" and "shard op = i"
    and data: "data_ok cs past cur i ops"
    and v': "v' = (cur g)\<lparr>vStore := fst (KV_step (vStore (cur g), vSeq (cur g)) op),
      vSeq := snd (KV_step (vStore (cur g), vSeq (cur g)) op)\<rparr>"
  shows "data_ok cs (add_view g v' past) (cur(g := v')) i (ops @ [op])"
  unfolding data_ok_def
proof (intro conjI allI ballI impI)
  note H = data_okD [OF data] and D = groups_invD [OF inv]
  have i: "i < NShards" and st: "vStates (cur g) ! i = SERVING"
    using assms(2,3) shard_lt(1) [of op] by (auto simp: takes_effect_def)
  note s = served_serving [OF inv D(2) i st]
  have old: "holds (cur g) i ops" by (rule H(4) [OF st])
  show "served cs (add_view g v' past) 1 i \<or> ops @ [op] = []"
    using served_down [OF inv i s(1), of 1] s(3) served_mono by auto
  show "distinct (requests (ops @ [op]))"
    using H(2) effect_is_new [OF old assms(2)] by (simp add: requests_def)
  show "shard x = i" if "x \<in> set (ops @ [op])" for x using that H(3) assms(3) by auto
  show "holds ((cur(g := v')) h) i (ops @ [op])" if "vStates ((cur(g := v')) h) ! i = SERVING" for h
  proof (cases "h = g")
    case True
    with holds_effect [OF old assms(2,3)] v' show ?thesis by simp
  next
    case False
    with one_server [OF inv i st, of h] that show ?thesis by simp
  qed
  fix h w assume w: "w \<in> add_view g v' past h" "vStates w ! i = BEPULLED" "\<not> served cs (add_view g v' past) (cnum w) i"
  have "w \<in> past h" using w(1,2) st v' by (auto simp: add_view_iff)
  with no_pending [OF inv i st this w(2)] served_mono w(3) show "holds w i (ops @ [op])" by blast
qed

text \<open>Both parts together, with the proposals of the groups.\<close>

definition system_inv ::
  "Config list \<Rightarrow> (int \<Rightarrow> shard_view set) \<Rightarrow> (int \<Rightarrow> shard_view) \<Rightarrow> (int \<Rightarrow> CommandMsg set) \<Rightarrow> (nat \<Rightarrow> Op list) \<Rightarrow> bool" where
  "system_inv cs past cur msgs h \<longleftrightarrow>
     groups_inv cs past cur \<and> (\<forall>g. \<forall>m \<in> msgs g. msg_ok cs past g m) \<and>
     (\<forall>i < NShards. data_ok cs past cur i (h i))"

lemma msg_ok_mono:
  assumes "msg_ok cs past g m" and "\<And>h. past h \<subseteq> past' h"
  shows "msg_ok cs past' g m"
proof -
  have "served cs past' n i" if "served cs past n i" for n i using that assms(2) by (auto simp: served_def)
  then have "config_proposed cs (past g) m \<Longrightarrow> config_proposed cs (past' g) m"
    "pull_proposed past m \<Longrightarrow> pull_proposed past' m" "confirm_proposed cs past m \<Longrightarrow> confirm_proposed cs past' m"
    using assms(2) unfolding config_proposed_def pull_proposed_def confirm_proposed_def by blast+
  with assms(1) show ?thesis unfolding msg_ok_def by blast
qed

lemma system_inv_commit:
  assumes "system_inv cs past cur msgs h" and "m \<in> msgs g"
  shows "\<exists>v'. SKV_step g (cur g) m = Some v' \<and>
    system_inv cs (add_view g v' past) (cur(g := v')) msgs (record_effect (Some (cur g)) m h)"
proof -
  have inv: "groups_inv cs past cur" and ok: "msg_ok cs past g m"
    and data: "\<And>i. i < NShards \<Longrightarrow> data_ok cs past cur i (h i)"
    using assms by (auto simp: system_inv_def)
  note D = groups_invD [OF inv]
  obtain v' where v': "SKV_step g (cur g) m = Some v'" "view_moves cs past g (cur g) m v'"
    using msg_moves [OF D(1) D(5) ok D(4)] by blast
  have "data_ok cs (add_view g v' past) (cur(g := v')) i (record_effect (Some (cur g)) m h i)" if i: "i < NShards" for i
  proof (cases "CommandType m = KVOperation \<and> takes_effect (cur g) (msgOpData m) \<and> shard (msgOpData m) = i")
    case False
    then have "record_effect (Some (cur g)) m h i = h i" by (auto simp: record_effect_def)
    with data_ok_quiet [OF inv v'(2) i data [OF i] False] show ?thesis by simp
  next
    case True
    from v'(2) True have "v' = (cur g)\<lparr>vStore := fst (KV_step (vStore (cur g), vSeq (cur g)) (msgOpData m)),
        vSeq := snd (KV_step (vStore (cur g), vSeq (cur g)) (msgOpData m))\<rparr>"
      by cases (auto simp: kvMsg_def msgOpData_def)
    from data_ok_effect [OF inv _ _ data [OF i] this] True show ?thesis by (simp add: record_effect_def)
  qed
  moreover have "msg_ok cs (add_view g v' past) k x" if "x \<in> msgs k" for k x
    by (rule msg_ok_mono [of cs past]) (use assms(1) that in \<open>auto simp: system_inv_def add_view_iff\<close>)
  ultimately show ?thesis using v' groups_inv_move [OF inv v'(2)] by (auto simp: system_inv_def)
qed

end
