(* ===== verification/Shard_Reach.thy ===== *)
theory Shard_Reach
  imports Shard_Safety
begin

text \<open>
  Every reachable state of the sharded store satisfies the invariant: each proposal comes from
  where it should, the controller only adds configurations, and a commit is a move of its group.
\<close>

section \<open>New configurations\<close>

lemma owner_prefix: "prefix cs cs' \<Longrightarrow> n < length cs \<Longrightarrow> owner cs' n i = owner cs n i"
  by (auto simp: owner_def prefix_def nth_append)

lemma view_ok_prefix:
  assumes "prefix cs cs'" and "view_ok cs g v"
  shows "view_ok cs' g v"
proof -
  have "cnum v < length cs" "cnum v - 1 < length cs" using assms(2) by (auto simp: view_ok_def)
  moreover from this have "cs' ! cnum v = cs ! cnum v" "cs' ! (cnum v - 1) = cs ! (cnum v - 1)" "cnum v < length cs'"
    using assms(1) by (auto simp: prefix_def nth_append)
  ultimately show ?thesis using assms owner_prefix [OF assms(1)] by (simp add: view_ok_def)
qed

text \<open>No group is beyond the known configurations.\<close>

lemma served_known:
  assumes "\<And>g v. v \<in> past g \<Longrightarrow> view_ok cs g v" and "served cs' past n i"
  shows "n < length cs"
  using assms view_okD(1) by (fastforce simp: served_def)

lemma served_prefix_iff:
  assumes "prefix cs cs'" and "\<And>g v. v \<in> past g \<Longrightarrow> view_ok cs g v"
  shows "served cs' past n i = served cs past n i"
proof (cases "n < length cs")
  case True
  with owner_prefix [OF assms(1)] show ?thesis by (simp add: served_def)
next
  case False
  with served_known [of past cs _ n i] assms(2) show ?thesis by blast
qed

lemma groups_inv_prefix:
  assumes "groups_inv cs past cur" and "prefix cs cs'" and "configs_wf cs'"
  shows "groups_inv cs' past cur"
proof -
  note D = groups_invD [OF assms(1)] and P = groups_inv_parts [OF assms(1)]
  have s: "served cs' past = served cs past"
    by (intro ext served_prefix_iff [OF assms(2)]) (rule D(3))
  have own: "owner cs' n i = owner cs n i" if "served cs past n i" for n i
    using served_known [of past cs cs n i] D(3) that owner_prefix [OF assms(2)] by blast
  have "past_ok cs' past cur" using P(1) view_ok_prefix [OF assms(2)] by (auto simp: past_ok_def)
  moreover have "chain_ok cs' past"
    unfolding chain_ok_def s
  proof (intro allI impI)
    fix n i assume "i < NShards" "0 < n" and suc: "served cs past (Suc n) i"
    note c = chainD [OF assms(1) this]
    with own [OF c(1)] own [OF suc] show "served cs past n i \<and>
        (owner cs' n i = owner cs' (Suc n) i \<or> (\<exists>w \<in> past (owner cs' n i). cnum w = Suc n))" by simp
  qed
  moreover have "given_ok cs' past" using P(4) unfolding given_ok_def s .
  moreover have "held_ok cs' past cur" using P(5) own unfolding held_ok_def s by simp
  ultimately show ?thesis using assms(3) P(2) by (simp add: groups_inv_def)
qed

lemma msg_ok_prefix:
  assumes "msg_ok cs past g m" and "prefix cs cs'" and "\<And>g v. v \<in> past g \<Longrightarrow> view_ok cs g v"
  shows "msg_ok cs' past g m"
proof -
  have "config_proposed cs' (past g) m" if c: "config_proposed cs (past g) m"
  proof -
    obtain n where n: "Suc n < length cs" "m = getLastConfig_msg (cs ! Suc n)"
        "\<exists>v \<in> past g. cnum v = n \<and> (n = 0 \<or> ready v)"
      using c by (auto simp: config_proposed_def)
    have "Suc n < length cs'" "cs' ! Suc n = cs ! Suc n"
      using n(1) assms(2) by (auto simp: prefix_def nth_append)
    with n show ?thesis unfolding config_proposed_def by auto
  qed
  moreover have "served cs' past = served cs past"
    by (intro ext served_prefix_iff [OF assms(2)]) (rule assms(3))
  then have "confirm_proposed cs' past m" if "confirm_proposed cs past m"
    using that by (simp add: confirm_proposed_def)
  ultimately show ?thesis using assms(1) by (auto simp: msg_ok_def)
qed

lemma system_inv_prefix:
  assumes "system_inv cs past cur msgs h" and "prefix cs cs'" and "configs_wf cs'"
  shows "system_inv cs' past cur msgs h"
proof -
  have inv: "groups_inv cs past cur" using assms(1) by (simp add: system_inv_def)
  note D = groups_invD(3) [OF inv]
  have "msg_ok cs' past g m" if "m \<in> msgs g" for g m
    by (rule msg_ok_prefix [OF _ assms(2) D]) (use assms(1) that in \<open>auto simp: system_inv_def\<close>)
  moreover have "served cs' past = served cs past"
    by (intro ext served_prefix_iff [OF assms(2)]) (rule D)
  then have "data_ok cs' past cur i (h i)" if "i < NShards" for i
    using assms(1) that by (simp add: system_inv_def data_ok_def)
  ultimately show ?thesis using groups_inv_prefix [OF inv assms(2,3)] by (simp add: system_inv_def)
qed

section \<open>Proposals\<close>

text \<open>What a server reads is a state of its group.\<close>

lemma replica_state:
  assumes "groups_inv cs (\<lambda>g. views g (lg g)) cur" and "skv_replica bl g (lg g) kv k"
  shows "skv_view kv \<in> views g (lg g)" "view_ok cs g (skv_view kv)" "skv_gid kv = g"
    "Num (skv_config kv) = int (cnum (skv_view kv))" "skv_config kv = cs ! cnum (skv_view kv)"
    "length (skv_shardsState kv) = NShards"
proof -
  show v: "skv_view kv \<in> views g (lg g)" "skv_gid kv = g" using replica_views [OF assms(2)] by simp_all
  show ok: "view_ok cs g (skv_view kv)" using groups_invD(3) [OF assms(1) v(1)] .
  have "Num (vConfig (skv_view kv)) = int (cnum (skv_view kv))" "vConfig (skv_view kv) = cs ! cnum (skv_view kv)"
    using cnum_cfg [OF groups_invD(1) [OF assms(1)] ok] view_okD(2) [OF ok] by simp_all
  then show "Num (skv_config kv) = int (cnum (skv_view kv))" "skv_config kv = cs ! cnum (skv_view kv)"
    by (simp_all add: skv_view_def)
  show "length (skv_shardsState kv) = NShards" using view_okD(4) [OF ok] by (simp add: skv_view_def)
qed

lemma config_proposal:
  assumes "groups_inv (configs sc) (\<lambda>g. views g (lg g)) cur" and "ctrl_good sc"
    and "skv_replica bl g (lg g) kv k" and "c \<in> set (configs sc)"
    and "getLastConfig_check kv c = Some target" and "SC_getConfig sc target = Some cfg"
  shows "config_proposed (configs sc) (views g (lg g)) (getLastConfig_msg cfg)"
proof -
  let ?v = "skv_view kv"
  note R = replica_state [OF assms(1,3)]
  have t: "target = int (cnum ?v) + 1" "int (cnum ?v) < Num c" "cnum ?v = 0 \<or> shardsStateReady kv"
    using assms(5) R(4) by (auto simp: getLastConfig_check_def Let_def split: if_splits)
  have "cnum ?v = 0 \<or> ready ?v"
    using t(3) R(6) by (auto simp: shardsStateReady_def ready_def skv_view_def list_all_length)
  moreover have "Suc (cnum ?v) < length (configs sc)" "cfg = configs sc ! Suc (cnum ?v)"
    using cc.successor_known [OF assms(2,4) t(2)] assms(6) t(1) by simp_all
  ultimately show ?thesis using R(1) unfolding config_proposed_def by blast
qed

lemma pull_proposal:
  assumes "groups_inv cs (\<lambda>g. views g (lg g)) cur" and "skv_replica bl h (lg h) kvh j"
    and "ShardsRequestHandler kvh args = Some reply" and "ShardsRequester_reply kv args index True reply = Propose m"
  shows "pull_proposed (\<lambda>g. views g (lg g)) m"
proof -
  let ?w = "skv_view kvh"
  note R = replica_state [OF assms(1,2)]
  have ok: "srrErr reply = OK" and m: "m = pullMsg \<lparr>srmConfigNum = sraConfigNum args, srmShardIndex = sraShardIndex args,
      srmGID = sraGID args, srmShardData = srrShardData reply, srmClientSeqNum = srrClientSeqNum reply\<rparr>"
    using assms(4) by (auto simp: ShardsRequester_reply_def pullMsg_def split: if_splits)
  have num: "sraConfigNum args = int (cnum ?w)" and st: "slice_get (skv_shardsState kvh) (sraShardIndex args) = Some BEPULLED"
    and data: "srrShardData reply = fmfilter (\<lambda>key. key2shard key = sraShardIndex args) (skv_currentState kvh)"
      "srrClientSeqNum reply = skv_clientSeq kvh"
    using assms(3) ok R(4)
    by (auto simp: ShardsRequestHandler_def Let_def split: Option.bind_splits if_splits)
  define i where "i = nat (sraShardIndex args)"
  have i: "sraShardIndex args = int i" "i < NShards" "vStates ?w ! i = BEPULLED"
    using st R(6) by (auto simp: slice_get_def i_def skv_view_def split: if_splits)
  show ?thesis
    unfolding pull_proposed_def
    by (rule exI, rule exI [of _ h], rule exI [of _ ?w], rule exI [of _ i], intro conjI, rule m)
      (use i R(1) num data in \<open>simp_all add: shard_data_def skv_view_def\<close>)
qed

text \<open>A group that has left a configuration behind has served all it owned there.\<close>

lemma left_behind:
  assumes "groups_inv cs past cur" and "v \<in> past (owner cs n i)" and "n < cnum v" and "0 < n" and "i < NShards"
  shows "served cs past n i"
proof -
  have "\<exists>w \<in> past (owner cs n i). cnum w = n \<and> ready w"
    using assms(2,3)
  proof (induction "cnum v - Suc n" arbitrary: v)
    case 0
    then have "cnum v = Suc n" by simp
    with groups_inv_parts(2) [OF assms(1)] 0(2) assms(4) show ?case unfolding steps_ok_def by blast
  next
    case (Suc d)
    obtain l where l: "cnum v = Suc l" "n < l" using Suc.hyps(2) by (cases "cnum v") auto
    then obtain w where "w \<in> past (owner cs n i)" "cnum w = l"
      using groups_inv_parts(2) [OF assms(1)] Suc.prems(1) unfolding steps_ok_def by (metis gr0I not_less0)
    with Suc.hyps(1) [of w] Suc.hyps(2) l show ?case by simp
  qed
  then obtain w where w: "w \<in> past (owner cs n i)" "cnum w = n" "ready w" by blast
  have "vStates w ! i = SERVING"
    using view_okD(5) [OF groups_invD(3) [OF assms(1) w(1)] assms(5)] w(2,3) assms(4,5)
    by (auto simp: state_ok_def ready_def)
  with w show ?thesis by (auto simp: served_def)
qed

lemma confirm_proposal:
  assumes "groups_inv cs (\<lambda>g. views g (lg g)) cur" and "skv_replica bl g (lg g) kv0 k0"
    and "ShardsConfirm_scan order kv0 = Some (found, servers, owners)" and "i \<in> set found"
    and "ShardsConfirm_args kv0 servers owners i = Some (args, names)"
    and "skv_replica bl (owners ! i) (lg (owners ! i)) kvh j" and "ShardsConfirmHandler kvh args = Some reply"
    and "ShardsConfirm_reply kv args True reply = Propose m"
  shows "confirm_proposed cs (\<lambda>g. views g (lg g)) m"
proof -
  let ?past = "\<lambda>g. views g (lg g)" and ?v = "skv_view kv0" and ?w = "skv_view kvh"
  note V = replica_state [OF assms(1,2)] and W = replica_state [OF assms(1,6)]
  have i: "i < NShards" "vStates ?v ! i = BEPULLED" and owners: "owners = GetShardsCopy (Shards (skv_config kv0))"
    using assms(3,4) by (auto simp: ShardsConfirm_scan_def shardsIn_def skv_view_def split: if_splits)
  have "length (Shards (skv_config kv0)) = NShards"
    using groups_invD(1) [OF assms(1)] V(5) view_okD(1) [OF V(2)] by (simp add: configs_wf_def config_wf_def)
  then have own: "owners ! i = owner cs (cnum ?v) i" using owners V(5) by (simp add: GetShardsCopy_eq owner_def)
  have args: "scaConfigNum args = int (cnum ?v)" "scaShardIndex args = int i"
    using assms(5) V(4) by (auto simp: ShardsConfirm_args_def)
  have m: "m = confirmMsg \<lparr>scmConfigNum = scaConfigNum args, scmShardIndex = scaShardIndex args,
      scmShardState = scrShardState reply\<rparr>" "scrErr reply = OK"
    using assms(8) by (auto simp: ShardsConfirm_reply_def confirmMsg_def split: if_splits)
  have n: "0 < cnum ?v" using bepulled_facts(3) [OF assms(1) V(1) i] by simp
  have "cnum ?w = cnum ?v \<and> vStates ?w ! i = SERVING \<or> cnum ?v < cnum ?w"
    using assms(7) m(2) W(4,6) args i(1)
    by (auto simp: ShardsConfirmHandler_def Let_def zeroShardConfirmReply_def slice_get_nat skv_view_def
        split: Option.bind_splits if_splits)
  then have "served cs ?past (cnum ?v) i"
    using W(1) own left_behind [OF assms(1) _ _ n i(1)] by (auto simp: served_def)
  with m(1) args i(1) show ?thesis unfolding confirm_proposed_def by auto
qed

section \<open>Reachable states\<close>

definition state_of :: "shard_system \<Rightarrow> int \<Rightarrow> shard_view" where
  "state_of s g = (case group_view g (logs s g) of Some v \<Rightarrow> v | None \<Rightarrow> initial_view)"

definition sys_ok :: "shard_system \<Rightarrow> bool" where
  "sys_ok s \<longleftrightarrow> ctrl_good (ctrl s) \<and> (\<forall>g. group_view g (logs s g) = Some (state_of s g)) \<and>
     system_inv (configs (ctrl s)) (\<lambda>g. views g (logs s g)) (state_of s) (pool s) (hist s)"

lemma sys_okD:
  assumes "sys_ok s"
  shows "ctrl_good (ctrl s)" "group_view g (logs s g) = Some (state_of s g)"
    "groups_inv (configs (ctrl s)) (\<lambda>g. views g (logs s g)) (state_of s)"
    "m \<in> pool s g \<Longrightarrow> msg_ok (configs (ctrl s)) (\<lambda>g. views g (logs s g)) g m"
    "i < NShards \<Longrightarrow> data_ok (configs (ctrl s)) (\<lambda>g. views g (logs s g)) (state_of s) i (hist s i)"
  using assms by (auto simp: sys_ok_def system_inv_def)

lemma initial_facts:
  "cnum initial_view = 0" "i < NShards \<Longrightarrow> vStates initial_view ! i = NO_SERVING"
  "view_ok [zeroConfig] g initial_view"
  by (simp_all add: cnum_def initial_view_def zeroConfig_def view_ok_def state_ok_def keys_ok_def map_get_empty)

lemma sys_ok_start: "sys_ok (init_system (SC_StartServer now n i ps))"
proof -
  let ?past = "\<lambda>g :: int. {initial_view}" and ?cur = "\<lambda>g :: int. initial_view"
  have "\<not> served cs ?past n i" if "i < NShards" for cs n i
    using initial_facts(2) [OF that] by (simp add: served_def)
  then have "chain_ok [zeroConfig] ?past" "held_ok [zeroConfig] ?past ?cur" "given_ok [zeroConfig] ?past"
    using initial_facts(2) by (auto simp: chain_ok_def held_ok_def given_ok_def)
  moreover have "configs_wf [zeroConfig]" by (simp add: configs_wf_def config_wf_def zeroConfig_def)
  ultimately have "groups_inv [zeroConfig] ?past ?cur"
    using initial_facts(1,3) by (simp add: groups_inv_def past_ok_def leads_refl steps_ok_def)
  moreover have "data_ok [zeroConfig] ?past ?cur i []" if "i < NShards" for i
    using initial_facts(2) [OF that] by (simp add: data_ok_def requests_def)
  ultimately have "system_inv [zeroConfig] ?past ?cur (\<lambda>_. {}) (\<lambda>_. [])" by (simp add: system_inv_def)
  moreover have "state_of (init_system (SC_StartServer now n i ps)) = ?cur"
    by (rule ext) (simp add: state_of_def init_system_def)
  ultimately show ?thesis
    using sc_inv_StartServer [of now n i ps]
    by (simp add: sys_ok_def init_system_def ctrl_good_def) (simp add: SC_StartServer_def)
qed

lemma sys_ok_control:
  assumes "sys_ok s" and "ctrl_step (ctrl s) sc'"
  shows "sys_ok (s\<lparr>ctrl := sc'\<rparr>)"
proof -
  note c = cc.advance_good [OF assms(2) sys_okD(1) [OF assms(1)]]
  have "state_of (s\<lparr>ctrl := sc'\<rparr>) = state_of s" by (rule ext) (simp add: state_of_def)
  with assms(1) c cc.known_wf [of sc'] system_inv_prefix [of "configs (ctrl s)" _ _ _ _ "configs sc'"]
  show ?thesis by (auto simp: sys_ok_def)
qed

lemma sys_ok_propose:
  assumes "sys_ok s" and "msg_ok (configs (ctrl s)) (\<lambda>g. views g (logs s g)) g m"
  shows "sys_ok (propose g m s)"
proof -
  have "state_of (propose g m s) = state_of s" by (rule ext) (simp add: state_of_def propose_def)
  with assms show ?thesis by (auto simp: sys_ok_def system_inv_def propose_def)
qed

lemma sys_ok_commit:
  assumes "sys_ok s" and "m \<in> pool s g"
  shows "sys_ok (commit g m s)"
proof -
  let ?past = "\<lambda>g. views g (logs s g)"
  have "system_inv (configs (ctrl s)) ?past (state_of s) (pool s) (hist s)" using assms(1) by (simp add: sys_ok_def)
  from system_inv_commit [OF this assms(2)] obtain v' where v': "SKV_step g (state_of s g) m = Some v'"
    "system_inv (configs (ctrl s)) (add_view g v' ?past) ((state_of s)(g := v')) (pool s)
       (record_effect (Some (state_of s g)) m (hist s))" by blast
  have view: "group_view g (logs s g @ [m]) = Some v'" using sys_okD(2) [OF assms(1), of g] v'(1) by (simp add: group_view_snoc)
  then have "state_of (commit g m s) = (state_of s)(g := v')" by (auto simp: state_of_def commit_def)
  moreover have "(\<lambda>h. views h (logs (commit g m s) h)) = add_view g v' ?past"
    using view by (auto simp: commit_def add_view_def views_snoc fun_eq_iff)
  ultimately show ?thesis
    using assms(1) v'(2) view sys_okD(2) [OF assms(1)] by (auto simp: sys_ok_def commit_def)
qed

theorem shard_reachable_ok: "shard_reachable bl s \<Longrightarrow> sys_ok s"
proof (induction rule: shard_reachable.induct)
  case (start now n i ps)
  show ?case by (rule sys_ok_start)
next
  case (control s sc')
  then show ?case using sys_ok_control by simp
next
  case (client s g op)
  then show ?case by (intro sys_ok_propose) (auto simp: msg_ok_def)
next
  case (empty s g)
  then show ?case by (intro sys_ok_propose) (auto simp: msg_ok_def)
next
  case (config s g kv k c target cfg)
  from config_proposal [OF sys_okD(3,1) [OF config.IH] config.hyps(2-5)]
  show ?case using sys_ok_propose [OF config.IH] by (simp add: msg_ok_def)
next
  case (pull s g kv k h kvh j args reply index m)
  from pull_proposal [OF sys_okD(3) [OF pull.IH] pull.hyps(3-5)]
  show ?case using sys_ok_propose [OF pull.IH] by (simp add: msg_ok_def)
next
  case (confirm s g kv0 k0 order found servers owners i args names kvh j reply kv k m)
  from confirm_proposal [OF sys_okD(3) [OF confirm.IH] confirm.hyps(2-7) confirm.hyps(9)]
  show ?case using sys_ok_propose [OF confirm.IH] by (simp add: msg_ok_def)
next
  case (commit s m g)
  then show ?case using sys_ok_commit by simp
qed

end
