(* ===== verification/Shard_Props.thy ===== *)
theory Shard_Props
  imports Shard_Reach
begin

text \<open>The properties of the sharded store, with a small run that the witnesses use.\<close>

section \<open>A run\<close>

text \<open>A client moves shard 7 to group 1. The leader of group 1 learns of the configuration and
  proposes it, then a client writes a key of that shard, and a follower applies both commands.\<close>

definition demo_ctrl :: ShardCtrler where
  "demo_ctrl = SC_StartServer 0 3 0 MakePersister"

definition demo_assign :: SC_Op where
  "demo_assign = zeroOp\<lparr>scArgsType := MoveArgsType, scShard := 7, scGID := 1, scSeqNum := 1, scClientID := 9\<rparr>"

definition demo_cfg :: Config where
  "demo_cfg = \<lparr>Num = 1, Shards = [0, 0, 0, 0, 0, 0, 0, 1, 0, 0], Groups = fmempty\<rparr>"

definition demo_ctrl1 :: ShardCtrler where
  "demo_ctrl1 = demo_ctrl\<lparr>configs := [zeroConfig, demo_cfg], sc_clientSeq := fmupd 9 0 fmempty\<rparr>"

lemma demo_ctrl_step: "ctrl_step demo_ctrl demo_ctrl1"
proof -
  have old: "configs demo_ctrl = [zeroConfig]" "sc_clientSeq demo_ctrl = fmempty"
      "sc_waitChan demo_ctrl = make_table"
    by (simp_all add: demo_ctrl_def SC_StartServer_def)
  have shards: "GetShardsCopy (replicate NShards 0) = replicate NShards 0" by (simp add: GetShardsCopy_eq)
  have "SC_applyHandler demo_ord demo_ctrl (applied_msg demo_assign 1) = Some demo_ctrl1"
    using shards by (simp add: SC_applyHandler_def applied_msg_def demo_assign_def SC_applyToStateMachine_def slice_get_def
        old zeroOp_def map_get_def slice_set_def zeroConfig_def notify_def make_table_def demo_ctrl1_def demo_cfg_def
        MoveArgsType_def JoinArgsType_def LeaveArgsType_def NShards_def eval_nat_numeral)
  moreover have "op_ok (msgOp (applied_msg demo_assign 1))"
    by (simp add: op_ok_def msgOp_def applied_msg_def demo_assign_def NShards_def)
  ultimately show ?thesis using demo_ord_ok(1) unfolding ctrl_step_def by blast
qed

definition demo_boot :: "int \<Rightarrow> ShardKV" where
  "demo_boot i = SKV_StartServer 0 3 i MakePersister (-1) 1"

definition demo_vote :: RequestVoteArgs where
  "demo_vote = \<lparr>rvTerm = 1, CandidateId = 0, LastLogIndex = 0, LastLogTerm = 0\<rparr>"

definition demo_elected :: ShardKV where
  "demo_elected = (demo_boot 0)\<lparr>skv_rf :=
     (case raft_run [EvTick 5 3 0, EvVoteReply demo_vote \<lparr>rvrTerm = 1, VoteGranted = True\<rparr>] (skv_rf (demo_boot 0)) of
        Some rf \<Rightarrow> rf | None \<Rightarrow> skv_rf (demo_boot 0))\<rparr>"

definition demo_write :: Op where
  "demo_write = \<lparr>ClientID = 7, SeqNum = 1, Key = ''k'', Value = ''v'', Optype = ''Put''\<rparr>"

definition demo_log :: "CommandMsg list" where
  "demo_log = [getLastConfig_msg demo_cfg, kvMsg demo_write]"

lemma replica_run2:
  assumes "skv_replica bl g log kv k" and "raft_run [e1, e2] (skv_rf kv) = Some rf2"
    and "internal_event e1" "internal_event e2" and "event_ok (skv_rf kv) e1" and "\<And>rf1. event_ok rf1 e2"
  shows "skv_replica bl g log (kv\<lparr>skv_rf := rf2\<rparr>) k"
proof -
  obtain rf1 where rf1: "raft_exec e1 (skv_rf kv) = Some rf1" "raft_exec e2 rf1 = Some rf2"
    using assms(2) by (auto split: Option.bind_splits)
  with assms(3-6) have r: "raft_internal (skv_rf kv) rf1" "raft_internal rf1 rf2" unfolding raft_internal_def by blast+
  from skv_replica.raft [OF skv_replica.raft [OF assms(1) r(1)], of rf2] r(2) show ?thesis by simp
qed

lemma demo_boot_replica: "0 \<le> i \<Longrightarrow> i < 3 \<Longrightarrow> skv_replica bl 1 log (demo_boot i) 0"
  unfolding demo_boot_def by (rule skv_replica.boot) simp_all

lemma demo_elected_replica: "skv_replica bl 1 log demo_elected 0"
proof -
  let ?evs = "[EvTick 5 3 0, EvVoteReply demo_vote \<lparr>rvrTerm = 1, VoteGranted = True\<rparr>] :: (CommandMsg, SKV_gob) raft_event list"
  have "raft_run ?evs (skv_rf (demo_boot 0)) \<noteq> None" by code_simp
  then obtain rf where rf: "raft_run ?evs (skv_rf (demo_boot 0)) = Some rf" by blast
  then have "demo_elected = (demo_boot 0)\<lparr>skv_rf := rf\<rparr>" by (simp only: demo_elected_def option.case)
  with replica_run2 [OF demo_boot_replica rf] show ?thesis by simp
qed

definition demo_entries :: "CommandMsg LogEntry list" where
  "demo_entries = [\<lparr>eTerm = 1, eCommand = Some (getLastConfig_msg demo_cfg), eIndex = 1\<rparr>,
     \<lparr>eTerm = 1, eCommand = Some (kvMsg demo_write), eIndex = 2\<rparr>]"

definition demo_events :: "(CommandMsg, SKV_gob) raft_event list" where
  "demo_events =
     [EvAppendEntries 1 \<lparr>aeTerm = 1, LeaderId = 0, PrevLogIndex = 0, PrevLogTerm = 0, Entries = demo_entries, LeaderCommit = 0\<rparr>,
      EvAppendEntries 2 \<lparr>aeTerm = 1, LeaderId = 0, PrevLogIndex = 2, PrevLogTerm = 1, Entries = [], LeaderCommit = 2\<rparr>]"

definition demo_shard_follower :: ShardKV where
  "demo_shard_follower = (demo_boot 1)\<lparr>skv_rf :=
     (case raft_run demo_events (skv_rf (demo_boot 1)) of Some rf \<Rightarrow> rf | None \<Rightarrow> skv_rf (demo_boot 1))\<rparr>"

lemma demo_shard_follower_replica: "skv_replica bl 1 log demo_shard_follower 0"
proof -
  have "raft_run demo_events (skv_rf (demo_boot 1)) \<noteq> None" "commitIndex (skv_rf (demo_boot 1)) = 0" by code_simp+
  then obtain rf where rf: "raft_run demo_events (skv_rf (demo_boot 1)) = Some rf" by blast
  then have eq: "demo_shard_follower = (demo_boot 1)\<lparr>skv_rf := rf\<rparr>" by (simp only: demo_shard_follower_def option.case)
  show ?thesis
    unfolding eq
    by (rule replica_run2 [OF demo_boot_replica rf [unfolded demo_events_def]])
      (use \<open>commitIndex (skv_rf (demo_boot 1)) = 0\<close> in
        \<open>simp_all add: ae_wf_def committed_agrees_def demo_entries_def less_Suc_eq\<close>)
qed

definition demo_apply :: "ShardKV \<Rightarrow> nat \<Rightarrow> ShardKV" where
  "demo_apply kv k = (case SKV_applyHandler (\<lambda>_. 0) kv (applyMsgOf (demo_entries ! k)) of Some (kv', _) \<Rightarrow> kv' | None \<Rightarrow> kv)"

definition demo_applied :: ShardKV where
  "demo_applied = demo_apply (demo_apply demo_shard_follower 0) 1"

lemma demo_apply_replica:
  assumes "skv_replica (\<lambda>_. 0) 1 demo_log kv k" and "k < 2" and "int k + 1 \<le> commitIndex (skv_rf kv)"
    and "SKV_applyHandler (\<lambda>_. 0) kv (applyMsgOf (demo_entries ! k)) \<noteq> None"
  shows "skv_replica (\<lambda>_. 0) 1 demo_log (demo_apply kv k) (Suc k)"
proof -
  obtain kv' send where kv': "SKV_applyHandler (\<lambda>_. 0) kv (applyMsgOf (demo_entries ! k)) = Some (kv', send)"
    using assms(4) by (cases "SKV_applyHandler (\<lambda>_. 0) kv (applyMsgOf (demo_entries ! k))") auto
  have "k = 0 \<or> k = 1" using assms(2) by auto
  then have "skv_replica (\<lambda>_. 0) 1 demo_log kv' (Suc k)"
    by (intro skv_replica.command [OF assms(1) _ _ _ _ _ kv'])
      (use assms(3) in \<open>auto simp: demo_log_def demo_entries_def applyMsgOf_def\<close>)
  with kv' show ?thesis by (simp add: demo_apply_def)
qed

lemma demo_applied_replica: "skv_replica (\<lambda>_. 0) 1 demo_log demo_applied 2"
proof -
  have "SKV_applyHandler (\<lambda>_. 0) demo_shard_follower (applyMsgOf (demo_entries ! 0)) \<noteq> None"
    "SKV_applyHandler (\<lambda>_. 0) (demo_apply demo_shard_follower 0) (applyMsgOf (demo_entries ! 1)) \<noteq> None"
    "commitIndex (skv_rf demo_shard_follower) = 2" "commitIndex (skv_rf (demo_apply demo_shard_follower 0)) = 2"
    by code_simp+
  with demo_apply_replica [OF demo_apply_replica [OF demo_shard_follower_replica]] show ?thesis
    by (simp add: demo_applied_def numeral_2_eq_2)
qed

text \<open>The states of the system along the run.\<close>

definition demo_s1 :: shard_system where
  "demo_s1 = (init_system demo_ctrl)\<lparr>ctrl := demo_ctrl1\<rparr>"

definition demo_s2 :: shard_system where
  "demo_s2 = commit 1 (getLastConfig_msg demo_cfg) (propose 1 (getLastConfig_msg demo_cfg) demo_s1)"

definition demo_s3 :: shard_system where
  "demo_s3 = commit 1 (kvMsg demo_write) (propose 1 (kvMsg demo_write) demo_s2)"

lemma demo_shard_reachable: "shard_reachable (\<lambda>_. 0) demo_s3"
proof -
  have "shard_reachable (\<lambda>_. 0) (init_system demo_ctrl)" unfolding demo_ctrl_def by (rule shard_reachable.start)
  then have s1: "shard_reachable (\<lambda>_. 0) demo_s1"
    unfolding demo_s1_def by (rule shard_reachable.control) (simp add: init_system_def demo_ctrl_step)
  have check: "getLastConfig_check demo_elected demo_cfg = Some 1" by code_simp
  have "shard_reachable (\<lambda>_. 0) (propose 1 (getLastConfig_msg demo_cfg) demo_s1)"
    by (rule shard_reachable.config [OF s1 demo_elected_replica _ check])
      (simp_all add: demo_s1_def demo_ctrl1_def SC_getConfig_def slice_get_def)
  then have s2: "shard_reachable (\<lambda>_. 0) demo_s2"
    unfolding demo_s2_def by (rule shard_reachable.commit) (simp add: propose_def)
  from shard_reachable.client [OF s2, of 1 demo_write] show ?thesis
    unfolding demo_s3_def by (rule shard_reachable.commit) (simp add: propose_def)
qed

lemma demo_s3_facts: "logs demo_s3 1 = demo_log" "hist demo_s3 7 = [demo_write]"
proof -
  show "logs demo_s3 1 = demo_log"
    by (simp add: demo_s3_def demo_s2_def demo_s1_def commit_def propose_def init_system_def demo_log_def)
  have "(case group_view 1 [getLastConfig_msg demo_cfg] of Some v \<Rightarrow> takes_effect v demo_write | None \<Rightarrow> False)"
    "shard demo_write = 7" "msgOpData (kvMsg demo_write) = demo_write" "CommandType (kvMsg demo_write) = KVOperation"
    by code_simp+
  then show "hist demo_s3 7 = [demo_write]"
    by (auto simp: demo_s3_def demo_s2_def demo_s1_def commit_def propose_def init_system_def record_effect_def
        getLastConfig_msg_def operation_types split: option.splits)
qed

section \<open>Servers of a reachable system\<close>

lemma replica_current:
  assumes "shard_reachable bl s" and "skv_replica bl g (logs s g) kv k" and "length (logs s g) \<le> k"
  shows "skv_view kv = state_of s g"
proof -
  have "group_view g (logs s g) = Some (skv_view kv)"
    using skv_replica_stands [OF assms(2)] skvp.stands_view [of g "logs s g" kv k] assms(3)
    by (simp add: group_view_def group_run_replay)
  then show ?thesis by (simp add: state_of_def)
qed

lemma replica_facts:
  assumes "shard_reachable bl s" and "skv_replica bl g (logs s g) kv k"
  shows "skv_view kv \<in> views g (logs s g)" "view_ok (configs (ctrl s)) g (skv_view kv)"
    "Num (skv_config kv) = int (cnum (skv_view kv))" "skv_config kv = configs (ctrl s) ! cnum (skv_view kv)"
  using replica_state [OF sys_okD(3) [OF shard_reachable_ok [OF assms(1)]], where bl = bl and g = g and kv = kv and k = k] assms(2)
  by simp_all

lemma demo_serving: "vStates (skv_view demo_applied) ! 7 = SERVING" "skv_shardsState demo_applied ! 7 = SERVING"
  "skv_currentState demo_applied = fmupd ''k'' ''v'' fmempty"
  by code_simp+

lemma demo_current: "skv_replica (\<lambda>_. 0) 1 (logs demo_s3 1) demo_applied 2" "length (logs demo_s3 1) \<le> 2"
  using demo_applied_replica by (simp_all add: demo_s3_facts demo_log_def)

section \<open>Properties\<close>

text \<open>C6. One group serves a shard: two servers that both serve a shard belong to the same group when
  they are in the same configuration, and also when both have applied their whole logs, whatever
  configurations their groups have reached.\<close>

theorem one_group_serves:
  assumes "shard_reachable bl s" and "i < NShards"
    and "skv_replica bl g (logs s g) kv k" and "skv_replica bl h (logs s h) kv' k'"
    and "skv_shardsState kv ! i = SERVING" and "skv_shardsState kv' ! i = SERVING"
    and "Num (skv_config kv) = Num (skv_config kv') \<or> length (logs s g) \<le> k \<and> length (logs s h) \<le> k'"
  shows "g = h"
proof -
  note inv = sys_okD(3) [OF shard_reachable_ok [OF assms(1)]]
  note V = replica_facts [OF assms(1,3)] and W = replica_facts [OF assms(1,4)]
  have st: "vStates (skv_view kv) ! i = SERVING" "vStates (skv_view kv') ! i = SERVING"
    using assms(5,6) by (simp_all add: skv_view_def)
  from assms(7) show ?thesis
  proof
    assume "Num (skv_config kv) = Num (skv_config kv')"
    with V(3) W(3) have "cnum (skv_view kv) = cnum (skv_view kv')" by simp
    with served_serving(2) [OF inv V(1) assms(2) st(1)] served_serving(2) [OF inv W(1) assms(2) st(2)]
    show ?thesis by simp
  next
    assume "length (logs s g) \<le> k \<and> length (logs s h) \<le> k'"
    with replica_current [OF assms(1,3)] replica_current [OF assms(1,4)] st one_server [OF inv assms(2), of g h]
    show ?thesis by simp
  qed
qed

theorem one_group_serves_witness:
  "skv_shardsState demo_applied ! 7 = SERVING \<and>
   {h. \<exists>kv. skv_replica (\<lambda>_. 0) h (logs demo_s3 h) kv (length (logs demo_s3 h)) \<and> skv_shardsState kv ! 7 = SERVING}
     \<subseteq> {1}"
  using one_group_serves [OF demo_shard_reachable _ demo_current(1), of 7] demo_current(2) demo_serving(2)
  by (auto simp: NShards_def)

text \<open>C2. Migration is invisible: however a shard has moved between groups, the group that serves it
  holds exactly the result of the operations that ever took effect on the shard, in their order,
  and no request took effect twice, even when its copies were applied by different groups.\<close>

theorem shard_data_is_history:
  assumes "shard_reachable bl s" and "i < NShards" and "skv_replica bl g (logs s g) kv k"
    and "length (logs s g) \<le> k" and "skv_shardsState kv ! i = SERVING"
  shows "shard_data i (skv_currentState kv) = run_ops (hist s i) \<and>
    distinct (map (\<lambda>op. (ClientID op, SeqNum op)) (hist s i)) \<and>
    (\<forall>op \<in> set (hist s i). key2shard (Key op) = int i \<and> SeqNum op \<le> map_get 0 (skv_clientSeq kv) (ClientID op))"
proof -
  note H = data_okD [OF sys_okD(5) [OF shard_reachable_ok [OF assms(1)] assms(2)]]
  have view: "skv_view kv = state_of s g" by (rule replica_current [OF assms(1,3,4)])
  have "vStates (skv_view kv) ! i = SERVING" using assms(5) by (simp add: skv_view_def)
  with view H(4) [of g] have "holds (skv_view kv) i (hist s i)" by simp
  with H(2,3) shard_lt(2) show ?thesis by (auto simp: holds_def skv_view_def requests_def)
qed

theorem shard_data_is_history_witness:
  "shard_data 7 (skv_currentState demo_applied) = run_ops [demo_write]"
  using shard_data_is_history [OF demo_shard_reachable _ demo_current demo_serving(2)]
  by (simp add: NShards_def demo_s3_facts)



text \<open>C21. Every server's view of the shards is consistent: its configuration is the controller's
  configuration of that number, a shard is served or being pulled exactly when the configuration
  gives it to the group, it waits to be pulled only when the previous configuration gave it to the
  group, and the server has data for served and waiting shards only.\<close>

theorem server_shards_consistent:
  assumes "shard_reachable bl s" and "skv_replica bl g (logs s g) kv k" and "i < NShards"
  shows "SC_getConfig (ctrl s) (Num (skv_config kv)) = Some (skv_config kv) \<and>
    (skv_shardsState kv ! i \<in> {SERVING, PULLING} \<longleftrightarrow>
       0 < Num (skv_config kv) \<and> Shards (skv_config kv) ! i = g) \<and>
    (skv_shardsState kv ! i = BEPULLED \<longrightarrow>
       Shards (skv_prevConfig kv) ! i = g \<and> Num (skv_prevConfig kv) = Num (skv_config kv) - 1) \<and>
    (skv_shardsState kv ! i \<notin> {SERVING, BEPULLED} \<longrightarrow> shard_data i (skv_currentState kv) = fmempty)"
proof -
  note ok = shard_reachable_ok [OF assms(1)]
  let ?v = "skv_view kv" and ?cs = "configs (ctrl s)"
  note V = replica_facts [OF assms(1,2)]
  note st = view_okD(5) [OF V(2) assms(3)]
  have num: "cnum ?v < length ?cs" using view_okD(1) [OF V(2)] .
  have "SC_getConfig (ctrl s) (Num (skv_config kv)) = Some (skv_config kv)"
    using cc.query_known [OF sys_okD(1) [OF ok], of "int (cnum ?v)"] num V(3,4) by simp
  moreover have "vConfig ?v = skv_config kv" "vPrev ?v = skv_prevConfig kv" "vStates ?v = skv_shardsState kv"
      "vStore ?v = skv_currentState kv" by (simp_all add: skv_view_def)
  moreover have "Num (?cs ! (cnum ?v - 1)) = int (cnum ?v - 1)"
    using cc.known_num [OF sys_okD(1) [OF ok]] num by simp
  ultimately show ?thesis
    using st V(3,4) view_okD(2,3,6) [OF V(2)] shard_data_empty [of ?v i]
    by (auto simp: state_ok_def owner_def split: shard_state.splits)
qed

theorem server_shards_consistent_witness:
  "SC_getConfig (ctrl demo_s3) 1 = Some (skv_config demo_applied) \<and> Shards (skv_config demo_applied) ! 7 = 1"
proof -
  have "Num (skv_config demo_applied) = 1" by code_simp
  with server_shards_consistent [OF demo_shard_reachable demo_current(1), of 7] demo_serving(2) show ?thesis
    by (simp add: NShards_def)
qed










end
