(* ===== verification/KV_Server.thy ===== *)
theory KV_Server
  imports Kv_Machine Wait_Chan Raft_Step
begin

text \<open>
  The replicated key/value server: \<open>src/kvraft/server.go\<close> and \<open>src/kvraft/common.go\<close>. A server is a
  raft peer with a store, a duplicate table and wait channels. \<open>KV_applyHandler\<close> is one iteration
  of the apply loop; the RPC handlers are split where they release the lock, as in the
  controller. \<open>byteLen\<close> is the length in bytes of raft's encoded state, a property of \<open>labgob\<close>.
\<close>

section \<open>Data\<close>

record PutAppendArgs =
  paKey :: string
  paValue :: string
  paOp :: string
  paClientID :: int
  paSeqNum :: int

record PutAppendReply =
  paErr :: Err

record GetArgs =
  gaKey :: string
  gaClientID :: int
  gaSeqNum :: int

record GetReply =
  grErr :: Err
  grValue :: string

datatype KV_gob = GStore kv_map | GSeq session_map

record KVServer =
  kv_me :: int
  kv_rf :: "(Op, KV_gob) Raft"
  kv_dead :: bool
  kv_maxraftstate :: int
  kv_currentState :: kv_map
  kv_waitChan :: "Op wait_table"
  kv_clientSeq :: session_map
  kv_lastIncludedIndex :: int

section \<open>Persistence\<close>

definition KV_getServerPersistData :: "KVServer \<Rightarrow> KV_gob list" where
  "KV_getServerPersistData kv = [GStore (kv_currentState kv), GSeq (kv_clientSeq kv)]"

definition KV_readServerPersistData :: "KVServer \<Rightarrow> KV_gob list \<Rightarrow> KVServer" where
  "KV_readServerPersistData kv data =
     (case data of
        GStore st # GSeq seqs # _ \<Rightarrow> kv\<lparr>kv_currentState := st, kv_clientSeq := seqs\<rparr>
      | _ \<Rightarrow> kv)"

section \<open>Applying\<close>

definition KV_applyToStateMachine :: "KVServer \<Rightarrow> Op \<Rightarrow> KVServer" where
  "KV_applyToStateMachine kv op =
     (let kv1 = kv\<lparr>kv_clientSeq := fmupd (ClientID op) (SeqNum op) (kv_clientSeq kv)\<rparr> in
      if Optype op = ''Put''
      then kv1\<lparr>kv_currentState := fmupd (Key op) (Value op) (kv_currentState kv1)\<rparr>
      else if Optype op = ''Append''
      then kv1\<lparr>kv_currentState :=
             fmupd (Key op) (map_get '''' (kv_currentState kv1) (Key op) @ Value op) (kv_currentState kv1)\<rparr>
      else kv1)"

text \<open>From the duplicate check to the call of \<open>applyToStateMachine\<close>: the server and the operation
  that is sent to the waiting handler.\<close>

definition KV_applyCommand :: "KVServer \<Rightarrow> Op \<Rightarrow> KVServer \<times> Op" where
  "KV_applyCommand kv op =
     (let kv1 = (if fmlookup (kv_clientSeq kv) (ClientID op) = None
                 then kv\<lparr>kv_clientSeq := fmupd (ClientID op) 0 (kv_clientSeq kv)\<rparr> else kv);
          appliedOp = (if Optype op = ''Get''
                       then op\<lparr>Value := map_get '''' (kv_currentState kv1) (Key op)\<rparr> else op)
      in if map_get 0 (kv_clientSeq kv1) (ClientID op) \<ge> SeqNum op then (kv1, appliedOp)
         else (KV_applyToStateMachine kv1 appliedOp, appliedOp))"

definition KV_takeSnapshot :: "(Op raft_gob list \<Rightarrow> int) \<Rightarrow> KVServer \<Rightarrow> int \<Rightarrow> KVServer option" where
  "KV_takeSnapshot byteLen kv index =
     (if kv_maxraftstate kv \<noteq> -1 \<and> GetStateSize byteLen (kv_rf kv) > kv_maxraftstate kv
      then do {
        rf' \<leftarrow> Snapshot (kv_rf kv) index (KV_getServerPersistData kv);
        Some (kv\<lparr>kv_rf := rf'\<rparr>)
      }
      else Some kv)"

definition KV_applyHandler ::
  "(Op raft_gob list \<Rightarrow> int) \<Rightarrow> KVServer \<Rightarrow> (Op, KV_gob) ApplyMsg \<Rightarrow> KVServer option" where
  "KV_applyHandler byteLen kv msg =
     (if \<not> CommandValid msg \<and> SnapshotValid msg
      then do {
        (rf', ok) \<leftarrow> CondInstallSnapshot (kv_rf kv) (SnapshotTerm msg) (SnapshotIndex msg) (Snapshot_data msg);
        if \<not> ok then Some (kv\<lparr>kv_rf := rf'\<rparr>)
        else Some ((KV_readServerPersistData (kv\<lparr>kv_rf := rf'\<rparr>) (Snapshot_data msg))
                     \<lparr>kv_lastIncludedIndex := SnapshotIndex msg\<rparr>)
      }
      else do {
        let op = (case Command msg of Some op \<Rightarrow> op | None \<Rightarrow> zeroKvOp);
        if CommandIndex msg \<le> kv_lastIncludedIndex kv then Some kv
        else do {
          let (kv1, appliedOp) = KV_applyCommand kv op;
          kv2 \<leftarrow> KV_takeSnapshot byteLen kv1 (CommandIndex msg);
          t \<leftarrow> notify (kv_waitChan kv2) (CommandIndex msg) appliedOp;
          Some (kv2\<lparr>kv_waitChan := t\<rparr>)
        }
      })"

section \<open>Requests\<close>

definition KV_getWaitCh :: "KVServer \<Rightarrow> int \<Rightarrow> KVServer \<times> nat" where
  "KV_getWaitCh kv index =
     (let (t, c) = get_wait (kv_waitChan kv) index in (kv\<lparr>kv_waitChan := t\<rparr>, c))"

text \<open>The calls into raft, shared by both handlers: \<open>None\<close> is \<open>ErrWrongLeader\<close>.\<close>

definition KV_enter :: "KVServer \<Rightarrow> Op \<Rightarrow> (KVServer \<times> int option) option" where
  "KV_enter kv op =
     (if \<not> snd (GetState (kv_rf kv)) then Some (kv, None)
      else do {
        (rf', index, _, isLeader, _) \<leftarrow> Start (kv_rf kv) op;
        Some (kv\<lparr>kv_rf := rf'\<rparr>, if isLeader then Some index else None)
      })"

definition KV_Get_enter :: "KVServer \<Rightarrow> GetArgs \<Rightarrow> (KVServer \<times> (GetReply + int)) option" where
  "KV_Get_enter kv args = do {
     (kv', r) \<leftarrow> KV_enter kv \<lparr>ClientID = gaClientID args, SeqNum = gaSeqNum args, Key = gaKey args,
                                Value = '''', Optype = ''Get''\<rparr>;
     Some (kv', case r of None \<Rightarrow> Inl \<lparr>grErr = ErrWrongLeader, grValue = ''''\<rparr> | Some index \<Rightarrow> Inr index)
   }"

definition KV_Get_finish :: "GetArgs \<Rightarrow> Op received option \<Rightarrow> GetReply" where
  "KV_Get_finish args outcome =
     (case outcome of
        Some (Message applyOp) \<Rightarrow>
          if SeqNum applyOp = gaSeqNum args \<and> ClientID applyOp = gaClientID args
          then \<lparr>grErr = OK, grValue = Value applyOp\<rparr> else \<lparr>grErr = ErrWrongLeader, grValue = ''''\<rparr>
      | _ \<Rightarrow> \<lparr>grErr = ErrWrongLeader, grValue = ''''\<rparr>)"

definition KV_PutAppend_enter ::
  "KVServer \<Rightarrow> PutAppendArgs \<Rightarrow> (KVServer \<times> (PutAppendReply + int)) option" where
  "KV_PutAppend_enter kv args = do {
     (kv', r) \<leftarrow> KV_enter kv \<lparr>ClientID = paClientID args, SeqNum = paSeqNum args, Key = paKey args,
                                Value = paValue args, Optype = paOp args\<rparr>;
     Some (kv', case r of None \<Rightarrow> Inl \<lparr>paErr = ErrWrongLeader\<rparr> | Some index \<Rightarrow> Inr index)
   }"

definition KV_PutAppend_finish :: "PutAppendArgs \<Rightarrow> Op received option \<Rightarrow> PutAppendReply" where
  "KV_PutAppend_finish args outcome =
     (case outcome of
        Some (Message applyOp) \<Rightarrow>
          if SeqNum applyOp = paSeqNum args \<and> ClientID applyOp = paClientID args
          then \<lparr>paErr = OK\<rparr> else \<lparr>paErr = ErrWrongLeader\<rparr>
      | _ \<Rightarrow> \<lparr>paErr = ErrWrongLeader\<rparr>)"

text \<open>The goroutine spawned on every way out of both handlers.\<close>

definition KV_cleanup :: "KVServer \<Rightarrow> nat \<Rightarrow> int \<Rightarrow> KVServer option" where
  "KV_cleanup kv c index = do {
     t \<leftarrow> close_wait (kv_waitChan kv) c index;
     Some (kv\<lparr>kv_waitChan := t\<rparr>)
   }"

section \<open>Life cycle\<close>

definition KV_Kill :: "KVServer \<Rightarrow> KVServer" where
  "KV_Kill kv = kv\<lparr>kv_dead := True, kv_rf := Kill (kv_rf kv)\<rparr>"

definition KV_killed :: "KVServer \<Rightarrow> bool" where
  "KV_killed kv = kv_dead kv"

definition StartKVServer ::
  "int \<Rightarrow> nat \<Rightarrow> int \<Rightarrow> (Op raft_gob, KV_gob) Persister \<Rightarrow> int \<Rightarrow> KVServer" where
  "StartKVServer now servers i ps maxraftstate =
     (let rf = Make now servers i ps;
          kv = \<lparr>kv_me = i, kv_rf = rf, kv_dead = False, kv_maxraftstate = maxraftstate,
                kv_currentState = fmempty, kv_waitChan = make_table, kv_clientSeq = fmempty,
                kv_lastIncludedIndex = 0\<rparr>;
          snap = GetSnapshot rf
      in if length snap > 0 then KV_readServerPersistData kv snap else kv)"

end
