(* ===== verification/KV_Inv.thy ===== *)
theory KV_Inv
  imports KV_Server Raft_Service
begin

text \<open>
  Properties of the replicated key/value server. The reference machine \<open>KV_step\<close> is what a log entry
  does to the store and the duplicate table; the apply loop implements it, a retried operation
  takes effect once, and every replica's state is the replay of a prefix of the log, through
  snapshots taken, received and reloaded after a crash.
\<close>

section \<open>Store and table\<close>

definition kv_view :: "KVServer \<Rightarrow> kv_map \<times> session_map" where
  "kv_view kv = (kv_currentState kv, kv_clientSeq kv)"

definition kv_save :: "kv_map \<times> session_map \<Rightarrow> KV_gob list" where
  "kv_save s = [GStore (fst s), GSeq (snd s)]"

definition kv_restore :: "kv_map \<times> session_map \<Rightarrow> KV_gob list \<Rightarrow> kv_map \<times> session_map" where
  "kv_restore s data = (case data of GStore st # GSeq seqs # _ \<Rightarrow> (st, seqs) | _ \<Rightarrow> s)"

lemma KV_applyCommand_eq:
  "KV_applyCommand kv op =
   (kv\<lparr>kv_currentState := fst (KV_step (kv_view kv) op), kv_clientSeq := snd (KV_step (kv_view kv) op)\<rparr>,
    KV_answer (kv_view kv) op)"
proof -
  have "fmupd c n (touch m c) = fmupd c n m" for c n and m :: session_map
    by (rule fmap_ext) (simp add: touch_def)
  then show ?thesis
    by (simp add: KV_applyCommand_def KV_applyToStateMachine_def KV_step_def kv_view_def KV_answer_def
        KV_effect_def Let_def touch_def map_get_def)
qed

lemma KV_persist_view:
  "KV_getServerPersistData kv = kv_save (kv_view kv)"
  "kv_view (KV_readServerPersistData kv data) = kv_restore (kv_view kv) data"
  by (auto simp: KV_getServerPersistData_def kv_save_def kv_view_def KV_readServerPersistData_def
      kv_restore_def split: list.splits KV_gob.splits)

lemma KV_read_frame:
  "kv_rf (KV_readServerPersistData kv data) = kv_rf kv"
  "kv_waitChan (KV_readServerPersistData kv data) = kv_waitChan kv"
  by (auto simp: KV_readServerPersistData_def split: list.splits KV_gob.splits)

section \<open>Interfaces\<close>

definition KV_perform :: "KVServer \<Rightarrow> Op \<Rightarrow> KVServer" where
  "KV_perform kv op = fst (KV_applyCommand kv op)"

lemma KV_perform_view: "kv_view (KV_perform kv op) = KV_step (kv_view kv) op"
  by (simp add: KV_perform_def KV_applyCommand_eq kv_view_def)

interpretation kvd: dedup_machine KV_perform kv_currentState
  "\<lambda>kv. map_get 0 (kv_clientSeq kv)" "\<lambda>_ _. True" ClientID SeqNum KV_effect
  by unfold_locales
    (auto simp: KV_perform_def KV_applyCommand_eq KV_step_def kv_view_def fun_eq_iff map_get_upd)

interpretation kvs: snapshot_machine "\<lambda>s op. Some (KV_step s op)" kv_save kv_restore
  by unfold_locales (simp_all add: kv_save_def kv_restore_def)

lemma kv_replay: "kvs.replay ops s = Some (foldl KV_step s ops)"
  by (induction ops arbitrary: s) simp_all

lemma kv_runs_view: "kv_view (kvd.runs kv ops) = foldl KV_step (kv_view kv) ops"
  by (induction ops arbitrary: kv) (simp_all add: KV_perform_view)

section \<open>The apply loop\<close>

definition kv_inv :: "KVServer \<Rightarrow> bool" where
  "kv_inv kv \<longleftrightarrow> raft_good (kv_rf kv) \<and> table_sound (kv_waitChan kv)"

definition kvMsgOp :: "(Op, KV_gob) ApplyMsg \<Rightarrow> Op" where
  "kvMsgOp msg = (case Command msg of Some op \<Rightarrow> op | None \<Rightarrow> zeroKvOp)"

lemma KV_takeSnapshot_cases:
  assumes "KV_takeSnapshot bl kv i = Some kv'"
  shows "kv' = kv \<or> (\<exists>rf'. Snapshot (kv_rf kv) i (kv_save (kv_view kv)) = Some rf' \<and> kv' = kv\<lparr>kv_rf := rf'\<rparr>)"
  using assms by (auto simp: KV_takeSnapshot_def KV_persist_view split: Option.bind_splits if_splits)

lemma KV_takeSnapshot_ok:
  assumes "raft_good (kv_rf kv)" and "i \<le> commitIndex (kv_rf kv)"
  shows "\<exists>kv'. KV_takeSnapshot bl kv i = Some kv' \<and> raft_good (kv_rf kv') \<and> kv_waitChan kv' = kv_waitChan kv"
proof -
  obtain rf' where "Snapshot (kv_rf kv) i (KV_getServerPersistData kv) = Some rf'" "raft_good rf'"
    using rs.take_old [of i "kv_rf kv"] rs.take_new [of "kv_rf kv" i] assms
    by (cases "i \<le> lastIncludedIndex (kv_rf kv)") force+
  with assms(1) show ?thesis by (simp add: KV_takeSnapshot_def)
qed

lemma KV_applyHandler_command:
  assumes "CommandValid msg" and "kv_lastIncludedIndex kv < CommandIndex msg"
    and "KV_applyHandler bl kv msg = Some kv'"
  shows "\<exists>kv2. KV_takeSnapshot bl (fst (KV_applyCommand kv (kvMsgOp msg))) (CommandIndex msg) = Some kv2 \<and>
    kv_rf kv' = kv_rf kv2 \<and> kv_view kv' = KV_step (kv_view kv) (kvMsgOp msg) \<and>
    kv_lastIncludedIndex kv' = kv_lastIncludedIndex kv"
proof -
  let ?kv1 = "fst (KV_applyCommand kv (kvMsgOp msg))"
  obtain kv2 t where "KV_takeSnapshot bl ?kv1 (CommandIndex msg) = Some kv2" "kv' = kv2\<lparr>kv_waitChan := t\<rparr>"
    using assms unfolding KV_applyHandler_def kvMsgOp_def [symmetric] Let_def
    by (auto simp: split_beta split: Option.bind_splits)
  moreover from KV_takeSnapshot_cases [OF this(1)]
  have "kv_view kv2 = kv_view ?kv1 \<and> kv_lastIncludedIndex kv2 = kv_lastIncludedIndex ?kv1"
    by (auto simp: kv_view_def)
  ultimately show ?thesis by (auto simp: KV_applyCommand_eq kv_view_def)
qed

lemma KV_applyHandler_notifies:
  assumes "CommandValid msg" and "kv_lastIncludedIndex kv < CommandIndex msg"
    and "KV_applyHandler bl kv msg = Some kv'"
  shows "notify (kv_waitChan kv) (CommandIndex msg) (KV_answer (kv_view kv) (kvMsgOp msg)) = Some (kv_waitChan kv')"
proof -
  let ?kv1 = "fst (KV_applyCommand kv (kvMsgOp msg))"
  obtain kv2 t where "KV_takeSnapshot bl ?kv1 (CommandIndex msg) = Some kv2" "kv' = kv2\<lparr>kv_waitChan := t\<rparr>"
      "notify (kv_waitChan kv2) (CommandIndex msg) (snd (KV_applyCommand kv (kvMsgOp msg))) = Some t"
    using assms unfolding KV_applyHandler_def kvMsgOp_def [symmetric] Let_def
    by (auto simp: split_beta split: Option.bind_splits)
  with KV_takeSnapshot_cases [OF this(1)] show ?thesis by (auto simp: KV_applyCommand_eq)
qed

text \<open>The loop does not panic on a committed command.\<close>

lemma KV_applyHandler_runs:
  assumes "kv_inv kv" and "CommandValid msg" and "CommandIndex msg \<le> commitIndex (kv_rf kv)"
  shows "\<exists>kv'. KV_applyHandler bl kv msg = Some kv' \<and> kv_inv kv'"
proof (cases "CommandIndex msg \<le> kv_lastIncludedIndex kv")
  case True
  with assms show ?thesis by (simp add: KV_applyHandler_def)
next
  case False
  let ?kv1 = "fst (KV_applyCommand kv (kvMsgOp msg))"
  have "kv_rf ?kv1 = kv_rf kv" "kv_waitChan ?kv1 = kv_waitChan kv" by (simp_all add: KV_applyCommand_eq)
  then obtain kv2 where kv2: "KV_takeSnapshot bl ?kv1 (CommandIndex msg) = Some kv2" "raft_good (kv_rf kv2)"
      "kv_waitChan kv2 = kv_waitChan kv"
    using KV_takeSnapshot_ok [of ?kv1 "CommandIndex msg" bl] assms by (auto simp: kv_inv_def)
  obtain t where "notify (kv_waitChan kv) (CommandIndex msg) (snd (KV_applyCommand kv (kvMsgOp msg))) = Some t"
      "table_sound t"
    using notify_ok [of "kv_waitChan kv"] assms(1) by (auto simp: kv_inv_def)
  with kv2 False assms(2) have "KV_applyHandler bl kv msg = Some (kv2\<lparr>kv_waitChan := t\<rparr>)"
    unfolding KV_applyHandler_def kvMsgOp_def [symmetric] Let_def by (simp add: split_beta)
  with kv2(2) \<open>table_sound t\<close> show ?thesis by (simp add: kv_inv_def)
qed

section \<open>Replicas\<close>

text \<open>
  The servers that share a log, at the number of commands each has replayed: a server boots with
  an empty disk, applies the next committed command (and snapshots when its log is too large),
  skips commands that a snapshot overtook, receives the snapshot another server stored, lets raft run, serves handlers, and restarts from
  its disk.
\<close>

inductive kv_replica :: "(Op raft_gob list \<Rightarrow> int) \<Rightarrow> Op list \<Rightarrow> KVServer \<Rightarrow> nat \<Rightarrow> bool" for bl log where
  boot: "0 \<le> i \<Longrightarrow> i < int n \<Longrightarrow> kv_replica bl log (StartKVServer now n i MakePersister m) 0"
| command: "kv_replica bl log kv k \<Longrightarrow> k < length log \<Longrightarrow> CommandValid msg \<Longrightarrow> Command msg = Some (log ! k) \<Longrightarrow>
     CommandIndex msg = int k + 1 \<Longrightarrow> CommandIndex msg \<le> commitIndex (kv_rf kv) \<Longrightarrow>
     KV_applyHandler bl kv msg = Some kv' \<Longrightarrow> kv_replica bl log kv' (Suc k)"
| stale: "kv_replica bl log kv k \<Longrightarrow> CommandValid msg \<Longrightarrow> CommandIndex msg \<le> kv_lastIncludedIndex kv \<Longrightarrow>
     KV_applyHandler bl kv msg = Some kv' \<Longrightarrow> kv_replica bl log kv' k"
| receive: "kv_replica bl log kv k \<Longrightarrow> kv_replica bl log kv2 j \<Longrightarrow> \<not> CommandValid msg \<Longrightarrow> SnapshotValid msg \<Longrightarrow>
     Snapshot_data msg = raft_stored (kv_rf kv2) \<Longrightarrow> raft_stored (kv_rf kv2) \<noteq> [] \<Longrightarrow>
     SnapshotIndex msg = lastIncludedIndex (kv_rf kv2) \<Longrightarrow> raft_term_ok (kv_rf kv) (SnapshotTerm msg) \<Longrightarrow>
     KV_applyHandler bl kv msg = Some kv' \<Longrightarrow>
     kv_replica bl log kv' (if commitIndex (kv_rf kv) < SnapshotIndex msg then nat (SnapshotIndex msg) else k)"
| raft: "kv_replica bl log kv k \<Longrightarrow> raft_internal (kv_rf kv) rf' \<Longrightarrow> kv_replica bl log (kv\<lparr>kv_rf := rf'\<rparr>) k"
| wait: "kv_replica bl log kv k \<Longrightarrow> kv_replica bl log (fst (KV_getWaitCh kv index)) k"
| cleanup: "kv_replica bl log kv k \<Longrightarrow> KV_cleanup kv c index = Some kv' \<Longrightarrow> kv_replica bl log kv' k"
| restart: "kv_replica bl log kv k \<Longrightarrow>
     kv_replica bl log (StartKVServer now (peers (kv_rf kv)) (me (kv_rf kv)) (persister (kv_rf kv)) m)
       (nat (lastIncludedIndex (kv_rf kv)))"

interpretation kvp: replicated_server "\<lambda>s op. Some (KV_step s op)" kv_save kv_restore
  raft_good lastIncludedIndex commitIndex raft_stored raft_term_ok Snapshot CondInstallSnapshot
  raft_reboot raft_internal kv_rf kv_view kv_lastIncludedIndex "(fmempty, fmempty)"
  by unfold_locales

lemma kv_view_start:
  "kv_view (StartKVServer now n i ps m) =
   (if ReadSnapshot ps = [] then (fmempty, fmempty) else kv_restore (fmempty, fmempty) (ReadSnapshot ps))"
  "kv_rf (StartKVServer now n i ps m) = Make now n i ps"
  "kv_lastIncludedIndex (StartKVServer now n i ps m) = 0"
  by (auto simp: StartKVServer_def Let_def GetSnapshot_def kv_view_def KV_readServerPersistData_def
      kv_restore_def split: list.splits KV_gob.splits)

lemma kv_stands_command:
  assumes "kvp.stands log kv k" and "k < length log" and "CommandValid msg" and "Command msg = Some (log ! k)"
    and "CommandIndex msg = int k + 1" and "CommandIndex msg \<le> commitIndex (kv_rf kv)"
    and "KV_applyHandler bl kv msg = Some kv'"
  shows "kvp.stands log kv' (Suc k)"
proof -
  let ?kv1 = "fst (KV_applyCommand kv (log ! k))"
  have op: "kvMsgOp msg = log ! k" using assms(4) by (simp add: kvMsgOp_def)
  obtain kv2 where kv2: "KV_takeSnapshot bl ?kv1 (CommandIndex msg) = Some kv2" "kv_rf kv' = kv_rf kv2"
      "kv_view kv' = KV_step (kv_view kv) (log ! k)" "kv_lastIncludedIndex kv' = kv_lastIncludedIndex kv"
    using KV_applyHandler_command [OF assms(3) _ assms(7)] assms(1,5) op by (auto simp: kvp.stands_def)
  have "kv_rf ?kv1 = kv_rf kv" "kv_view ?kv1 = kv_view kv'"
    using kv2(3) by (simp_all add: KV_applyCommand_eq kv_view_def)
  with KV_takeSnapshot_cases [OF kv2(1)] kv2(2)
  have "kv_rf kv' = kv_rf kv \<or> Snapshot (kv_rf kv) (int k + 1) (kv_save (kv_view kv')) = Some (kv_rf kv')"
    using assms(5) by auto
  then show ?thesis using assms kv2(3,4) by (intro kvp.stands_command) auto
qed

lemma kv_stands_receive:
  assumes "kvp.stands log kv k" and "kvp.stands log kv2 j" and "\<not> CommandValid msg" "SnapshotValid msg"
    and "Snapshot_data msg = raft_stored (kv_rf kv2)" and "raft_stored (kv_rf kv2) \<noteq> []"
    and "SnapshotIndex msg = lastIncludedIndex (kv_rf kv2)" and "raft_term_ok (kv_rf kv) (SnapshotTerm msg)"
    and "KV_applyHandler bl kv msg = Some kv'"
  shows "kvp.stands log kv' (if commitIndex (kv_rf kv) < SnapshotIndex msg then nat (SnapshotIndex msg) else k)"
proof -
  obtain rf' ok where rf': "CondInstallSnapshot (kv_rf kv) (SnapshotTerm msg) (SnapshotIndex msg) (Snapshot_data msg) = Some (rf', ok)"
    using assms(3,4,9) by (auto simp: KV_applyHandler_def split: Option.bind_splits)
  then have "kv_rf kv' = rf'" "kv_view kv' = (if ok then kv_restore (kv_view kv) (Snapshot_data msg) else kv_view kv)"
      "kv_lastIncludedIndex kv' = (if ok then SnapshotIndex msg else kv_lastIncludedIndex kv)"
    using assms(3,4,9) KV_persist_view(2) [of "kv\<lparr>kv_rf := rf'\<rparr>" "Snapshot_data msg"] KV_read_frame
    by (auto simp: KV_applyHandler_def kv_view_def split: if_splits)
  with rf' show ?thesis
    using kvp.stands_receive [OF assms(1,2,6,8,7,5), of kv' ok] by simp
qed

lemma kv_replica_stands: "kv_replica bl log kv k \<Longrightarrow> kvp.stands log kv k"
proof (induction rule: kv_replica.induct)
  case (boot i n now m)
  then show ?case by (intro kvp.stands_boot) (simp_all add: kv_view_start Make_fresh_good)
next
  case (command kv k msg kv')
  show ?case by (rule kv_stands_command [OF command.IH command.hyps(2-7)])
next
  case (stale kv k msg kv')
  then show ?case by (simp add: KV_applyHandler_def)
next
  case (receive kv k kv2 j msg kv')
  show ?case by (rule kv_stands_receive [OF receive.IH receive.hyps(3-9)])
next
  case (raft kv k rf')
  then show ?case by (elim kvp.stands_frame) (simp_all add: kv_view_def)
next
  case (wait kv k index)
  then show ?case by (elim kvp.stands_frame) (simp_all add: KV_getWaitCh_def kv_view_def split_beta)
next
  case (cleanup kv k c index kv')
  then show ?case
    by (elim kvp.stands_frame) (auto simp: KV_cleanup_def kv_view_def split: Option.bind_splits)
next
  case (restart kv k now m)
  show ?case
    by (rule kvp.stands_restart [OF restart.IH, where now = now])
      (simp_all add: kv_view_start raft_reboot_def raft_stored_def [symmetric])
qed

end
