(* ===== verification/Kv_Model.thy ===== *)
theory Kv_Model
  imports KV_Inv "HOL-Library.Char_ord" "HOL-Library.List_Lexorder"
begin

text \<open>
  The sequential specification the test suite checks histories against, \<open>src/models/kv.go\<close>, and the
  proof that the server meets it: the operations of a log, in log order, are accepted by the
  model key by key. With raft's guarantee that replicas apply one log this is linearizability:
  the log order is the linearization.
\<close>

section \<open>The model\<close>

record KvInput =
  inOp :: nat
  inKey :: string
  inValue :: string

record KvOutput =
  outValue :: string

record ('i, 'o) Operation =
  opClientId :: int
  opInput :: 'i
  opCall :: int
  opOutput :: 'o
  opReturn :: int

definition KvModel_Init :: string where
  "KvModel_Init = ''''"

definition KvModel_Step :: "string \<Rightarrow> KvInput \<Rightarrow> KvOutput \<Rightarrow> bool \<times> string" where
  "KvModel_Step st inp out =
     (if inOp inp = 0 then (outValue out = st, st)
      else if inOp inp = 1 then (True, inValue inp)
      else (True, st @ inValue inp))"

text \<open>\<open>order\<close> is the order in which the loop over \<open>m\<close> collects the keys before they are sorted.\<close>

definition groupByKey :: "(KvInput, 'o) Operation list \<Rightarrow> (string, (KvInput, 'o) Operation list) fmap" where
  "groupByKey history =
     fold (\<lambda>v m. fmupd (inKey (opInput v)) (map_get [] m (inKey (opInput v)) @ [v]) m) history fmempty"

definition KvModel_Partition ::
  "string list \<Rightarrow> (KvInput, 'o) Operation list \<Rightarrow> (KvInput, 'o) Operation list list" where
  "KvModel_Partition order history = map (map_get [] (groupByKey history)) (sort order)"

section \<open>Partitions\<close>

lemma groupByKey_get:
  fixes history :: "(KvInput, 'o) Operation list"
  shows "map_get [] (groupByKey history) k = filter (\<lambda>v. inKey (opInput v) = k) history"
proof -
  have "map_get [] (fold (\<lambda>v m. fmupd (inKey (opInput v)) (map_get [] m (inKey (opInput v)) @ [v]) m) h m) k =
      map_get [] m k @ filter (\<lambda>v. inKey (opInput v) = k) h" for h :: "(KvInput, 'o) Operation list" and m
    by (induction h arbitrary: m) (auto simp: map_get_upd)
  then show ?thesis by (simp add: groupByKey_def map_get_empty)
qed

lemma groupByKey_dom:
  fixes history :: "(KvInput, 'o) Operation list"
  shows "fmdom' (groupByKey history) = (\<lambda>v. inKey (opInput v)) ` set history"
proof -
  have "fmdom' (fold (\<lambda>v m. fmupd (inKey (opInput v)) (map_get [] m (inKey (opInput v)) @ [v]) m) h m) =
      fmdom' m \<union> (\<lambda>v. inKey (opInput v)) ` set h" for h :: "(KvInput, 'o) Operation list" and m
    by (induction h arbitrary: m) auto
  then show ?thesis by (simp add: groupByKey_def)
qed

text \<open>A partition per key, in key order, each the operations of its key in their original order.\<close>

lemma KvModel_Partition_eq:
  assumes "distinct order" and "set order = fmdom' (groupByKey history)"
  shows "KvModel_Partition order history =
    map (\<lambda>k. filter (\<lambda>v. inKey (opInput v) = k) history)
      (sorted_list_of_set ((\<lambda>v. inKey (opInput v)) ` set history))"
proof -
  have "sort order = sorted_list_of_set ((\<lambda>v. inKey (opInput v)) ` set history)"
    using assms groupByKey_dom [of history] by (metis sorted_list_of_set_sort_remdups distinct_remdups_id)
  then show ?thesis by (simp add: KvModel_Partition_def groupByKey_get)
qed

section \<open>Running the model\<close>

fun model_run :: "string \<Rightarrow> (KvInput \<times> KvOutput) list \<Rightarrow> (bool \<times> string)" where
  "model_run st [] = (True, st)"
| "model_run st ((i, out) # rest) =
     (case KvModel_Step st i out of (ok, st') \<Rightarrow>
        if ok then model_run st' rest else (False, st'))"

text \<open>What the clients of a log observe: every \<open>Get\<close> with the value sent to its handler, and every
  write that takes effect. A repeated write is one operation of its client.\<close>

fun observed :: "kv_map \<times> session_map \<Rightarrow> Op list \<Rightarrow> (KvInput \<times> KvOutput) list" where
  "observed s [] = []"
| "observed s (op # ops) =
     (if Optype op = ''Get''
      then [(\<lparr>inOp = 0, inKey = Key op, inValue = ''''\<rparr>, \<lparr>outValue = Value (KV_answer s op)\<rparr>)]
      else if SeqNum op \<le> map_get 0 (snd s) (ClientID op) then []
      else if Optype op = ''Put''
      then [(\<lparr>inOp = 1, inKey = Key op, inValue = Value op\<rparr>, \<lparr>outValue = ''''\<rparr>)]
      else if Optype op = ''Append''
      then [(\<lparr>inOp = 2, inKey = Key op, inValue = Value op\<rparr>, \<lparr>outValue = ''''\<rparr>)]
      else []) @ observed (KV_step s op) ops"

lemma model_run_Cons:
  "model_run st (x # xs) =
   (if fst (KvModel_Step st (fst x) (snd x)) then model_run (snd (KvModel_Step st (fst x) (snd x))) xs
    else (False, snd (KvModel_Step st (fst x) (snd x))))"
  by (cases x) (simp add: split_beta)

lemma observed_accepted:
  "model_run (map_get '''' (fst s) k) (filter (\<lambda>p. inKey (fst p) = k) (observed s ops)) =
   (True, map_get '''' (fst (foldl KV_step s ops)) k)"
proof (induction ops arbitrary: s)
  case (Cons op ops)
  show ?case
    using Cons [of "KV_step s op"]
    by (auto simp: KV_step_def KV_effect_def KV_answer_def KvModel_Step_def map_get_upd)
qed simp

end
