(* ===== verification/KV_Props.thy ===== *)
theory KV_Props
  imports Kv_Model
begin

text \<open>The properties of the key/value server, with a small run that the witnesses use.\<close>

section \<open>A run\<close>

text \<open>One follower of three: it accepts the leader's entry, learns from the next heartbeat that the
  entry is committed, and applies it.\<close>

definition demo_put :: Op where
  "demo_put = \<lparr>ClientID = 7, SeqNum = 1, Key = ''k'', Value = ''v'', Optype = ''Put''\<rparr>"

definition demo_kv :: KVServer where
  "demo_kv = StartKVServer 0 3 1 MakePersister (-1)"

definition demo_append :: "int \<Rightarrow> Op LogEntry list \<Rightarrow> int \<Rightarrow> Op AppendEntriesArgs" where
  "demo_append prev entries commit = \<lparr>aeTerm = 1, LeaderId = 0, PrevLogIndex = prev, PrevLogTerm = min 1 prev,
     Entries = entries, LeaderCommit = commit\<rparr>"

definition demo_entry :: "Op LogEntry" where
  "demo_entry = \<lparr>eTerm = 1, eCommand = Some demo_put, eIndex = 1\<rparr>"

definition demo_rf :: "(Op, KV_gob) Raft" where
  "demo_rf = (case raft_run [EvAppendEntries 1 (demo_append 0 [demo_entry] 0),
                             EvAppendEntries 2 (demo_append 1 [] 1)] (kv_rf demo_kv) of
     Some rf \<Rightarrow> rf | None \<Rightarrow> kv_rf demo_kv)"

definition demo_command :: "(Op, KV_gob) ApplyMsg" where
  "demo_command = applyMsgOf demo_entry"

definition demo_kv2 :: KVServer where
  "demo_kv2 = (case KV_applyHandler (\<lambda>_. 0) (demo_kv\<lparr>kv_rf := demo_rf\<rparr>) demo_command of
     Some kv \<Rightarrow> kv | None \<Rightarrow> demo_kv)"

lemma demo_rf_internal:
  obtains rf1 where "raft_internal (kv_rf demo_kv) rf1" and "raft_internal rf1 demo_rf"
proof -
  let ?e1 = "EvAppendEntries 1 (demo_append 0 [demo_entry] 0) :: (Op, KV_gob) raft_event"
  let ?e2 = "EvAppendEntries 2 (demo_append 1 [] 1) :: (Op, KV_gob) raft_event"
  obtain rf1 where rf1: "raft_exec ?e1 (kv_rf demo_kv) = Some rf1"
    "raft_exec ?e2 rf1 = Some demo_rf" "commitIndex (kv_rf demo_kv) = 0"
  proof -
    have "raft_exec ?e1 (kv_rf demo_kv) \<noteq> None"
      "(case raft_exec ?e1 (kv_rf demo_kv) of None \<Rightarrow> None | Some rf \<Rightarrow> raft_exec ?e2 rf) = Some demo_rf"
      "commitIndex (kv_rf demo_kv) = 0"
      by code_simp+
    then show thesis using that by (auto split: option.splits)
  qed
  have "event_ok (kv_rf demo_kv) ?e1" "event_ok rf1 ?e2"
    using rf1(3) by (simp_all add: ae_wf_def committed_agrees_def demo_append_def demo_entry_def)
  with rf1(1,2) have "raft_internal (kv_rf demo_kv) rf1" "raft_internal rf1 demo_rf"
    unfolding raft_internal_def by (metis internal_event.simps(5))+
  then show thesis by (rule that)
qed

lemma demo_applies: "KV_applyHandler (\<lambda>_. 0) (demo_kv\<lparr>kv_rf := demo_rf\<rparr>) demo_command = Some demo_kv2"
  by code_simp

lemma demo_commit: "commitIndex demo_rf = 1"
  by code_simp

lemma demo_replica0: "kv_replica (\<lambda>_. 0) [demo_put] (demo_kv\<lparr>kv_rf := demo_rf\<rparr>) 0"
proof -
  obtain rf1 where rf1: "raft_internal (kv_rf demo_kv) rf1" "raft_internal rf1 demo_rf"
    by (rule demo_rf_internal)
  have "kv_replica (\<lambda>_. 0) [demo_put] demo_kv 0" unfolding demo_kv_def by (rule kv_replica.boot) simp_all
  from kv_replica.raft [OF this rf1(1)]
  have "kv_replica (\<lambda>_. 0) [demo_put] (demo_kv\<lparr>kv_rf := rf1\<rparr>) 0" .
  from kv_replica.raft [OF this, of demo_rf] rf1(2) show ?thesis by simp
qed

lemma demo_replica: "kv_replica (\<lambda>_. 0) [demo_put] demo_kv2 1"
  using kv_replica.command [OF demo_replica0 _ _ _ _ _ demo_applies] demo_commit
  by (simp add: demo_command_def applyMsgOf_def demo_entry_def)

section \<open>Properties\<close>

text \<open>C4. State machine replication: whatever a server has been through, commands, its own snapshots,
  snapshots of others and crashes, its store and duplicate table are the result of the reference
  machine on the first \<open>k\<close> commands of the log, so servers at the same position are equal.\<close>

theorem kv_replica_state:
  assumes "kv_replica bl log kv k"
  shows "kv_view kv = foldl KV_step (fmempty, fmempty) (take k log)"
  using kvp.stands_view [OF kv_replica_stands [OF assms]] by (simp add: kv_replay)

theorem kv_replica_state_witness:
  "kv_replica (\<lambda>_. 0) [demo_put] demo_kv2 1 \<and> kv_view demo_kv2 = KV_step (fmempty, fmempty) demo_put"
  using kv_replica_state [OF demo_replica] demo_replica by simp

text \<open>C16. Linearizability against the test suite's sequential model: for every key, the operations
  on it that clients observe, in log order with the values a replica answers, are accepted by
  \<open>KvModel.Step\<close> from the initial value, and they lead to the value the replica holds.\<close>

theorem kv_linearizable:
  assumes "kv_replica bl log kv k"
  shows "model_run KvModel_Init
      (filter (\<lambda>p. inKey (fst p) = key) (observed (fmempty, fmempty) (take k log))) =
      (True, map_get '''' (kv_currentState kv) key) \<and>
    snd (KV_applyCommand kv op) = KV_answer (foldl KV_step (fmempty, fmempty) (take k log)) op"
proof -
  have "kv_view kv = foldl KV_step (fmempty, fmempty) (take k log)"
    using kvp.stands_view [OF kv_replica_stands [OF assms]] by (simp add: kv_replay)
  with observed_accepted [of "(fmempty, fmempty)" key "take k log"] show ?thesis
    by (auto simp: KvModel_Init_def map_get_empty KV_applyCommand_eq kv_view_def dest: sym)
qed

theorem kv_linearizable_witness:
  "model_run KvModel_Init (filter (\<lambda>p. inKey (fst p) = ''k'') (observed (fmempty, fmempty) [demo_put])) =
     (True, map_get '''' (kv_currentState demo_kv2) ''k'') \<and>
   snd (KV_applyCommand demo_kv2 demo_put) = KV_answer (KV_step (fmempty, fmempty) demo_put) demo_put"
  using kv_linearizable [OF demo_replica, of "''k''" demo_put] by simp

text \<open>C8. Exactly once: when the log holds any number of copies of each request, at any distance, and no
  request is overtaken by a later one of its client, the store is the result of each request that
  is above the duplicate table taking effect once, in the order of the log.\<close>

theorem kv_exactly_once:
  assumes "issued_in_order ClientID SeqNum {} ops"
  shows "\<exists>eff. subseq eff ops \<and> distinct (map (\<lambda>op. (ClientID op, SeqNum op)) eff) \<and>
    (\<forall>op \<in> set ops. map_get 0 (kv_clientSeq kv) (ClientID op) < SeqNum op \<longrightarrow>
       (ClientID op, SeqNum op) \<in> (\<lambda>op. (ClientID op, SeqNum op)) ` set eff) \<and>
    kv_currentState (foldl KV_perform kv ops) = foldl (\<lambda>st op. KV_effect op st) (kv_currentState kv) eff"
  using kvd.fresh_ops_subseq kvd.fresh_ops_once kvd.fresh_ops_complete [OF assms]
    kvd.runs_data [of kv ops, unfolded kvd.runs_def]
  by (intro exI [of _ "kvd.fresh_ops (\<lambda>_. True) (map_get 0 (kv_clientSeq kv)) ops"] conjI ballI impI) auto

definition demo_op :: "int \<Rightarrow> string \<Rightarrow> Op" where
  "demo_op n v = \<lparr>ClientID = 7, SeqNum = n, Key = ''k'', Value = v, Optype = ''Append''\<rparr>"

theorem kv_exactly_once_witness:
  "\<exists>eff. subseq eff [demo_op 1 ''a'', demo_op 1 ''a'', demo_op 2 ''b'', demo_op 1 ''a''] \<and>
    distinct (map (\<lambda>op. (ClientID op, SeqNum op)) eff) \<and>
    kv_currentState (foldl KV_perform demo_kv
      [demo_op 1 ''a'', demo_op 1 ''a'', demo_op 2 ''b'', demo_op 1 ''a'']) =
    foldl (\<lambda>st op. KV_effect op st) (kv_currentState demo_kv) eff"
  using kv_exactly_once [of "[demo_op 1 ''a'', demo_op 1 ''a'', demo_op 2 ''b'', demo_op 1 ''a'']" demo_kv]
  by (auto simp: demo_op_def)

text \<open>C24. The apply loop never panics: on a sound server, a committed command and a snapshot that raft
  hands over are processed and leave the server sound, whatever handlers are waiting.\<close>

theorem kv_apply_never_panics:
  assumes "kv_inv kv"
    and "if CommandValid msg then CommandIndex msg \<le> commitIndex (kv_rf kv)
         else SnapshotValid msg \<and> raft_term_ok (kv_rf kv) (SnapshotTerm msg)"
  shows "\<exists>kv'. KV_applyHandler bl kv msg = Some kv' \<and> kv_inv kv'"
proof (cases "CommandValid msg")
  case True
  with KV_applyHandler_runs [OF assms(1)] assms(2) show ?thesis by simp
next
  case False
  then have snap: "SnapshotValid msg" "raft_term_ok (kv_rf kv) (SnapshotTerm msg)" using assms(2) by simp_all
  obtain rf' ok where "CondInstallSnapshot (kv_rf kv) (SnapshotTerm msg) (SnapshotIndex msg) (Snapshot_data msg) =
      Some (rf', ok)" "raft_good rf'"
    using rs.install_old [of "SnapshotIndex msg" "kv_rf kv"] rs.install_new [of "kv_rf kv" "SnapshotIndex msg"]
      snap(2) assms(1) by (cases "SnapshotIndex msg \<le> commitIndex (kv_rf kv)") (force simp: kv_inv_def)+
  with False snap(1) assms(1) show ?thesis
    by (auto simp: KV_applyHandler_def kv_inv_def KV_readServerPersistData_def
        split: list.splits KV_gob.splits)
qed

theorem kv_apply_never_panics_witness:
  "\<exists>kv'. KV_applyHandler (\<lambda>_. 0) (demo_kv\<lparr>kv_rf := demo_rf\<rparr>) demo_command = Some kv' \<and> kv_inv kv'"
proof -
  have "raft_good demo_rf" using kvp.stands_good [OF kv_replica_stands [OF demo_replica0]] by simp
  moreover have "kv_waitChan demo_kv = make_table" by code_simp
  ultimately have "kv_inv (demo_kv\<lparr>kv_rf := demo_rf\<rparr>)" by (simp add: kv_inv_def table_sound_make)
  then show ?thesis
    by (rule kv_apply_never_panics) (simp add: demo_command_def applyMsgOf_def demo_entry_def demo_commit)
qed


definition demo_wait :: KVServer where
  "demo_wait = fst (KV_getWaitCh (demo_kv2\<lparr>kv_rf := demo_rf\<rparr>) 2)"



text \<open>C35. Two handlers that wait on one log index crash the server: a leader that loses its entry and
  leads again can return the same index to a second handler while the first still waits. Both get
  the same channel and both close it, and the second close panics.\<close>

theorem shared_index_crashes:
  assumes "KV_getWaitCh kv index = (kv1, c1)" and "KV_getWaitCh kv1 index = (kv2, c2)"
    and "KV_cleanup kv2 c1 index = Some kv3"
  shows "KV_cleanup kv3 c2 index = None"
proof -
  have "c2 = c1" using shared_channel [of "kv_waitChan kv" index] assms(1,2)
    by (auto simp: KV_getWaitCh_def split_beta)
  with assms(3) close_twice_panics [of "kv_waitChan kv2" c1 index _ index] show ?thesis
    by (auto simp: KV_cleanup_def split: Option.bind_splits)
qed

theorem shared_index_crashes_witness:
  "\<exists>kv3. KV_cleanup demo_wait 0 2 = Some kv3 \<and> KV_cleanup kv3 0 2 = None"
proof -
  have "KV_getWaitCh (demo_kv2\<lparr>kv_rf := demo_rf\<rparr>) 2 = (demo_wait, 0)" "KV_getWaitCh demo_wait 2 = (demo_wait, 0)"
      "KV_cleanup demo_wait 0 2 \<noteq> None"
    by code_simp+
  with shared_index_crashes [OF this(1,2)] show ?thesis by auto
qed

end
