(* ===== verification/Clerks.thy ===== *)
theory Clerks
  imports KV_Server SKV_Server
begin

text \<open>
  The clients: \<open>src/kvraft/client.go\<close>, \<open>src/shardctrler/client.go\<close> and \<open>src/shardkv/client.go\<close>. A clerk sends
  one request at a time and retries until a server accepts it. The network is a parameter:
  \<open>net k j args\<close> is what the \<open>k\<close>-th call of the clerk gives when it goes to server \<open>j\<close>, whether the call
  succeeded and the reply; \<open>rnd k\<close> is the random number drawn for the \<open>k\<close>-th call. The retry loops
  are \<open>partial_function\<close>s: \<open>None\<close> is a panic or a loop that never ends. The loops also return the number
  of the last call.
\<close>

section \<open>Clerk of the key/value service\<close>

record KV_Clerk =
  ck_servers :: nat
  ck_clientID :: int
  ck_seqNum :: int
  ck_leaderID :: int

text \<open>A random number below \<open>2^62\<close>.\<close>

definition nrand :: "int \<Rightarrow> int" where
  "nrand r = r mod 2 ^ 62"

definition KV_MakeClerk :: "int \<Rightarrow> nat \<Rightarrow> KV_Clerk" where
  "KV_MakeClerk r servers = \<lparr>ck_servers = servers, ck_clientID = nrand r, ck_seqNum = 1, ck_leaderID = -1\<rparr>"

text \<open>\<open>%\<close> by zero panics.\<close>

definition KV_getRandServer :: "KV_Clerk \<Rightarrow> int \<Rightarrow> int option" where
  "KV_getRandServer ck r = (if ck_servers ck = 0 then None else Some (nrand r mod int (ck_servers ck)))"

text \<open>The server of the next call; indexing \<open>ck.servers\<close> out of range panics.\<close>

definition KV_pickServer :: "KV_Clerk \<Rightarrow> int \<Rightarrow> bool \<Rightarrow> int option" where
  "KV_pickServer ck r lastReplyErrLeader = do {
     leaderID \<leftarrow> (if lastReplyErrLeader \<or> ck_leaderID ck = -1 then KV_getRandServer ck r else Some (ck_leaderID ck));
     if 0 \<le> leaderID \<and> leaderID < int (ck_servers ck) then Some leaderID else None
   }"

partial_function (option) KV_Get_loop ::
  "(nat \<Rightarrow> int \<Rightarrow> GetArgs \<Rightarrow> bool \<times> GetReply) \<Rightarrow> (nat \<Rightarrow> int) \<Rightarrow> KV_Clerk \<Rightarrow> GetArgs \<Rightarrow> bool \<Rightarrow> nat \<Rightarrow>
   (KV_Clerk \<times> string \<times> nat) option" where
  "KV_Get_loop net rnd ck args lastReplyErrLeader k = do {
     leaderID \<leftarrow> KV_pickServer ck (rnd k) lastReplyErrLeader;
     let (ok, reply) = net k leaderID args;
     if \<not> ok \<or> grErr reply = ErrWrongLeader then KV_Get_loop net rnd ck args True (Suc k)
     else if grErr reply = OK
     then Some (ck\<lparr>ck_seqNum := ck_seqNum ck + 1, ck_leaderID := leaderID\<rparr>, grValue reply, k)
     else if grErr reply = ErrNoKey
     then Some (ck\<lparr>ck_seqNum := ck_seqNum ck + 1, ck_leaderID := leaderID\<rparr>, '''', k)
     else KV_Get_loop net rnd ck args lastReplyErrLeader (Suc k)
   }"

definition KV_Clerk_Get ::
  "(nat \<Rightarrow> int \<Rightarrow> GetArgs \<Rightarrow> bool \<times> GetReply) \<Rightarrow> (nat \<Rightarrow> int) \<Rightarrow> KV_Clerk \<Rightarrow> string \<Rightarrow>
   (KV_Clerk \<times> string \<times> nat) option" where
  "KV_Clerk_Get net rnd ck key =
     KV_Get_loop net rnd ck \<lparr>gaKey = key, gaClientID = ck_clientID ck, gaSeqNum = ck_seqNum ck\<rparr> False 0"

partial_function (option) KV_PutAppend_loop ::
  "(nat \<Rightarrow> int \<Rightarrow> PutAppendArgs \<Rightarrow> bool \<times> PutAppendReply) \<Rightarrow> (nat \<Rightarrow> int) \<Rightarrow> KV_Clerk \<Rightarrow> PutAppendArgs \<Rightarrow> bool \<Rightarrow> nat \<Rightarrow>
   (KV_Clerk \<times> nat) option" where
  "KV_PutAppend_loop net rnd ck args lastReplyErrLeader k = do {
     leaderID \<leftarrow> KV_pickServer ck (rnd k) lastReplyErrLeader;
     let (ok, reply) = net k leaderID args;
     if \<not> ok \<or> paErr reply = ErrWrongLeader then KV_PutAppend_loop net rnd ck args True (Suc k)
     else if paErr reply = OK
     then Some (ck\<lparr>ck_seqNum := ck_seqNum ck + 1, ck_leaderID := leaderID\<rparr>, k)
     else KV_PutAppend_loop net rnd ck args lastReplyErrLeader (Suc k)
   }"

definition KV_Clerk_PutAppend ::
  "(nat \<Rightarrow> int \<Rightarrow> PutAppendArgs \<Rightarrow> bool \<times> PutAppendReply) \<Rightarrow> (nat \<Rightarrow> int) \<Rightarrow> KV_Clerk \<Rightarrow> string \<Rightarrow> string \<Rightarrow> string \<Rightarrow>
   (KV_Clerk \<times> nat) option" where
  "KV_Clerk_PutAppend net rnd ck key value op =
     KV_PutAppend_loop net rnd ck
       \<lparr>paKey = key, paValue = value, paOp = op, paClientID = ck_clientID ck, paSeqNum = ck_seqNum ck\<rparr> False 0"

definition KV_Clerk_Put where
  "KV_Clerk_Put net rnd ck key value = KV_Clerk_PutAppend net rnd ck key value ''Put''"

definition KV_Clerk_Append where
  "KV_Clerk_Append net rnd ck key value = KV_Clerk_PutAppend net rnd ck key value ''Append''"

section \<open>Clerk of the controller\<close>

record SC_Clerk =
  scck_servers :: nat
  scck_clientID :: int
  scck_seqNum :: int
  scck_leaderID :: int

definition SC_MakeClerk :: "int \<Rightarrow> nat \<Rightarrow> SC_Clerk" where
  "SC_MakeClerk r servers =
     \<lparr>scck_servers = servers, scck_clientID = nrand r, scck_seqNum = 1, scck_leaderID = -1\<rparr>"

definition SC_getRandServer :: "SC_Clerk \<Rightarrow> int \<Rightarrow> int option" where
  "SC_getRandServer ck r = (if scck_servers ck = 0 then None else Some (nrand r mod int (scck_servers ck)))"

text \<open>The two nested loops of \<open>Request\<close>: \<open>i\<close> is the position in \<open>ck.servers\<close>, and behind the last server the
  outer loop starts over.\<close>

partial_function (option) SC_Request ::
  "(nat \<Rightarrow> nat \<Rightarrow> CommandArgs \<Rightarrow> bool \<times> CommandReply) \<Rightarrow> SC_Clerk \<Rightarrow> CommandArgs \<Rightarrow> nat \<Rightarrow> nat \<Rightarrow>
   (SC_Clerk \<times> CommandReply \<times> nat) option" where
  "SC_Request net ck args i k =
     (if i < scck_servers ck
      then let (ok, reply) = net k i args in
           if ok \<and> \<not> crWrongLeader reply
           then Some (ck\<lparr>scck_seqNum := scck_seqNum ck + 1\<rparr>, reply, k)
           else SC_Request net ck args (Suc i) (Suc k)
      else SC_Request net ck args 0 k)"

definition zeroCommandArgs :: CommandArgs where
  "zeroCommandArgs = \<lparr>caArgsType = 0, caServers = fmempty, caGIDs = [], caShard = 0, caGID = 0, caNum = 0,
     caSeqNum = 0, caClientID = 0\<rparr>"

definition SC_args :: "SC_Clerk \<Rightarrow> CommandArgs" where
  "SC_args ck = zeroCommandArgs\<lparr>caClientID := scck_clientID ck, caSeqNum := scck_seqNum ck\<rparr>"

definition SC_Clerk_Query where
  "SC_Clerk_Query net ck num k = do {
     (ck', reply, k') \<leftarrow> SC_Request net ck ((SC_args ck)\<lparr>caArgsType := QueryArgsType, caNum := num\<rparr>) 0 k;
     Some (ck', crConfig reply, k')
   }"

definition SC_Clerk_Join where
  "SC_Clerk_Join net ck servers k =
     SC_Request net ck ((SC_args ck)\<lparr>caArgsType := JoinArgsType, caServers := servers\<rparr>) 0 k"

definition SC_Clerk_Leave where
  "SC_Clerk_Leave net ck gids k =
     SC_Request net ck ((SC_args ck)\<lparr>caArgsType := LeaveArgsType, caGIDs := gids\<rparr>) 0 k"

definition SC_Clerk_Move where
  "SC_Clerk_Move net ck shard gid k =
     SC_Request net ck ((SC_args ck)\<lparr>caArgsType := MoveArgsType, caShard := shard, caGID := gid\<rparr>) 0 k"

section \<open>Clerk of the sharded service\<close>

record SKV_Clerk =
  skck_sm :: SC_Clerk
  skck_config :: Config
  skck_clientID :: int
  skck_seqNum :: int

text \<open>\<open>cnet\<close> are the calls to the controllers, counted by \<open>kc\<close>; \<open>net\<close> the calls to the servers of the
  groups, by server name.\<close>

definition SKV_MakeClerk where
  "SKV_MakeClerk cnet r r' ctrlers kc = do {
     (sm, config, kc') \<leftarrow> SC_Clerk_Query cnet (SC_MakeClerk r ctrlers) (-1) kc;
     Some (\<lparr>skck_sm = sm, skck_config = config, skck_clientID = nrand r', skck_seqNum = 1\<rparr>, kc')
   }"

fun SKV_Get_servers ::
  "(nat \<Rightarrow> string \<Rightarrow> SKV_GetArgs \<Rightarrow> bool \<times> SKV_GetReply) \<Rightarrow> SKV_GetArgs \<Rightarrow> string list \<Rightarrow> nat \<Rightarrow> string option \<times> nat" where
  "SKV_Get_servers net args [] k = (None, k)"
| "SKV_Get_servers net args (srv # servers) k =
     (let (ok, reply) = net k srv args in
      if ok \<and> (sgrErr reply = OK \<or> sgrErr reply = ErrNoKey) then (Some (sgrValue reply), k)
      else if ok \<and> sgrErr reply = ErrWrongGroup then (None, Suc k)
      else SKV_Get_servers net args servers (Suc k))"

fun SKV_PutAppend_servers ::
  "(nat \<Rightarrow> string \<Rightarrow> SKV_PutAppendArgs \<Rightarrow> bool \<times> SKV_PutAppendReply) \<Rightarrow> SKV_PutAppendArgs \<Rightarrow> string list \<Rightarrow> nat \<Rightarrow>
   unit option \<times> nat" where
  "SKV_PutAppend_servers net args [] k = (None, k)"
| "SKV_PutAppend_servers net args (srv # servers) k =
     (let (ok, reply) = net k srv args in
      if ok \<and> sprErr reply = OK then (Some (), k)
      else if ok \<and> sprErr reply = ErrWrongGroup then (None, Suc k)
      else SKV_PutAppend_servers net args servers (Suc k))"

text \<open>The servers the clerk tries for a key: none when its configuration has no such group.\<close>

definition SKV_servers :: "SKV_Clerk \<Rightarrow> string \<Rightarrow> string list option" where
  "SKV_servers ck key = do {
     gid \<leftarrow> slice_get (Shards (skck_config ck)) (key2shard key);
     Some (case fmlookup (Groups (skck_config ck)) gid of Some servers \<Rightarrow> servers | None \<Rightarrow> [])
   }"

definition SKV_refresh where
  "SKV_refresh cnet ck kc = do {
     (sm, config, kc') \<leftarrow> SC_Clerk_Query cnet (skck_sm ck) (-1) kc;
     Some (ck\<lparr>skck_sm := sm, skck_config := config\<rparr>, Suc kc')
   }"

partial_function (option) SKV_Get_loop ::
  "(nat \<Rightarrow> string \<Rightarrow> SKV_GetArgs \<Rightarrow> bool \<times> SKV_GetReply) \<Rightarrow> (nat \<Rightarrow> nat \<Rightarrow> CommandArgs \<Rightarrow> bool \<times> CommandReply) \<Rightarrow>
   SKV_Clerk \<Rightarrow> SKV_GetArgs \<Rightarrow> nat \<Rightarrow> nat \<Rightarrow> (SKV_Clerk \<times> string \<times> nat) option" where
  "SKV_Get_loop net cnet ck args k kc = do {
     servers \<leftarrow> SKV_servers ck (sgaKey args);
     let (answer, k') = SKV_Get_servers net args servers k;
     (case answer of
        Some v \<Rightarrow> Some (ck\<lparr>skck_seqNum := skck_seqNum ck + 1\<rparr>, v, k')
      | None \<Rightarrow> do {
          (ck', kc') \<leftarrow> SKV_refresh cnet ck kc;
          SKV_Get_loop net cnet ck' args k' kc'
        })
   }"

definition SKV_Clerk_Get where
  "SKV_Clerk_Get net cnet ck key kc =
     SKV_Get_loop net cnet ck \<lparr>sgaKey = key, sgaClientID = skck_clientID ck, sgaSeqNum = skck_seqNum ck\<rparr> 0 kc"

partial_function (option) SKV_PutAppend_loop ::
  "(nat \<Rightarrow> string \<Rightarrow> SKV_PutAppendArgs \<Rightarrow> bool \<times> SKV_PutAppendReply) \<Rightarrow>
   (nat \<Rightarrow> nat \<Rightarrow> CommandArgs \<Rightarrow> bool \<times> CommandReply) \<Rightarrow>
   SKV_Clerk \<Rightarrow> SKV_PutAppendArgs \<Rightarrow> nat \<Rightarrow> nat \<Rightarrow> (SKV_Clerk \<times> nat) option" where
  "SKV_PutAppend_loop net cnet ck args k kc = do {
     servers \<leftarrow> SKV_servers ck (spaKey args);
     let (answer, k') = SKV_PutAppend_servers net args servers k;
     (case answer of
        Some _ \<Rightarrow> Some (ck\<lparr>skck_seqNum := skck_seqNum ck + 1\<rparr>, k')
      | None \<Rightarrow> do {
          (ck', kc') \<leftarrow> SKV_refresh cnet ck kc;
          SKV_PutAppend_loop net cnet ck' args k' kc'
        })
   }"

definition SKV_Clerk_PutAppend where
  "SKV_Clerk_PutAppend net cnet ck key value op kc =
     SKV_PutAppend_loop net cnet ck
       \<lparr>spaKey = key, spaValue = value, spaOp = op, spaClientID = skck_clientID ck, spaSeqNum = skck_seqNum ck\<rparr> 0 kc"

definition SKV_Clerk_Put where
  "SKV_Clerk_Put net cnet ck key value kc = SKV_Clerk_PutAppend net cnet ck key value ''Put'' kc"

definition SKV_Clerk_Append where
  "SKV_Clerk_Append net cnet ck key value kc = SKV_Clerk_PutAppend net cnet ck key value ''Append'' kc"

end
