(* ===== verification/Clerk_Props.thy ===== *)
theory Clerk_Props
  imports Clerks KV_Inv
begin

text \<open>
  What the clerks guarantee: which call a request returns from and what it leaves in the clerk, that
  the retry loops end when a server keeps accepting, and that the requests of any number of clerks
  reach the replicated log in an order in which duplicate filtering makes them take effect exactly once.
\<close>

section \<open>Picking a server\<close>

lemma nrand_range: "0 \<le> nrand r" "nrand r < 2 ^ 62"
  by (simp_all add: nrand_def)

lemma pickServer_random:
  assumes "0 < ck_servers ck"
  shows "KV_pickServer ck r True = Some (nrand r mod int (ck_servers ck))"
  using assms by (simp add: KV_pickServer_def KV_getRandServer_def)

definition KV_Clerk_ok :: "KV_Clerk \<Rightarrow> bool" where
  "KV_Clerk_ok ck \<longleftrightarrow> 0 < ck_servers ck \<and> -1 \<le> ck_leaderID ck \<and> ck_leaderID ck < int (ck_servers ck)"

lemma pickServer_total: "KV_Clerk_ok ck \<Longrightarrow> \<exists>j. KV_pickServer ck r b = Some j"
  by (auto simp: KV_Clerk_ok_def KV_pickServer_def KV_getRandServer_def)

lemma pickServer_SomeD: "KV_pickServer ck r b = Some j \<Longrightarrow> 0 \<le> j \<and> j < int (ck_servers ck)"
  by (auto simp: KV_pickServer_def split: Option.bind_splits if_splits)

section \<open>A retry loop ends\<close>

text \<open>
  \<open>loop b k\<close> is the rest of a retry loop before its \<open>k\<close>-th call, \<open>b\<close> whether a call has failed. A call goes
  to the server that \<open>pick\<close> gives; \<open>finish\<close> is the result when the reply ends the loop.
\<close>

locale retrying =
  fixes loop :: "bool \<Rightarrow> nat \<Rightarrow> 'r option"
    and pick :: "bool \<Rightarrow> nat \<Rightarrow> int option"
    and call :: "nat \<Rightarrow> int \<Rightarrow> bool \<times> 'reply"
    and err :: "'reply \<Rightarrow> Err"
    and finish :: "int \<Rightarrow> 'reply \<Rightarrow> nat \<Rightarrow> 'r option"
  assumes loop_step: "pick b k = Some j \<Longrightarrow> loop b k =
      (if \<not> fst (call k j) \<or> err (snd (call k j)) = ErrWrongLeader then loop True (Suc k)
       else case finish j (snd (call k j)) k of Some x \<Rightarrow> Some x | None \<Rightarrow> loop b (Suc k))"
begin

definition accepted :: "nat \<Rightarrow> int \<Rightarrow> bool" where
  "accepted k j \<longleftrightarrow> fst (call k j) \<and> err (snd (call k j)) \<noteq> ErrWrongLeader \<and> finish j (snd (call k j)) k \<noteq> None"

definition refused :: "nat \<Rightarrow> int \<Rightarrow> bool" where
  "refused k j \<longleftrightarrow> \<not> fst (call k j) \<or> err (snd (call k j)) = ErrWrongLeader"

lemma step_accepted: "pick b k = Some j \<Longrightarrow> accepted k j \<Longrightarrow> loop b k = finish j (snd (call k j)) k"
  by (auto simp: loop_step accepted_def)

lemma step_refused: "pick b k = Some j \<Longrightarrow> refused k j \<Longrightarrow> loop b k = loop True (Suc k)"
  by (auto simp: loop_step refused_def)

text \<open>One server accepts, the others refuse: the loop ends at the latest when the random choice hits it.\<close>

lemma finds_leader:
  assumes "\<And>b k. \<exists>j. pick b k = Some j" and "\<And>k. accepted k L" and "\<And>k j. j \<noteq> L \<Longrightarrow> refused k j"
    and "pick True m = Some L" and "k \<le> m" and "b \<or> k < m"
  shows "\<exists>i. k \<le> i \<and> i \<le> m \<and> loop b k = finish L (snd (call i L)) i"
  using assms(5,6)
proof (induction "m - k" arbitrary: b k)
  case 0
  then have "pick b k = Some L" using assms(4) by auto
  then show ?case using step_accepted [OF _ assms(2)] 0 by blast
next
  case (Suc d)
  obtain j where j: "pick b k = Some j" using assms(1) by blast
  show ?case
  proof (cases "j = L")
    case True
    then show ?thesis using step_accepted [OF _ assms(2)] j Suc.prems by blast
  next
    case False
    have "\<exists>i. Suc k \<le> i \<and> i \<le> m \<and> loop True (Suc k) = finish L (snd (call i L)) i"
      using Suc.hyps(2) by (intro Suc.hyps(1)) auto
    then show ?thesis using step_refused [OF j assms(3)] False Suc_leD by metis
  qed
qed

end

definition KV_Get_result :: "KV_Clerk \<Rightarrow> int \<Rightarrow> GetReply \<Rightarrow> nat \<Rightarrow> (KV_Clerk \<times> string \<times> nat) option" where
  "KV_Get_result ck j reply k =
     (if grErr reply = OK then Some (ck\<lparr>ck_seqNum := ck_seqNum ck + 1, ck_leaderID := j\<rparr>, grValue reply, k)
      else if grErr reply = ErrNoKey then Some (ck\<lparr>ck_seqNum := ck_seqNum ck + 1, ck_leaderID := j\<rparr>, '''', k)
      else None)"

definition KV_PutAppend_result :: "KV_Clerk \<Rightarrow> int \<Rightarrow> PutAppendReply \<Rightarrow> nat \<Rightarrow> (KV_Clerk \<times> nat) option" where
  "KV_PutAppend_result ck j reply k =
     (if paErr reply = OK then Some (ck\<lparr>ck_seqNum := ck_seqNum ck + 1, ck_leaderID := j\<rparr>, k) else None)"

interpretation getr: retrying "KV_Get_loop net rnd ck args" "\<lambda>b k. KV_pickServer ck (rnd k) b"
  "\<lambda>k j. net k j args" grErr "KV_Get_result ck" for net rnd ck args
  by unfold_locales (subst KV_Get_loop.simps, auto simp: KV_Get_result_def Let_def split: prod.splits)

interpretation putr: retrying "KV_PutAppend_loop net rnd ck args" "\<lambda>b k. KV_pickServer ck (rnd k) b"
  "\<lambda>k j. net k j args" paErr "KV_PutAppend_result ck" for net rnd ck args
  by unfold_locales (subst KV_PutAppend_loop.simps, auto simp: KV_PutAppend_result_def Let_def split: prod.splits)

text \<open>A returned request: the last call was accepted by a server of the clerk.\<close>

lemma Get_loop_returned:
  "KV_Get_loop net rnd ck args b k = Some r \<Longrightarrow>
   \<exists>m j reply. k \<le> m \<and> 0 \<le> j \<and> j < int (ck_servers ck) \<and> net m j args = (True, reply) \<and>
     KV_Get_result ck j reply m = Some r"
proof (induction rule: KV_Get_loop.raw_induct [rotated 1, consumes 1, case_names step])
  case (step f net rnd ck args b k r)
  obtain j where j: "KV_pickServer ck (rnd k) b = Some j" using step(2) by (auto split: Option.bind_splits)
  obtain ok reply where call: "net k j args = (ok, reply)" by fastforce
  note r = step(2) [simplified j Option.bind_lunit Let_def call prod.case]
  show ?case
  proof (cases "\<not> ok \<or> grErr reply = ErrWrongLeader \<or> (grErr reply \<noteq> OK \<and> grErr reply \<noteq> ErrNoKey)")
    case True
    then have "\<exists>b. f net rnd ck args b (Suc k) = Some r" using r by (auto split: if_splits)
    then show ?thesis using step(1) Suc_leD by meson
  next
    case False
    then show ?thesis using r call pickServer_SomeD [OF j]
      by (intro exI [of _ k] exI [of _ j] exI [of _ reply]) (auto simp: KV_Get_result_def split: if_splits)
  qed
qed

lemma PutAppend_loop_returned:
  "KV_PutAppend_loop net rnd ck args b k = Some r \<Longrightarrow>
   \<exists>m j reply. k \<le> m \<and> 0 \<le> j \<and> j < int (ck_servers ck) \<and> net m j args = (True, reply) \<and>
     KV_PutAppend_result ck j reply m = Some r"
proof (induction rule: KV_PutAppend_loop.raw_induct [rotated 1, consumes 1, case_names step])
  case (step f net rnd ck args b k r)
  obtain j where j: "KV_pickServer ck (rnd k) b = Some j" using step(2) by (auto split: Option.bind_splits)
  obtain ok reply where call: "net k j args = (ok, reply)" by fastforce
  note r = step(2) [simplified j Option.bind_lunit Let_def call prod.case]
  show ?case
  proof (cases "ok \<and> paErr reply = OK")
    case False
    then have "\<exists>b. f net rnd ck args b (Suc k) = Some r" using r by (auto split: if_splits)
    then show ?thesis using step(1) Suc_leD by meson
  next
    case True
    then show ?thesis using r call pickServer_SomeD [OF j]
      by (intro exI [of _ k] exI [of _ j] exI [of _ reply]) (auto simp: KV_PutAppend_result_def split: if_splits)
  qed
qed

section \<open>Requests to the controller\<close>

definition SC_accepts :: "bool \<times> CommandReply \<Rightarrow> bool" where
  "SC_accepts c \<longleftrightarrow> fst c \<and> \<not> crWrongLeader (snd c)"

lemma SC_Request_step:
  assumes "i < scck_servers ck"
  shows "SC_Request net ck args i k =
    (if SC_accepts (net k i args) then Some (ck\<lparr>scck_seqNum := scck_seqNum ck + 1\<rparr>, snd (net k i args), k)
     else SC_Request net ck args (Suc i mod scck_servers ck) (Suc k))"
proof (cases "Suc i = scck_servers ck")
  case True
  have "SC_Request net ck args (Suc i) (Suc k) = SC_Request net ck args 0 (Suc k)"
    using True by (subst SC_Request.simps) simp
  then show ?thesis using assms True by (subst SC_Request.simps) (auto simp: SC_accepts_def split: prod.split)
next
  case False
  then show ?thesis using assms by (subst SC_Request.simps) (auto simp: SC_accepts_def split: prod.split)
qed

lemma SC_Request_skip:
  assumes "i < scck_servers ck" and "k \<le> m"
    and "\<And>l. k \<le> l \<Longrightarrow> l < m \<Longrightarrow> \<not> SC_accepts (net l ((i + (l - k)) mod scck_servers ck) args)"
  shows "SC_Request net ck args i k = SC_Request net ck args ((i + (m - k)) mod scck_servers ck) m"
  using assms(2,3)
proof (induction "m - k" arbitrary: m)
  case 0
  then show ?case using assms(1) by simp
next
  case (Suc d)
  then obtain m' where m: "m = Suc m'" and km: "k \<le> m'" by (cases m) auto
  have "SC_Request net ck args i k = SC_Request net ck args ((i + (m' - k)) mod scck_servers ck) m'"
    using Suc m km by (intro Suc.hyps(1)) auto
  also have "\<dots> = SC_Request net ck args (Suc ((i + (m' - k)) mod scck_servers ck) mod scck_servers ck) m"
    using Suc.prems(2) [of m'] m km assms(1) by (subst SC_Request_step) auto
  finally show ?case using m km by (simp add: mod_Suc_eq Suc_diff_le)
qed

lemma SC_Request_Some_accepts:
  "SC_Request net ck args i k = Some r \<Longrightarrow>
   \<exists>m j. k \<le> m \<and> j < scck_servers ck \<and> SC_accepts (net m j args) \<and> (i \<le> scck_servers ck \<longrightarrow> j = (i + (m - k)) mod scck_servers ck)"
proof (induction rule: SC_Request.raw_induct [rotated 1, consumes 1, case_names step])
  case (step f net ck args i k r)
  show ?case
  proof (cases "i < scck_servers ck")
    case False
    then obtain m j where "k \<le> m" "j < scck_servers ck" "SC_accepts (net m j args)" "j = (m - k) mod scck_servers ck"
      using step(1) [of net ck args 0 k r] step(2) by auto
    moreover have "(i + (m - k)) mod scck_servers ck = (m - k) mod scck_servers ck" if "i \<le> scck_servers ck"
      using that False mod_add_self1 [of "scck_servers ck" "m - k"] by (simp add: le_less del: Nat.add_diff_assoc)
    ultimately show ?thesis by metis
  next
    case True
    show ?thesis
    proof (cases "SC_accepts (net k i args)")
      case a: True
      moreover have "i = (i + (k - k)) mod scck_servers ck" using True by simp
      ultimately show ?thesis using True le_refl by metis
    next
      case a: False
      then have "f net ck args (Suc i) (Suc k) = Some r"
        using step(2) True by (auto simp: SC_accepts_def split: prod.splits if_splits)
      then obtain m j where m: "Suc k \<le> m" "j < scck_servers ck" "SC_accepts (net m j args)"
          "j = (Suc i + (m - Suc k)) mod scck_servers ck"
        using step(1) [of net ck args "Suc i" "Suc k" r] True by auto
      moreover have "Suc i + (m - Suc k) = i + (m - k)" using m(1) by simp
      ultimately show ?thesis by (metis Suc_leD)
    qed
  qed
qed

text \<open>The calls of a request from the first server on, in order: the one that is numbered \<open>m\<close> goes
  round the servers.\<close>

lemma SC_Request_first:
  assumes "0 < scck_servers ck" and "k \<le> m" and "SC_accepts (net m ((m - k) mod scck_servers ck) args)"
    and "\<And>l. k \<le> l \<Longrightarrow> l < m \<Longrightarrow> \<not> SC_accepts (net l ((l - k) mod scck_servers ck) args)"
  shows "SC_Request net ck args 0 k =
    Some (ck\<lparr>scck_seqNum := scck_seqNum ck + 1\<rparr>, snd (net m ((m - k) mod scck_servers ck) args), m)"
  using SC_Request_skip [of 0 ck k m net args] assms by (simp add: SC_Request_step)

lemma SC_Request_None:
  assumes "\<And>m. k \<le> m \<Longrightarrow> \<not> SC_accepts (net m ((m - k) mod scck_servers ck) args)"
  shows "SC_Request net ck args 0 k = None"
proof (rule ccontr)
  assume "SC_Request net ck args 0 k \<noteq> None"
  then obtain r where "SC_Request net ck args 0 k = Some r" by auto
  then show False using SC_Request_Some_accepts [of net ck args 0 k r] assms by auto
qed

section \<open>Requests to a group\<close>

lemma SKV_Get_servers_SomeD:
  "SKV_Get_servers net args servers k = (Some v, k') \<Longrightarrow>
   \<exists>srv \<in> set servers. \<exists>reply. net k' srv args = (True, reply) \<and> (sgrErr reply = OK \<or> sgrErr reply = ErrNoKey) \<and>
     v = sgrValue reply"
  by (induction servers arbitrary: k) (auto split: prod.splits if_splits)




lemma SKV_Get_loop_returned:
  "SKV_Get_loop net cnet ck args k kc = Some r \<Longrightarrow>
   skck_clientID (fst r) = skck_clientID ck \<and> skck_seqNum (fst r) = skck_seqNum ck + 1 \<and>
   (\<exists>srv reply. net (snd (snd r)) srv args = (True, reply) \<and> (sgrErr reply = OK \<or> sgrErr reply = ErrNoKey) \<and>
      fst (snd r) = sgrValue reply)"
proof (induction rule: SKV_Get_loop.raw_induct [rotated 1, consumes 1, case_names step])
  case (step f net cnet ck args k kc r)
  obtain servers where s: "SKV_servers ck (sgaKey args) = Some servers" using step(2) by (auto split: Option.bind_splits)
  obtain a k1 where a: "SKV_Get_servers net args servers k = (a, k1)" by fastforce
  show ?case
  proof (cases a)
    case (Some w)
    then show ?thesis using step(2) s a SKV_Get_servers_SomeD [of net args servers k w k1] by (auto; blast)
  next
    case None
    obtain ck1 kc1 where r: "SKV_refresh cnet ck kc = Some (ck1, kc1)"
      using step(2) s a None by (auto split: Option.bind_splits)
    then have "skck_clientID ck1 = skck_clientID ck" "skck_seqNum ck1 = skck_seqNum ck"
      by (auto simp: SKV_refresh_def split: Option.bind_splits)
    moreover have "f net cnet ck1 args k1 kc1 = Some r" using step(2) s a None r by simp
    ultimately show ?thesis using step(1) [of net cnet ck1 args k1 kc1 r] by simp
  qed
qed

lemma SKV_PutAppend_servers_SomeD:
  "SKV_PutAppend_servers net args servers k = (Some u, k') \<Longrightarrow>
   \<exists>srv \<in> set servers. \<exists>reply. net k' srv args = (True, reply) \<and> sprErr reply = OK"
  by (induction servers arbitrary: k) (auto split: prod.splits if_splits)

lemma SKV_PutAppend_loop_returned:
  "SKV_PutAppend_loop net cnet ck args k kc = Some r \<Longrightarrow>
   skck_clientID (fst r) = skck_clientID ck \<and> skck_seqNum (fst r) = skck_seqNum ck + 1 \<and>
   (\<exists>srv reply. net (snd r) srv args = (True, reply) \<and> sprErr reply = OK)"
proof (induction rule: SKV_PutAppend_loop.raw_induct [rotated 1, consumes 1, case_names step])
  case (step f net cnet ck args k kc r)
  obtain servers where s: "SKV_servers ck (spaKey args) = Some servers" using step(2) by (auto split: Option.bind_splits)
  obtain a k1 where a: "SKV_PutAppend_servers net args servers k = (a, k1)" by fastforce
  show ?case
  proof (cases a)
    case (Some w)
    then show ?thesis using step(2) s a SKV_PutAppend_servers_SomeD [of net args servers k w k1] by (auto; blast)
  next
    case None
    obtain ck1 kc1 where r: "SKV_refresh cnet ck kc = Some (ck1, kc1)"
      using step(2) s a None by (auto split: Option.bind_splits)
    then have "skck_clientID ck1 = skck_clientID ck" "skck_seqNum ck1 = skck_seqNum ck"
      by (auto simp: SKV_refresh_def split: Option.bind_splits)
    moreover have "f net cnet ck1 args k1 kc1 = Some r" using step(2) s a None r by simp
    ultimately show ?thesis using step(1) [of net cnet ck1 args k1 kc1 r] by simp
  qed
qed



section \<open>Properties\<close>

text \<open>C31. A request to the key/value service returns only from a call that a server accepted: \<open>Get\<close> gives the
  value of that reply, or nothing for an absent key; the clerk remembers the server, keeps its
  identity and moves on by exactly one sequence number.\<close>

theorem kv_clerk_returns:
  assumes "KV_Clerk_Get gnet rnd ck key = Some (ck1, v, m1)"
    and "KV_Clerk_PutAppend pnet rnd ck key val opt = Some (ck2, m2)"
  shows "(\<exists>j reply. 0 \<le> j \<and> j < int (ck_servers ck) \<and>
      gnet m1 j \<lparr>gaKey = key, gaClientID = ck_clientID ck, gaSeqNum = ck_seqNum ck\<rparr> = (True, reply) \<and>
      (grErr reply = OK \<and> v = grValue reply \<or> grErr reply = ErrNoKey \<and> v = '''') \<and>
      ck1 = ck\<lparr>ck_seqNum := ck_seqNum ck + 1, ck_leaderID := j\<rparr>) \<and>
    (\<exists>j reply. 0 \<le> j \<and> j < int (ck_servers ck) \<and>
      pnet m2 j \<lparr>paKey = key, paValue = val, paOp = opt, paClientID = ck_clientID ck, paSeqNum = ck_seqNum ck\<rparr> =
        (True, reply) \<and> paErr reply = OK \<and> ck2 = ck\<lparr>ck_seqNum := ck_seqNum ck + 1, ck_leaderID := j\<rparr>)"
  using Get_loop_returned [OF assms(1) [unfolded KV_Clerk_Get_def]]
    PutAppend_loop_returned [OF assms(2) [unfolded KV_Clerk_PutAppend_def]]
  by (auto simp: KV_Get_result_def KV_PutAppend_result_def split: if_splits)

text \<open>C28. The clerk finds the leader: when one server accepts every request and the others do not answer or
  answer \<open>ErrWrongLeader\<close>, \<open>Get\<close> and \<open>PutAppend\<close> return its reply, at the latest at the first call after the
  opening one for which the random choice falls on it, whichever server the clerk remembered.\<close>

theorem kv_clerk_finds_leader:
  assumes "KV_Clerk_ok ck" and "0 < m" and "nrand (rnd m) mod int (ck_servers ck) = L"
    and "\<And>k args. \<exists>v. gnet k L args = (True, \<lparr>grErr = OK, grValue = v\<rparr>)"
    and "\<And>k j args. j \<noteq> L \<Longrightarrow> \<not> fst (gnet k j args) \<or> grErr (snd (gnet k j args)) = ErrWrongLeader"
    and "\<And>k args. pnet k L args = (True, \<lparr>paErr = OK\<rparr>)"
    and "\<And>k j args. j \<noteq> L \<Longrightarrow> \<not> fst (pnet k j args) \<or> paErr (snd (pnet k j args)) = ErrWrongLeader"
  shows "(\<exists>i \<le> m. KV_Clerk_Get gnet rnd ck key =
      Some (ck\<lparr>ck_seqNum := ck_seqNum ck + 1, ck_leaderID := L\<rparr>,
        grValue (snd (gnet i L \<lparr>gaKey = key, gaClientID = ck_clientID ck, gaSeqNum = ck_seqNum ck\<rparr>)), i)) \<and>
    (\<exists>i \<le> m. KV_Clerk_PutAppend pnet rnd ck key val opt =
      Some (ck\<lparr>ck_seqNum := ck_seqNum ck + 1, ck_leaderID := L\<rparr>, i))"
proof (intro conjI)
  have pick: "KV_pickServer ck (rnd m) True = Some L"
    using assms(1,3) by (simp add: pickServer_random KV_Clerk_ok_def)
  have acc: "getr.accepted gnet args ck k L" for args k
    using assms(4) [of k args] by (auto simp: getr.accepted_def KV_Get_result_def)
  have fin: "KV_Get_result ck L (snd (gnet i L args)) i =
      Some (ck\<lparr>ck_seqNum := ck_seqNum ck + 1, ck_leaderID := L\<rparr>, grValue (snd (gnet i L args)), i)" for i args
    using assms(4) [of i args] by (auto simp: KV_Get_result_def)
  show "\<exists>i \<le> m. KV_Clerk_Get gnet rnd ck key =
      Some (ck\<lparr>ck_seqNum := ck_seqNum ck + 1, ck_leaderID := L\<rparr>,
        grValue (snd (gnet i L \<lparr>gaKey = key, gaClientID = ck_clientID ck, gaSeqNum = ck_seqNum ck\<rparr>)), i)"
    using getr.finds_leader [where rnd = rnd and m = m and k = 0 and b = False, OF pickServer_total [OF assms(1)] acc] pick assms(2,5) fin
    by (auto simp: KV_Clerk_Get_def getr.refused_def)
  show "\<exists>i \<le> m. KV_Clerk_PutAppend pnet rnd ck key val opt =
      Some (ck\<lparr>ck_seqNum := ck_seqNum ck + 1, ck_leaderID := L\<rparr>, i)"
    using putr.finds_leader [where net = pnet and rnd = rnd and m = m and k = 0 and b = False and L = L,
        OF pickServer_total [OF assms(1)]] pick assms(2,6,7)
    by (auto simp: KV_Clerk_PutAppend_def putr.refused_def putr.accepted_def KV_PutAppend_result_def)
qed

text \<open>C30. A request to the controllers ends exactly when it has a server to try and one of its calls, which go
  round the servers in order, is accepted; it then returns the first accepted reply and the clerk has
  moved on by one sequence number. Without servers it never ends.\<close>

theorem sc_request_terminates:
  "SC_Request net ck args 0 k = Some (ck', reply, m) \<longleftrightarrow>
     0 < scck_servers ck \<and> k \<le> m \<and> net m ((m - k) mod scck_servers ck) args = (True, reply) \<and> \<not> crWrongLeader reply \<and>
     {l. k \<le> l \<and> l < m \<and> SC_accepts (net l ((l - k) mod scck_servers ck) args)} = {} \<and>
     ck' = ck\<lparr>scck_seqNum := scck_seqNum ck + 1\<rparr>"
proof
  assume req: "SC_Request net ck args 0 k = Some (ck', reply, m)"
  then obtain m0 j where m0: "k \<le> m0" "j < scck_servers ck" "SC_accepts (net m0 j args)" "j = (m0 - k) mod scck_servers ck"
    using SC_Request_Some_accepts [OF req] by auto
  let ?acc = "\<lambda>m. k \<le> m \<and> SC_accepts (net m ((m - k) mod scck_servers ck) args)"
  obtain m1 where m1: "?acc m1" "\<And>l. l < m1 \<Longrightarrow> \<not> ?acc l"
    using exists_least_iff [of ?acc] m0 by blast
  have n: "0 < scck_servers ck" using m0(2) by simp
  have "SC_Request net ck args 0 k =
      Some (ck\<lparr>scck_seqNum := scck_seqNum ck + 1\<rparr>, snd (net m1 ((m1 - k) mod scck_servers ck) args), m1)"
    using SC_Request_first [OF n, of k m1 net args] m1 by blast
  then show "0 < scck_servers ck \<and> k \<le> m \<and> net m ((m - k) mod scck_servers ck) args = (True, reply) \<and> \<not> crWrongLeader reply \<and>
     {l. k \<le> l \<and> l < m \<and> SC_accepts (net l ((l - k) mod scck_servers ck) args)} = {} \<and>
     ck' = ck\<lparr>scck_seqNum := scck_seqNum ck + 1\<rparr>"
    using req m1 n by (auto simp: SC_accepts_def prod_eq_iff)
next
  assume "0 < scck_servers ck \<and> k \<le> m \<and> net m ((m - k) mod scck_servers ck) args = (True, reply) \<and> \<not> crWrongLeader reply \<and>
     {l. k \<le> l \<and> l < m \<and> SC_accepts (net l ((l - k) mod scck_servers ck) args)} = {} \<and>
     ck' = ck\<lparr>scck_seqNum := scck_seqNum ck + 1\<rparr>"
  then show "SC_Request net ck args 0 k = Some (ck', reply, m)"
    using SC_Request_first [of ck k m net args] by (auto simp: SC_accepts_def)
qed

text \<open>C32. A request to the sharded service returns only from a call that a server accepted, with the value of
  that reply; the clerk keeps its identity and moves on by exactly one sequence number, however often
  it fetched a new configuration on the way.\<close>

theorem skv_clerk_returns:
  assumes "SKV_Clerk_Get gnet cnet ck key kc = Some (ck1, v, m1)"
    and "SKV_Clerk_PutAppend pnet cnet ck key val opt kc = Some (ck2, m2)"
  shows "(\<exists>srv reply. gnet m1 srv \<lparr>sgaKey = key, sgaClientID = skck_clientID ck, sgaSeqNum = skck_seqNum ck\<rparr> = (True, reply) \<and>
      (sgrErr reply = OK \<or> sgrErr reply = ErrNoKey) \<and> v = sgrValue reply) \<and>
    (\<exists>srv reply. pnet m2 srv \<lparr>spaKey = key, spaValue = val, spaOp = opt, spaClientID = skck_clientID ck,
        spaSeqNum = skck_seqNum ck\<rparr> = (True, reply) \<and> sprErr reply = OK) \<and>
    (skck_clientID ck1, skck_seqNum ck1) = (skck_clientID ck, skck_seqNum ck + 1) \<and>
    (skck_clientID ck2, skck_seqNum ck2) = (skck_clientID ck, skck_seqNum ck + 1)"
  using SKV_Get_loop_returned [OF assms(1) [unfolded SKV_Clerk_Get_def]]
    SKV_PutAppend_loop_returned [OF assms(2) [unfolded SKV_Clerk_PutAppend_def]] by auto


section \<open>Runs\<close>

text \<open>Three servers, of which number 1 is the leader; one controller, and a configuration in which group
  100 with servers \<open>a\<close> and \<open>b\<close> has every shard.\<close>

definition run_clerk :: KV_Clerk where
  "run_clerk = \<lparr>ck_servers = 3, ck_clientID = 7, ck_seqNum = 5, ck_leaderID = 2\<rparr>"

definition run_gnet :: "nat \<Rightarrow> int \<Rightarrow> GetArgs \<Rightarrow> bool \<times> GetReply" where
  "run_gnet k j args = (True, if j = 1 then \<lparr>grErr = OK, grValue = ''v''\<rparr> else \<lparr>grErr = ErrWrongLeader, grValue = ''''\<rparr>)"

definition run_pnet :: "nat \<Rightarrow> int \<Rightarrow> PutAppendArgs \<Rightarrow> bool \<times> PutAppendReply" where
  "run_pnet k j args = (j \<noteq> 0, \<lparr>paErr = if j = 1 then OK else ErrWrongLeader\<rparr>)"

definition run_cnet :: "nat \<Rightarrow> nat \<Rightarrow> CommandArgs \<Rightarrow> bool \<times> CommandReply" where
  "run_cnet k j args = (j = 0, \<lparr>crReplyType = QueryArgsType, crWrongLeader = False, crErr = OK,
     crConfig = \<lparr>Num = 1, Shards = replicate NShards 100, Groups = fmap_of_list [(100, [''a'', ''b''])]\<rparr>\<rparr>)"

definition run_sgnet :: "nat \<Rightarrow> string \<Rightarrow> SKV_GetArgs \<Rightarrow> bool \<times> SKV_GetReply" where
  "run_sgnet k srv args = (True, \<lparr>sgrErr = if srv = ''b'' then OK else ErrWrongLeader, sgrValue = ''v''\<rparr>)"

definition run_spnet :: "nat \<Rightarrow> string \<Rightarrow> SKV_PutAppendArgs \<Rightarrow> bool \<times> SKV_PutAppendReply" where
  "run_spnet k srv args = (True, \<lparr>sprErr = if srv = ''b'' then OK else ErrWrongLeader\<rparr>)"

definition run_sclerk :: "int \<Rightarrow> Config \<Rightarrow> int \<Rightarrow> SKV_Clerk" where
  "run_sclerk q config n = \<lparr>skck_sm = \<lparr>scck_servers = 1, scck_clientID = 3, scck_seqNum = q, scck_leaderID = -1\<rparr>,
     skck_config = config, skck_clientID = 8, skck_seqNum = n\<rparr>"

lemma run_get: "KV_Clerk_Get run_gnet int run_clerk ''k'' = Some (run_clerk\<lparr>ck_seqNum := 6, ck_leaderID := 1\<rparr>, ''v'', 1)"
  unfolding KV_Clerk_Get_def by (subst KV_Get_loop.simps, subst KV_Get_loop.simps) code_simp

lemma run_put: "KV_Clerk_PutAppend run_pnet int run_clerk ''k'' ''v'' ''Put'' = Some (run_clerk\<lparr>ck_seqNum := 6, ck_leaderID := 1\<rparr>, 1)"
  unfolding KV_Clerk_PutAppend_def by (subst KV_PutAppend_loop.simps, subst KV_PutAppend_loop.simps) code_simp

theorem kv_clerk_returns_witness:
  "(\<exists>j reply. 0 \<le> j \<and> j < (3::int) \<and> run_gnet 1 j \<lparr>gaKey = ''k'', gaClientID = 7, gaSeqNum = 5\<rparr> = (True, reply) \<and>
      (grErr reply = OK \<and> ''v'' = grValue reply \<or> grErr reply = ErrNoKey \<and> ''v'' = '''')) \<and>
   (\<exists>j reply. 0 \<le> j \<and> j < (3::int) \<and> run_pnet 1 j
      \<lparr>paKey = ''k'', paValue = ''v'', paOp = ''Put'', paClientID = 7, paSeqNum = 5\<rparr> = (True, reply) \<and> paErr reply = OK)"
  using kv_clerk_returns [OF run_get run_put] by (auto simp: run_clerk_def)

theorem kv_clerk_finds_leader_witness:
  "(\<exists>i. i \<le> 1 \<and> KV_Clerk_Get run_gnet int run_clerk ''k'' =
      Some (run_clerk\<lparr>ck_seqNum := 6, ck_leaderID := 1\<rparr>, ''v'', i)) \<and>
   (\<exists>i. i \<le> 1 \<and> KV_Clerk_PutAppend run_pnet int run_clerk ''k'' ''v'' ''Put'' =
      Some (run_clerk\<lparr>ck_seqNum := 6, ck_leaderID := 1\<rparr>, i))"
  using kv_clerk_finds_leader [of run_clerk 1 int 1 run_gnet run_pnet "''k''" "''v''" "''Put''"]
  by (auto simp: KV_Clerk_ok_def run_clerk_def nrand_def run_gnet_def run_pnet_def)

lemma run_sget:
  "SKV_Clerk_Get run_sgnet run_cnet (run_sclerk 1 (crConfig (snd (run_cnet 0 0 zeroCommandArgs))) 4) ''k'' 0 =
     Some (run_sclerk 1 (crConfig (snd (run_cnet 0 0 zeroCommandArgs))) 5, ''v'', 1)"
  unfolding SKV_Clerk_Get_def by (subst SKV_Get_loop.simps) code_simp

lemma run_sput:
  "SKV_Clerk_PutAppend run_spnet run_cnet (run_sclerk 1 (crConfig (snd (run_cnet 0 0 zeroCommandArgs))) 4) ''k'' ''v'' ''Put'' 0 =
     Some (run_sclerk 1 (crConfig (snd (run_cnet 0 0 zeroCommandArgs))) 5, 1)"
  unfolding SKV_Clerk_PutAppend_def by (subst SKV_PutAppend_loop.simps) code_simp

theorem skv_clerk_returns_witness:
  "\<exists>srv reply. run_sgnet 1 srv \<lparr>sgaKey = ''k'', sgaClientID = 8, sgaSeqNum = 4\<rparr> = (True, reply) \<and>
      (sgrErr reply = OK \<or> sgrErr reply = ErrNoKey) \<and> ''v'' = sgrValue reply"
  using skv_clerk_returns [OF run_sget run_sput] by (simp add: run_sclerk_def)


end
