(* ===== verification/Clerk_Service.thy ===== *)
theory Clerk_Service
  imports Clerk_Props KV_Props
begin

text \<open>
  Clerks and the replicated log of the key/value service together: any number of clerks, each with at
  most one request under way, a network that keeps and repeats every request that was sent, the log
  the requests end up in, and replies that come from a server that has applied a part of the log.
\<close>

abbreviation op_id :: "Op \<Rightarrow> int \<times> int" where
  "op_id op \<equiv> (ClientID op, SeqNum op)"

text \<open>\<open>cw_since\<close> is the length of the log when the clerk issued its latest request, and \<open>cw_done\<close> the finished
  requests with the length of the log when they were issued, the value a \<open>Get\<close> returned, and the length
  when they returned.\<close>

record client_world =
  cw_clerks :: "int \<Rightarrow> KV_Clerk option"
  cw_pending :: "int \<Rightarrow> Op option"
  cw_sent :: "Op set"
  cw_log :: "Op list"
  cw_since :: "int \<Rightarrow> nat"
  cw_done :: "(nat \<times> Op \<times> string option \<times> nat) list"

text \<open>The replies of the handlers of a server that has started as \<open>kv\<close> and applied the log up to and
  including some operation, or that is not the leader.\<close>

definition put_reply_from :: "KVServer \<Rightarrow> Op list \<Rightarrow> PutAppendArgs \<Rightarrow> PutAppendReply \<Rightarrow> bool" where
  "put_reply_from kv log args reply \<longleftrightarrow>
     reply = \<lparr>paErr = ErrWrongLeader\<rparr> \<or>
     (\<exists>pre op post. log = pre @ op # post \<and>
        reply = KV_PutAppend_finish args (Some (Message (snd (KV_applyCommand (foldl KV_perform kv pre) op)))))"

definition get_reply_from :: "KVServer \<Rightarrow> Op list \<Rightarrow> GetArgs \<Rightarrow> GetReply \<Rightarrow> bool" where
  "get_reply_from kv log args reply \<longleftrightarrow>
     reply = \<lparr>grErr = ErrWrongLeader, grValue = ''''\<rparr> \<or>
     (\<exists>pre op post. log = pre @ op # post \<and>
        reply = KV_Get_finish args (Some (Message (snd (KV_applyCommand (foldl KV_perform kv pre) op)))))"

inductive clerk_world :: "KVServer \<Rightarrow> client_world \<Rightarrow> bool" for kv :: KVServer where
  start: "(\<And>c ck. clerks c = Some ck \<Longrightarrow> \<exists>r n. ck = KV_MakeClerk r n \<and> nrand r = c) \<Longrightarrow>
    clerk_world kv \<lparr>cw_clerks = clerks, cw_pending = (\<lambda>_. None), cw_sent = {}, cw_log = [],
                    cw_since = (\<lambda>_. 0), cw_done = []\<rparr>"
| request: "clerk_world kv w \<Longrightarrow> cw_clerks w c = Some ck \<Longrightarrow> cw_pending w c = None \<Longrightarrow>
    op_id op = (ck_clientID ck, ck_seqNum ck) \<Longrightarrow>
    clerk_world kv (w\<lparr>cw_pending := (cw_pending w)(c \<mapsto> op), cw_sent := insert op (cw_sent w),
                      cw_since := (cw_since w)(c := length (cw_log w))\<rparr>)"
| deliver: "clerk_world kv w \<Longrightarrow> op \<in> cw_sent w \<Longrightarrow> clerk_world kv (w\<lparr>cw_log := cw_log w @ [op]\<rparr>)"
| put_returns: "clerk_world kv w \<Longrightarrow> cw_clerks w c = Some ck \<Longrightarrow> cw_pending w c = Some op \<Longrightarrow>
    Optype op = ''Put'' \<or> Optype op = ''Append'' \<Longrightarrow>
    (\<forall>k j args reply. net k j args = (True, reply) \<longrightarrow> put_reply_from kv (cw_log w) args reply) \<Longrightarrow>
    KV_Clerk_PutAppend net rnd ck (Key op) (Value op) (Optype op) = Some (ck', k) \<Longrightarrow>
    clerk_world kv (w\<lparr>cw_clerks := (cw_clerks w)(c \<mapsto> ck'), cw_pending := (cw_pending w)(c := None),
                      cw_done := cw_done w @ [(cw_since w c, op, None, length (cw_log w))]\<rparr>)"
| get_returns: "clerk_world kv w \<Longrightarrow> cw_clerks w c = Some ck \<Longrightarrow> cw_pending w c = Some op \<Longrightarrow>
    Optype op = ''Get'' \<Longrightarrow>
    (\<forall>k j args reply. gnet k j args = (True, reply) \<longrightarrow> get_reply_from kv (cw_log w) args reply) \<Longrightarrow>
    KV_Clerk_Get gnet rnd ck (Key op) = Some (ck', v, k) \<Longrightarrow>
    clerk_world kv (w\<lparr>cw_clerks := (cw_clerks w)(c \<mapsto> ck'), cw_pending := (cw_pending w)(c := None),
                      cw_done := cw_done w @ [(cw_since w c, op, Some v, length (cw_log w))]\<rparr>)"

section \<open>Requests arrive in order\<close>

text \<open>Every request in the log comes after the earlier requests of its clerk.\<close>

fun dense :: "(int \<times> int) set \<Rightarrow> Op list \<Rightarrow> bool" where
  "dense seen [] \<longleftrightarrow> True"
| "dense seen (x # ops) \<longleftrightarrow>
     (\<forall>s. 1 \<le> s \<and> s < SeqNum x \<longrightarrow> (ClientID x, s) \<in> seen) \<and> dense (insert (op_id x) seen) ops"

lemma dense_snoc:
  "dense seen (ops @ [y]) \<longleftrightarrow>
   dense seen ops \<and> (\<forall>s. 1 \<le> s \<and> s < SeqNum y \<longrightarrow> (ClientID y, s) \<in> seen \<union> op_id ` set ops)"
  by (induction ops arbitrary: seen) auto

lemma dense_take: "dense {} ops \<Longrightarrow> dense {} (take n ops)"
proof (induction ops rule: rev_induct)
  case (snoc x ops)
  then show ?case by (cases "n \<le> length ops") (auto simp: dense_snoc)
qed simp

lemma dense_mem: "dense {} ops \<Longrightarrow> x \<in> set ops \<Longrightarrow> 1 \<le> s \<Longrightarrow> s < SeqNum x \<Longrightarrow> (ClientID x, s) \<in> op_id ` set ops"
  by (induction ops rule: rev_induct) (auto simp: dense_snoc)

lemma dense_issued_in_order:
  "dense seen ops \<Longrightarrow> (\<And>op. op \<in> set ops \<Longrightarrow> 1 \<le> SeqNum op) \<Longrightarrow> issued_in_order ClientID SeqNum seen ops"
  by (induction ops arbitrary: seen) auto

text \<open>The position in the log at which a finished request takes place: a \<open>Get\<close> reads there, and a write has
  its first copy there.\<close>

fun placed :: "KVServer \<Rightarrow> Op list \<Rightarrow> nat \<times> Op \<times> string option \<times> nat \<Rightarrow> nat \<Rightarrow> bool" where
  "placed kv log (b, op, r, e) p \<longleftrightarrow> b \<le> p \<and> p < e \<and> e \<le> length log \<and> log ! p = op \<and>
     (case r of Some v \<Rightarrow> v = map_get '''' (kv_currentState (foldl KV_perform kv (take p log))) (Key op)
      | None \<Rightarrow> op_id op \<notin> op_id ` set (take p log))"

lemma placed_snoc: "placed kv log h p \<Longrightarrow> placed kv (log @ [x]) h p"
  by (cases h) (auto simp: nth_append split: option.splits)

definition world_inv :: "KVServer \<Rightarrow> client_world \<Rightarrow> bool" where
  "world_inv kv w \<longleftrightarrow>
     (\<forall>c ck. cw_clerks w c = Some ck \<longrightarrow> ck_clientID ck = c \<and> 1 \<le> ck_seqNum ck \<and>
        (\<forall>s. 1 \<le> s \<and> s < ck_seqNum ck \<longrightarrow> (c, s) \<in> op_id ` set (cw_log w))) \<and>
     (\<forall>op \<in> cw_sent w. 1 \<le> SeqNum op \<and> (\<exists>ck. cw_clerks w (ClientID op) = Some ck \<and>
        (SeqNum op < ck_seqNum ck \<or> SeqNum op = ck_seqNum ck \<and> cw_pending w (ClientID op) = Some op))) \<and>
     (\<forall>c op. cw_pending w c = Some op \<longrightarrow> op \<in> cw_sent w \<and> ClientID op = c \<and>
        (\<exists>ck. cw_clerks w c = Some ck \<and> SeqNum op = ck_seqNum ck)) \<and>
     inj_on op_id (cw_sent w) \<and> set (cw_log w) \<subseteq> cw_sent w \<and> dense {} (cw_log w) \<and>
     (\<forall>c op. cw_pending w c = Some op \<longrightarrow>
        op \<notin> set (take (cw_since w c) (cw_log w)) \<and> cw_since w c \<le> length (cw_log w)) \<and>
     (\<forall>h \<in> set (cw_done w). \<exists>p. placed kv (cw_log w) h p)"

lemma world_invD:
  assumes "world_inv kv w"
  shows "\<And>c ck. cw_clerks w c = Some ck \<Longrightarrow> ck_clientID ck = c"
    and "\<And>c ck. cw_clerks w c = Some ck \<Longrightarrow> 1 \<le> ck_seqNum ck"
    and "\<And>c ck s. cw_clerks w c = Some ck \<Longrightarrow> 1 \<le> s \<Longrightarrow> s < ck_seqNum ck \<Longrightarrow> (c, s) \<in> op_id ` set (cw_log w)"
    and "\<And>op. op \<in> cw_sent w \<Longrightarrow> 1 \<le> SeqNum op"
    and "\<And>op. op \<in> cw_sent w \<Longrightarrow> \<exists>ck. cw_clerks w (ClientID op) = Some ck \<and>
        (SeqNum op < ck_seqNum ck \<or> SeqNum op = ck_seqNum ck \<and> cw_pending w (ClientID op) = Some op)"
    and "\<And>c op. cw_pending w c = Some op \<Longrightarrow> op \<in> cw_sent w \<and> ClientID op = c \<and>
        (\<exists>ck. cw_clerks w c = Some ck \<and> SeqNum op = ck_seqNum ck)"
    and "inj_on op_id (cw_sent w)" and "set (cw_log w) \<subseteq> cw_sent w" and "dense {} (cw_log w)"
    and "\<And>c op. cw_pending w c = Some op \<Longrightarrow>
        op \<notin> set (take (cw_since w c) (cw_log w)) \<and> cw_since w c \<le> length (cw_log w)"
    and "\<And>h. h \<in> set (cw_done w) \<Longrightarrow> \<exists>p. placed kv (cw_log w) h p"
  using assms by (auto simp: world_inv_def)

lemma world_inv_request:
  assumes inv: "world_inv kv w" and ck: "cw_clerks w c = Some ck" and p: "cw_pending w c = None"
    and op: "op_id op = (ck_clientID ck, ck_seqNum ck)"
  shows "world_inv kv (w\<lparr>cw_pending := (cw_pending w)(c \<mapsto> op), cw_sent := insert op (cw_sent w),
                         cw_since := (cw_since w)(c := length (cw_log w))\<rparr>)"
proof -
  note D = world_invD [OF inv]
  have c: "ClientID op = c" "SeqNum op = ck_seqNum ck" using op D(1) [OF ck] by auto
  have new: "op_id x \<noteq> op_id op" if "x \<in> cw_sent w" for x
    using D(5) [OF that] c ck p by auto
  then have "inj_on op_id (insert op (cw_sent w))" using D(7) by (fastforce simp: inj_on_insert)
  moreover have "\<exists>ck'. cw_clerks w (ClientID x) = Some ck' \<and> (SeqNum x < ck_seqNum ck' \<or>
      SeqNum x = ck_seqNum ck' \<and> ((cw_pending w)(c \<mapsto> op)) (ClientID x) = Some x)" if "x \<in> cw_sent w" for x
    using D(5) [OF that] p by auto
  moreover have "op \<notin> set (cw_log w)" using new D(8) by blast
  ultimately show ?thesis using D c ck by (auto simp: world_inv_def)
qed

lemma world_inv_deliver:
  assumes inv: "world_inv kv w" and op: "op \<in> cw_sent w"
  shows "world_inv kv (w\<lparr>cw_log := cw_log w @ [op]\<rparr>)"
proof -
  note D = world_invD [OF inv]
  obtain ck where ck: "cw_clerks w (ClientID op) = Some ck" "SeqNum op \<le> ck_seqNum ck"
    using D(5) [OF op] by auto
  have "dense {} (cw_log w @ [op])" using D(9) D(3) [OF ck(1)] ck(2) by (auto simp: dense_snoc)
  moreover have "\<forall>h \<in> set (cw_done w). \<exists>p. placed kv (cw_log w @ [op]) h p"
    using D(11) placed_snoc by blast
  ultimately show ?thesis using D op unfolding world_inv_def by (auto simp del: dense.simps intro: le_SucI)
qed

text \<open>What both kinds of return do: the clerk counts up, and the request has its place in the log.\<close>

lemma world_inv_return:
  assumes inv: "world_inv kv w" and ck: "cw_clerks w c = Some ck" and p: "cw_pending w c = Some op"
    and ck': "ck_clientID ck' = ck_clientID ck" "ck_seqNum ck' = ck_seqNum ck + 1"
    and logged: "op \<in> set (cw_log w)" and h: "placed kv (cw_log w) h q"
  shows "world_inv kv (w\<lparr>cw_clerks := (cw_clerks w)(c \<mapsto> ck'), cw_pending := (cw_pending w)(c := None),
     cw_done := cw_done w @ [h]\<rparr>)"
proof -
  note D = world_invD [OF inv]
  have "op_id op = (c, ck_seqNum ck)" using D(6) [OF p] ck by auto
  then have "(c, s) \<in> op_id ` set (cw_log w)" if "1 \<le> s" "s < ck_seqNum ck'" for s
    using D(3) [OF ck, of s] that logged ck'(2) by (cases "s = ck_seqNum ck") force+
  moreover have "\<exists>k. ((cw_clerks w)(c \<mapsto> ck')) (ClientID x) = Some k \<and> (SeqNum x < ck_seqNum k \<or>
      SeqNum x = ck_seqNum k \<and> ((cw_pending w)(c := None)) (ClientID x) = Some x)" if "x \<in> cw_sent w" for x
    using D(5) [OF that] ck ck'(2) by auto
  moreover have "\<forall>h' \<in> set (cw_done w @ [h]). \<exists>p. placed kv (cw_log w) h' p" using D(11) h by auto
  ultimately show ?thesis using D ck' ck unfolding world_inv_def by (simp del: dense.simps) fastforce
qed

text \<open>Every copy of the pending request lies behind the point at which it was issued.\<close>

lemma pending_position:
  assumes "world_inv kv w" and "cw_pending w c = Some op" and "q < length (cw_log w)" and "op_id (cw_log w ! q) = op_id op"
  shows "cw_log w ! q = op" and "cw_since w c \<le> q"
proof -
  note D = world_invD [OF assms(1)]
  show op: "cw_log w ! q = op"
    using inj_onD [OF D(7) assms(4)] D(6) [OF assms(2)] D(8) nth_mem [OF assms(3)] by auto
  show "cw_since w c \<le> q"
    using D(10) [OF assms(2)] op assms(3) by (metis in_set_conv_nth length_take min_less_iff_conj not_le nth_take)
qed

lemma first_position:
  assumes "x \<in> f ` set xs"
  shows "\<exists>q < length xs. f (xs ! q) = x \<and> x \<notin> f ` set (take q xs)"
  using assms
proof (induction xs rule: rev_induct)
  case (snoc y xs)
  show ?case
  proof (cases "x \<in> f ` set xs")
    case True
    then obtain q where "q < length xs" "f (xs ! q) = x" "x \<notin> f ` set (take q xs)" using snoc.IH by blast
    then show ?thesis by (intro exI [of _ q]) (simp add: nth_append)
  next
    case False
    then show ?thesis using snoc.prems by (intro exI [of _ "length xs"]) auto
  qed
qed simp

lemma applyCommand_op_id: "op_id (snd (KV_applyCommand kv op)) = op_id op"
  by (simp add: KV_applyCommand_eq KV_answer_def)

lemma put_returned_logged:
  assumes "KV_Clerk_PutAppend net rnd ck key value opt = Some (ck', k)"
    and net: "\<forall>k j args reply. net k j args = (True, reply) \<longrightarrow> put_reply_from kv log args reply"
  shows "ck_clientID ck' = ck_clientID ck" and "ck_seqNum ck' = ck_seqNum ck + 1"
    and "(ck_clientID ck, ck_seqNum ck) \<in> op_id ` set log"
proof -
  define args where
    "args = \<lparr>paKey = key, paValue = value, paOp = opt, paClientID = ck_clientID ck, paSeqNum = ck_seqNum ck\<rparr>"
  obtain m j reply where r: "net m j args = (True, reply)" "KV_PutAppend_result ck j reply m = Some (ck', k)"
    using PutAppend_loop_returned assms(1) unfolding KV_Clerk_PutAppend_def args_def [symmetric] by blast
  have ok: "paErr reply = OK" "ck' = ck\<lparr>ck_seqNum := ck_seqNum ck + 1, ck_leaderID := j\<rparr>"
    using r(2) by (auto simp: KV_PutAppend_result_def split: if_splits)
  then show "ck_clientID ck' = ck_clientID ck" "ck_seqNum ck' = ck_seqNum ck + 1" by simp_all
  obtain pre op post where log: "log = pre @ op # post"
    and fin: "reply = KV_PutAppend_finish args (Some (Message (snd (KV_applyCommand (foldl KV_perform kv pre) op))))"
    using net [rule_format, OF r(1)] ok(1) by (auto simp: put_reply_from_def)
  have "op_id op = (ck_clientID ck, ck_seqNum ck)"
    using ok(1) fin applyCommand_op_id [of "foldl KV_perform kv pre" op]
    by (auto simp: KV_PutAppend_finish_def args_def split: if_splits)
  then show "(ck_clientID ck, ck_seqNum ck) \<in> op_id ` set log" using log by force
qed

lemma get_returned_logged:
  assumes "KV_Clerk_Get net rnd ck key = Some (ck', v, k)"
    and net: "\<forall>k j args reply. net k j args = (True, reply) \<longrightarrow> get_reply_from kv log args reply"
  shows "ck_clientID ck' = ck_clientID ck" and "ck_seqNum ck' = ck_seqNum ck + 1"
    and "\<exists>q < length log. op_id (log ! q) = (ck_clientID ck, ck_seqNum ck) \<and>
      v = Value (snd (KV_applyCommand (foldl KV_perform kv (take q log)) (log ! q)))"
proof -
  define args where "args = \<lparr>gaKey = key, gaClientID = ck_clientID ck, gaSeqNum = ck_seqNum ck\<rparr>"
  obtain m j reply where r: "net m j args = (True, reply)" "KV_Get_result ck j reply m = Some (ck', v, k)"
    using Get_loop_returned assms(1) unfolding KV_Clerk_Get_def args_def [symmetric] by blast
  show "ck_clientID ck' = ck_clientID ck" "ck_seqNum ck' = ck_seqNum ck + 1"
    using r(2) by (auto simp: KV_Get_result_def split: if_splits)
  obtain pre op post where log: "log = pre @ op # post"
    and fin: "reply = KV_Get_finish args (Some (Message (snd (KV_applyCommand (foldl KV_perform kv pre) op))))"
    using net [rule_format, OF r(1)] r(2) by (auto simp: get_reply_from_def KV_Get_result_def)
  have "op_id op = (ck_clientID ck, ck_seqNum ck) \<and> v = Value (snd (KV_applyCommand (foldl KV_perform kv pre) op))"
    using r(2) fin applyCommand_op_id [of "foldl KV_perform kv pre" op]
    by (auto simp: KV_Get_finish_def KV_Get_result_def args_def split: if_splits)
  then show "\<exists>q < length log. op_id (log ! q) = (ck_clientID ck, ck_seqNum ck) \<and>
      v = Value (snd (KV_applyCommand (foldl KV_perform kv (take q log)) (log ! q)))"
    using log by (intro exI [of _ "length pre"]) simp
qed

lemma clerk_world_inv: "clerk_world kv w \<Longrightarrow> world_inv kv w"
proof (induction rule: clerk_world.induct)
  case (start clerks)
  then show ?case by (fastforce simp: world_inv_def KV_MakeClerk_def)
next
  case (request w c ck op)
  show ?case using world_inv_request [OF request.IH request.hyps(2-4)] .
next
  case (deliver w op)
  show ?case using world_inv_deliver [OF deliver.IH deliver.hyps(2)] .
next
  case (put_returns w c ck op net rnd ck' k)
  note inv = put_returns.IH and p = put_returns.hyps(3)
  note R = put_returned_logged [OF put_returns.hyps(6,5)]
  have "op_id op \<in> op_id ` set (cw_log w)"
    using R(3) world_invD(1) [OF inv put_returns.hyps(2)] world_invD(6) [OF inv p] put_returns.hyps(2) by auto
  from first_position [OF this] obtain q where q: "q < length (cw_log w)" "op_id (cw_log w ! q) = op_id op"
    "op_id op \<notin> op_id ` set (take q (cw_log w))" by auto
  note pos = pending_position [OF inv p q(1,2)]
  have "placed kv (cw_log w) (cw_since w c, op, None, length (cw_log w)) q" using pos q by simp
  moreover have "op \<in> set (cw_log w)" using nth_mem [OF q(1)] pos(1) by simp
  ultimately show ?case by (intro world_inv_return [OF inv put_returns.hyps(2) p R(1,2)])
next
  case (get_returns w c ck op gnet rnd ck' v k)
  note inv = get_returns.IH and p = get_returns.hyps(3)
  note R = get_returned_logged [OF get_returns.hyps(6,5)]
  obtain q where q: "q < length (cw_log w)" "op_id (cw_log w ! q) = op_id op"
    and v: "v = Value (snd (KV_applyCommand (foldl KV_perform kv (take q (cw_log w))) (cw_log w ! q)))"
    using R(3) world_invD(1) [OF inv get_returns.hyps(2)] world_invD(6) [OF inv p] get_returns.hyps(2) by auto
  note pos = pending_position [OF inv p q]
  have "v = map_get '''' (kv_currentState (foldl KV_perform kv (take q (cw_log w)))) (Key op)"
    using v pos(1) get_returns.hyps(4) by (simp add: KV_applyCommand_eq KV_answer_def kv_view_def)
  then have "placed kv (cw_log w) (cw_since w c, op, Some v, length (cw_log w)) q" using pos q by simp
  moreover have "op \<in> set (cw_log w)" using nth_mem [OF q(1)] pos(1) by simp
  ultimately show ?case by (intro world_inv_return [OF inv get_returns.hyps(2) p R(1,2)])
qed

lemma clerk_world_issued_in_order: "clerk_world kv w \<Longrightarrow> issued_in_order ClientID SeqNum {} (cw_log w)"
  using world_invD(4,8,9) [OF clerk_world_inv] by (intro dense_issued_in_order) blast+

text \<open>The duplicate table stays below a number that no applied request of the client reaches.\<close>

lemma table_bound:
  assumes "map_get 0 (kv_clientSeq kv) c < n" and "\<And>x. x \<in> set ops \<Longrightarrow> ClientID x = c \<Longrightarrow> SeqNum x < n"
  shows "map_get 0 (kv_clientSeq (foldl KV_perform kv ops)) c < n"
  using assms
proof (induction ops arbitrary: kv)
  case (Cons x ops)
  have "map_get 0 (kv_clientSeq (KV_perform kv x)) c < n"
    using Cons.prems kvd.fresh [where s = kv and op = x] kvd.stale [where s = kv and op = x]
    by (cases "map_get 0 (kv_clientSeq kv) (ClientID x) < SeqNum x") auto
  then show ?case using Cons by simp
qed simp

lemma first_copy_effect:
  assumes "world_inv kv w" and "kv_view kv = (fmempty, fmempty)" and "p < length (cw_log w)"
    and "op_id (cw_log w ! p) \<notin> op_id ` set (take p (cw_log w))"
  shows "kv_currentState (foldl KV_perform kv (take (Suc p) (cw_log w))) =
    KV_effect (cw_log w ! p) (kv_currentState (foldl KV_perform kv (take p (cw_log w))))"
proof -
  let ?op = "cw_log w ! p"
  note D = world_invD [OF assms(1)]
  have pos: "1 \<le> SeqNum ?op" using D(4,8) nth_mem [OF assms(3)] by blast
  have "SeqNum x < SeqNum ?op" if x: "x \<in> set (take p (cw_log w))" "ClientID x = ClientID ?op" for x
  proof (rule ccontr)
    assume "\<not> SeqNum x < SeqNum ?op"
    then consider "SeqNum x = SeqNum ?op" | "SeqNum ?op < SeqNum x" by linarith
    then show False
    proof cases
      case 1
      then have "op_id x = op_id ?op" using x(2) by simp
      then show ?thesis using imageI [OF x(1), of op_id] assms(4) by simp
    next
      case 2
      show ?thesis
        using dense_mem [OF dense_take [OF D(9)] x(1) pos 2, unfolded x(2)] assms(4) by (rule notE [rotated])
    qed
  qed
  then have "map_get 0 (kv_clientSeq (foldl KV_perform kv (take p (cw_log w)))) (ClientID ?op) < SeqNum ?op"
    using assms(2) pos by (intro table_bound) (auto simp: kv_view_def map_get_def)
  then show ?thesis using kvd.fresh assms(3) by (simp add: take_Suc_conv_app_nth)
qed

section \<open>End-to-end properties\<close>

text \<open>C3. Linearizability, from the clerks' point of view: every finished request has a position in the log,
  behind everything that was in the log when the request was issued and before its return. A \<open>Get\<close>
  returned the value its key has there, and a \<open>Put\<close> or \<open>Append\<close> changes the store there by its own effect,
  whatever the network repeats, delays or loses.\<close>

theorem clerks_linearizable:
  assumes "clerk_world kv w" and "kv_view kv = (fmempty, fmempty)" and "(b, op, r, e) \<in> set (cw_done w)"
  shows "\<exists>p. b \<le> p \<and> p < e \<and> e \<le> length (cw_log w) \<and> cw_log w ! p = op \<and>
    (case r of
       Some v \<Rightarrow> v = map_get '''' (kv_currentState (foldl KV_perform kv (take p (cw_log w)))) (Key op)
     | None \<Rightarrow> kv_currentState (foldl KV_perform kv (take (Suc p) (cw_log w))) =
         KV_effect op (kv_currentState (foldl KV_perform kv (take p (cw_log w)))))"
proof -
  note inv = clerk_world_inv [OF assms(1)]
  obtain p where p: "placed kv (cw_log w) (b, op, r, e) p" using world_invD(11) [OF inv assms(3)] by blast
  show ?thesis
  proof (cases r)
    case None
    then have "p < length (cw_log w)" "op_id (cw_log w ! p) \<notin> op_id ` set (take p (cw_log w))" using p by auto
    from first_copy_effect [OF inv assms(2) this] show ?thesis using p None by auto
  next
    case (Some v)
    then show ?thesis using p by auto
  qed
qed

text \<open>C11. Exactly once, end to end: whatever the clerks and the network do, each request in the log takes
  effect at its first copy and no other, requests that have returned among them.\<close>

theorem clerks_exactly_once:
  assumes "clerk_world kv w" and "kv_view kv = (fmempty, fmempty)"
  shows "\<exists>eff. subseq eff (cw_log w) \<and> distinct (map op_id eff) \<and> op_id ` set eff = op_id ` set (cw_log w) \<and>
    (\<forall>c ck s. cw_clerks w c = Some ck \<and> 1 \<le> s \<and> s < ck_seqNum ck \<longrightarrow> (c, s) \<in> op_id ` set eff) \<and>
    kv_currentState (foldl KV_perform kv (cw_log w)) = foldl (\<lambda>st op. KV_effect op st) fmempty eff"
proof -
  note D = world_invD [OF clerk_world_inv [OF assms(1)]]
  let ?eff = "kvd.fresh_ops (\<lambda>_. True) (map_get 0 (kv_clientSeq kv)) (cw_log w)"
  have z: "map_get 0 (kv_clientSeq kv) c = 0" "kv_currentState kv = fmempty" for c
    using assms(2) by (simp_all add: kv_view_def map_get_def)
  have "op_id op \<in> op_id ` set ?eff" if "op \<in> set (cw_log w)" for op
    using kvd.fresh_ops_complete [OF clerk_world_issued_in_order [OF assms(1)] that] D(4) D(8) that z by fastforce
  moreover have sub: "subseq ?eff (cw_log w)" by (rule kvd.fresh_ops_subseq)
  then have "set ?eff \<subseteq> set (cw_log w)" by (auto elim: list_emb_set)
  ultimately have ids: "op_id ` set ?eff = op_id ` set (cw_log w)" by blast
  have "kv_currentState (foldl KV_perform kv (cw_log w)) = foldl (\<lambda>st op. KV_effect op st) fmempty ?eff"
    using kvd.runs_data [of kv "cw_log w", unfolded kvd.runs_def] z by simp
  then show ?thesis using sub kvd.fresh_ops_once ids D(3) by (intro exI [of _ ?eff]) auto
qed

section \<open>A run of one clerk\<close>

text \<open>A clerk stores a value, a second copy of the request reaches the log late, and the clerk reads.\<close>

definition world_get :: Op where
  "world_get = \<lparr>ClientID = 7, SeqNum = 2, Key = ''k'', Value = '''', Optype = ''Get''\<rparr>"

definition world_clerk :: "int \<Rightarrow> int \<Rightarrow> KV_Clerk" where
  "world_clerk n l = \<lparr>ck_servers = 3, ck_clientID = 7, ck_seqNum = n, ck_leaderID = l\<rparr>"

definition demo_world :: client_world where
  "demo_world = \<lparr>cw_clerks = [7 \<mapsto> world_clerk 3 1], cw_pending = (\<lambda>_. None)(7 := None), cw_sent = {world_get, demo_put},
     cw_log = [demo_put, demo_put, world_get], cw_since = ((\<lambda>_. 0)(7 := 0))(7 := 2),
     cw_done = [(0, demo_put, None, 1), (2, world_get, Some ''v'', 3)]\<rparr>"

definition world_put_net :: "nat \<Rightarrow> int \<Rightarrow> PutAppendArgs \<Rightarrow> bool \<times> PutAppendReply" where
  "world_put_net k j args = (True, if j = 1
     then KV_PutAppend_finish args (Some (Message (snd (KV_applyCommand demo_kv demo_put)))) else \<lparr>paErr = ErrWrongLeader\<rparr>)"

definition world_get_net :: "nat \<Rightarrow> int \<Rightarrow> GetArgs \<Rightarrow> bool \<times> GetReply" where
  "world_get_net k j args = (True, if j = 1
     then KV_Get_finish args (Some (Message (snd (KV_applyCommand (KV_perform (KV_perform demo_kv demo_put) demo_put) world_get))))
     else \<lparr>grErr = ErrWrongLeader, grValue = ''''\<rparr>)"

lemma world_put_returns: "KV_Clerk_PutAppend world_put_net int (world_clerk 1 (-1)) ''k'' ''v'' ''Put'' = Some (world_clerk 2 1, 1)"
  unfolding KV_Clerk_PutAppend_def by (subst KV_PutAppend_loop.simps, subst KV_PutAppend_loop.simps) code_simp

lemma world_get_returns: "KV_Clerk_Get world_get_net int (world_clerk 2 1) ''k'' = Some (world_clerk 3 1, ''v'', 0)"
  unfolding KV_Clerk_Get_def by (subst KV_Get_loop.simps) code_simp

lemma world_get_net_from:
  "\<forall>k j args reply. world_get_net k j args = (True, reply) \<longrightarrow>
     get_reply_from demo_kv [demo_put, demo_put, world_get] args reply"
  by (auto simp: world_get_net_def get_reply_from_def intro!: exI [of _ "[demo_put, demo_put]"])

lemma demo_world_reachable: "clerk_world demo_kv demo_world"
proof -
  define w0 where "w0 = \<lparr>cw_clerks = [7 \<mapsto> world_clerk 1 (-1)], cw_pending = (\<lambda>_. None), cw_sent = {}, cw_log = [],
    cw_since = (\<lambda>_. 0), cw_done = []\<rparr>"
  have "clerk_world demo_kv w0" unfolding w0_def
    by (rule clerk_world.start)
      (auto simp: world_clerk_def KV_MakeClerk_def nrand_def split: if_splits intro!: exI [of _ "7::int"] exI [of _ "3::nat"])
  from clerk_world.request [OF this, of 7 "world_clerk 1 (-1)" demo_put]
  have "clerk_world demo_kv (w0\<lparr>cw_pending := [7 \<mapsto> demo_put], cw_sent := {demo_put}, cw_since := (\<lambda>_. 0)(7 := 0)\<rparr>)"
    by (simp add: w0_def world_clerk_def demo_put_def)
  from clerk_world.deliver [OF this, of demo_put]
  have "clerk_world demo_kv (w0\<lparr>cw_pending := [7 \<mapsto> demo_put], cw_sent := {demo_put}, cw_since := (\<lambda>_. 0)(7 := 0),
    cw_log := [demo_put]\<rparr>)" by (simp add: w0_def)
  from clerk_world.put_returns [OF this, of 7 "world_clerk 1 (-1)" demo_put world_put_net int "world_clerk 2 1" 1]
  have "clerk_world demo_kv (w0\<lparr>cw_clerks := [7 \<mapsto> world_clerk 2 1], cw_pending := (\<lambda>_. None)(7 := None), cw_sent := {demo_put},
    cw_since := (\<lambda>_. 0)(7 := 0), cw_log := [demo_put], cw_done := [(0, demo_put, None, 1)]\<rparr>)"
    using world_put_returns
    by (auto simp: w0_def world_put_net_def put_reply_from_def demo_put_def Cons_eq_append_conv)
  from clerk_world.deliver [OF this, of demo_put]
  have "clerk_world demo_kv (w0\<lparr>cw_clerks := [7 \<mapsto> world_clerk 2 1], cw_pending := (\<lambda>_. None)(7 := None), cw_sent := {demo_put},
    cw_since := (\<lambda>_. 0)(7 := 0), cw_log := [demo_put, demo_put], cw_done := [(0, demo_put, None, 1)]\<rparr>)"
    by (simp add: w0_def)
  from clerk_world.request [OF this, of 7 "world_clerk 2 1" world_get]
  have "clerk_world demo_kv (w0\<lparr>cw_clerks := [7 \<mapsto> world_clerk 2 1], cw_pending := [7 \<mapsto> world_get],
    cw_sent := {world_get, demo_put}, cw_since := ((\<lambda>_. 0)(7 := 0))(7 := 2), cw_log := [demo_put, demo_put],
    cw_done := [(0, demo_put, None, 1)]\<rparr>)" by (simp add: w0_def world_clerk_def world_get_def numeral_2_eq_2)
  from clerk_world.deliver [OF this, of world_get]
  have "clerk_world demo_kv (w0\<lparr>cw_clerks := [7 \<mapsto> world_clerk 2 1], cw_pending := [7 \<mapsto> world_get],
    cw_sent := {world_get, demo_put}, cw_since := ((\<lambda>_. 0)(7 := 0))(7 := 2), cw_log := [demo_put, demo_put, world_get],
    cw_done := [(0, demo_put, None, 1)]\<rparr>)" by (simp add: w0_def)
  from clerk_world.get_returns [OF this, of 7 "world_clerk 2 1" world_get world_get_net int "world_clerk 3 1" "''v''" 0]
  show ?thesis using world_get_returns world_get_net_from
    by (simp add: w0_def world_get_def [THEN arg_cong [of _ _ Optype]] world_get_def [THEN arg_cong [of _ _ Key]]
        demo_world_def numeral_eq_Suc)
qed

lemma demo_kv_empty: "kv_view demo_kv = (fmempty, fmempty)"
  by code_simp

theorem clerks_linearizable_witness:
  "\<exists>p. 2 \<le> p \<and> p < 3 \<and> cw_log demo_world ! p = world_get \<and>
    ''v'' = map_get '''' (kv_currentState (foldl KV_perform demo_kv (take p (cw_log demo_world)))) ''k''"
  using clerks_linearizable [OF demo_world_reachable demo_kv_empty, of 2 world_get "Some ''v''" 3]
  by (auto simp: demo_world_def world_get_def)

theorem clerks_exactly_once_witness:
  "\<exists>eff. subseq eff (cw_log demo_world) \<and> distinct (map op_id eff) \<and> (7, 1) \<in> op_id ` set eff \<and>
    kv_currentState (foldl KV_perform demo_kv (cw_log demo_world)) = foldl (\<lambda>st op. KV_effect op st) fmempty eff"
proof -
  have "cw_clerks demo_world 7 = Some (world_clerk 3 1)" "1 < ck_seqNum (world_clerk 3 1)"
    by (simp_all add: demo_world_def world_clerk_def)
  then show ?thesis using clerks_exactly_once [OF demo_world_reachable demo_kv_empty] by fastforce
qed

end
