(* ===== verification/MapReduce.thy ===== *)
theory MapReduce
  imports Go_Prelude "HOL-Library.Word" "HOL-Library.Char_ord" "HOL-Library.List_Lexorder"
begin

text \<open>
  MapReduce: the coordinator of \<open>src/mr/coordinator.go\<close>, the worker of \<open>src/mr/worker.go\<close>, the sequential
  program of \<open>src/main/mrsequential.go\<close> and the reduce functions of two applications. Files are lists of
  records (their JSON encoding is not modelled). \<open>sort.Sort\<close> is not stable, so the sorting function is
  a parameter, of which the proofs use only that it sorts; so are the application's functions.
\<close>

unbundle bit_operations_syntax

section \<open>Coordinator\<close>

record Task =
  TaskId :: int
  FileName :: string
  StartTime :: int
  Status :: int

record Coordinator =
  mr_nReduce :: int
  mr_nMap :: int
  Stage :: int
  Mapfiles :: "string list"
  MapTask :: "Task list"
  ReduceTask :: "Task list"

definition STAGE_MAPPING :: int where "STAGE_MAPPING = 1"
definition STAGE_REDUCING :: int where "STAGE_REDUCING = 2"
definition STAGE_FINISHED :: int where "STAGE_FINISHED = 3"

definition TASK_IDLE :: int where "TASK_IDLE = 0"
definition TASK_WORKING :: int where "TASK_WORKING = 1"
definition TASK_DONE :: int where "TASK_DONE = 2"

record Taskinfo =
  RPCtype :: int
  tiTaskId :: int
  tiFilename :: string
  tiNMap :: int
  tiNReduce :: int
  tiStartTime :: int

definition zeroTaskinfo :: Taskinfo where
  "zeroTaskinfo = \<lparr>RPCtype = 0, tiTaskId = 0, tiFilename = '''', tiNMap = 0, tiNReduce = 0, tiStartTime = 0\<rparr>"

definition RPC_MAP :: int where "RPC_MAP = 0"
definition RPC_REDUCE :: int where "RPC_REDUCE = 1"
definition RPC_REQUEST :: int where "RPC_REQUEST = 2"
definition RPC_WORKDONE :: int where "RPC_WORKDONE = 3"
definition RPC_FAIL :: int where "RPC_FAIL = 4"
definition RPC_ALLDONE :: int where "RPC_ALLDONE = 5"

lemmas mr_consts = STAGE_MAPPING_def STAGE_REDUCING_def STAGE_FINISHED_def TASK_IDLE_def TASK_WORKING_def
  TASK_DONE_def RPC_MAP_def RPC_REDUCE_def RPC_REQUEST_def RPC_WORKDONE_def RPC_FAIL_def RPC_ALLDONE_def

text \<open>Times are in nanoseconds; \<open>clock i\<close> is the time at which the loop looks at task \<open>i\<close>.\<close>

definition timedOut :: "int \<Rightarrow> Task \<Rightarrow> bool" where
  "timedOut now t \<longleftrightarrow> Status t = TASK_WORKING \<and> now - StartTime t > 10000000000"

definition timeOutTask :: "(nat \<Rightarrow> int) \<Rightarrow> Task list \<Rightarrow> Task list" where
  "timeOutTask clock tasks =
     map (\<lambda>(i, t). if timedOut (clock i) t then t\<lparr>Status := TASK_IDLE\<rparr> else t) (enumerate 0 tasks)"

fun findIdleTask :: "Task list \<Rightarrow> nat option" where
  "findIdleTask [] = None"
| "findIdleTask (t # ts) = (if Status t = TASK_IDLE then Some 0 else map_option Suc (findIdleTask ts))"

fun finduncompletedTask :: "Task list \<Rightarrow> bool" where
  "finduncompletedTask [] = True"
| "finduncompletedTask (t # ts) = (if Status t \<noteq> TASK_DONE then False else finduncompletedTask ts)"

text \<open>The end of \<open>assignTask\<close>: hand out task \<open>i\<close> at time \<open>now\<close>.\<close>

definition startTask :: "int \<Rightarrow> nat \<Rightarrow> Task list \<Rightarrow> Task list" where
  "startTask now i tasks = tasks[i := (tasks ! i)\<lparr>Status := TASK_WORKING, StartTime := now\<rparr>]"

definition fillReply :: "int \<Rightarrow> Coordinator \<Rightarrow> Task \<Rightarrow> Taskinfo \<Rightarrow> Taskinfo" where
  "fillReply now c t reply = reply\<lparr>tiStartTime := now, tiTaskId := TaskId t, tiFilename := FileName t,
     tiNMap := mr_nMap c, tiNReduce := mr_nReduce c\<rparr>"

definition assignTask :: "(nat \<Rightarrow> int) \<Rightarrow> int \<Rightarrow> Coordinator \<Rightarrow> Taskinfo \<Rightarrow> Coordinator \<times> Taskinfo" where
  "assignTask clock now c reply =
     (if Stage c = STAGE_MAPPING then
        let tasks = timeOutTask clock (MapTask c); c1 = c\<lparr>MapTask := tasks\<rparr> in
        if finduncompletedTask tasks then (c1\<lparr>Stage := STAGE_REDUCING\<rparr>, reply\<lparr>RPCtype := RPC_FAIL\<rparr>)
        else (case findIdleTask tasks of
                None \<Rightarrow> (c1, reply\<lparr>RPCtype := RPC_FAIL\<rparr>)
              | Some i \<Rightarrow> (c1\<lparr>MapTask := startTask now i tasks\<rparr>, fillReply now c (tasks ! i) (reply\<lparr>RPCtype := RPC_MAP\<rparr>)))
      else if Stage c = STAGE_REDUCING then
        let tasks = timeOutTask clock (ReduceTask c); c1 = c\<lparr>ReduceTask := tasks\<rparr> in
        if finduncompletedTask tasks then (c1\<lparr>Stage := STAGE_FINISHED\<rparr>, reply\<lparr>RPCtype := RPC_FAIL\<rparr>)
        else (case findIdleTask tasks of
                None \<Rightarrow> (c1, reply\<lparr>RPCtype := RPC_FAIL\<rparr>)
              | Some i \<Rightarrow> (c1\<lparr>ReduceTask := startTask now i tasks\<rparr>, fillReply now c (tasks ! i) (reply\<lparr>RPCtype := RPC_REDUCE\<rparr>)))
      else if Stage c = STAGE_FINISHED then (c, reply\<lparr>RPCtype := RPC_ALLDONE\<rparr>)
      else (c, reply\<lparr>RPCtype := RPC_FAIL\<rparr>))"

text \<open>One tick of \<open>reassignTask\<close>, a goroutine that is not started.\<close>

definition reassignTask :: "(nat \<Rightarrow> int) \<Rightarrow> Coordinator \<Rightarrow> Coordinator" where
  "reassignTask clock c =
     (let c1 = (if Stage c = STAGE_MAPPING then c\<lparr>MapTask := timeOutTask clock (MapTask c)\<rparr>
                else if Stage c = STAGE_REDUCING then c\<lparr>ReduceTask := timeOutTask clock (ReduceTask c)\<rparr> else c);
          c2 = (if Stage c1 = STAGE_MAPPING \<and> \<not> finduncompletedTask (MapTask c1) then c1\<lparr>Stage := STAGE_REDUCING\<rparr> else c1)
      in if Stage c2 = STAGE_REDUCING \<and> \<not> finduncompletedTask (ReduceTask c2) then c2\<lparr>Stage := STAGE_FINISHED\<rparr> else c2)"

text \<open>\<open>checkTask\<close> reads the stage before it takes the lock: \<open>stage\<close> is what it read. An index out of range
  panics.\<close>

definition finishTask :: "Task list \<Rightarrow> int \<Rightarrow> Task list option" where
  "finishTask tasks i = do {
     t \<leftarrow> slice_get tasks i;
     if Status t = TASK_WORKING then slice_set tasks i (t\<lparr>Status := TASK_DONE\<rparr>) else Some tasks
   }"

definition checkTask :: "int \<Rightarrow> Coordinator \<Rightarrow> Taskinfo \<Rightarrow> Taskinfo \<Rightarrow> (Coordinator \<times> Taskinfo) option" where
  "checkTask stage c args reply =
     (if stage = STAGE_MAPPING then do {
        tasks \<leftarrow> finishTask (MapTask c) (tiTaskId args);
        Some (c\<lparr>MapTask := tasks\<rparr>, reply\<lparr>RPCtype := RPC_WORKDONE\<rparr>)
      }
      else if stage = STAGE_REDUCING then do {
        tasks \<leftarrow> finishTask (ReduceTask c) (tiTaskId args);
        Some (c\<lparr>ReduceTask := tasks\<rparr>, reply\<lparr>RPCtype := RPC_WORKDONE\<rparr>)
      }
      else Some (c, reply))"

definition mr_Handlers where
  "mr_Handlers clock now stage c args reply =
     (if RPCtype args = RPC_REQUEST then Some (assignTask clock now c reply)
      else if RPCtype args = RPC_WORKDONE then checkTask stage c args reply
      else Some (c, reply))"

definition mr_Done :: "Coordinator \<Rightarrow> bool" where
  "mr_Done c \<longleftrightarrow> Stage c = STAGE_FINISHED"

definition MakeCoordinator :: "string list \<Rightarrow> nat \<Rightarrow> Coordinator" where
  "MakeCoordinator files nReduce = \<lparr>mr_nReduce = int nReduce, mr_nMap = int (length files), Stage = STAGE_MAPPING,
     Mapfiles = files,
     MapTask = map (\<lambda>i. \<lparr>TaskId = int i, FileName = files ! i, StartTime = 0, Status = TASK_IDLE\<rparr>) [0..<length files],
     ReduceTask = map (\<lambda>i. \<lparr>TaskId = int i, FileName = '''', StartTime = 0, Status = TASK_IDLE\<rparr>) [0..<nReduce]\<rparr>"

section \<open>Worker\<close>

record KeyValue =
  kvKey :: string
  kvValue :: string

text \<open>\<open>fnv.New32a\<close>: the 32-bit FNV-1a hash of a string's bytes; \<open>ihash\<close> keeps its lower 31 bits.\<close>

definition fnv32a :: "string \<Rightarrow> 32 word" where
  "fnv32a key = foldl (\<lambda>h b. (h XOR of_char b) * 16777619) 2166136261 key"

definition ihash :: "string \<Rightarrow> int" where
  "ihash key = uint (fnv32a key AND 0x7fffffff)"

type_synonym mr_files = "int \<times> int \<Rightarrow> KeyValue list option"
type_synonym mr_mapf = "string \<Rightarrow> string \<Rightarrow> KeyValue list"
type_synonym mr_reducef = "string \<Rightarrow> string list \<Rightarrow> string"
type_synonym mr_sort = "KeyValue list \<Rightarrow> KeyValue list"

text \<open>The buckets of \<open>execMap\<close>; \<open>% 0\<close> and a negative length panic.\<close>

fun fillBuckets :: "int \<Rightarrow> KeyValue list \<Rightarrow> KeyValue list list \<Rightarrow> KeyValue list list option" where
  "fillBuckets nReduce [] intermediate = Some intermediate"
| "fillBuckets nReduce (kv # kva) intermediate =
     (if nReduce = 0 then None
      else do {
        let bucket = ihash (kvKey kv) mod nReduce;
        b \<leftarrow> slice_get intermediate bucket;
        intermediate' \<leftarrow> slice_set intermediate bucket (b @ [kv]);
        fillBuckets nReduce kva intermediate'
      })"

text \<open>What a map task does to its output files, write by write: a new empty file is renamed into place, and
  then receives its records one at a time.\<close>

definition writeFile :: "int \<times> int \<Rightarrow> KeyValue list \<Rightarrow> ((int \<times> int) \<times> KeyValue list) list" where
  "writeFile name kvs = map (\<lambda>n. (name, take n kvs)) [0..<Suc (length kvs)]"

definition execMap_writes ::
  "(string \<Rightarrow> string option) \<Rightarrow> mr_mapf \<Rightarrow> Taskinfo \<Rightarrow> ((int \<times> int) \<times> KeyValue list) list option" where
  "execMap_writes input mapf t = do {
     let filename = tiFilename t;
     let nReduce = tiNReduce t;
     if nReduce < 0 then None else do {
       content \<leftarrow> input filename;
       intermediate \<leftarrow> fillBuckets nReduce (mapf filename content) (replicate (nat nReduce) []);
       Some (concat (map (\<lambda>(i, kvs). writeFile (tiTaskId t, int i) kvs) (enumerate 0 intermediate)))
     }
   }"

fun apply_writes :: "mr_files \<Rightarrow> ((int \<times> int) \<times> KeyValue list) list \<Rightarrow> mr_files" where
  "apply_writes fs [] = fs"
| "apply_writes fs ((name, kvs) # ws) = apply_writes (fs(name \<mapsto> kvs)) ws"

definition execMap :: "(string \<Rightarrow> string option) \<Rightarrow> mr_mapf \<Rightarrow> Taskinfo \<Rightarrow> mr_files \<Rightarrow> mr_files option" where
  "execMap input mapf t fs = do {
     writes \<leftarrow> execMap_writes input mapf t;
     Some (apply_writes fs writes)
   }"

text \<open>The two loops that both \<open>execReduce\<close> and the sequential program run over the sorted records.\<close>

function runEnd :: "KeyValue list \<Rightarrow> nat \<Rightarrow> nat \<Rightarrow> nat" where
  "runEnd kva i j =
     (if j < length kva \<and> kvKey (kva ! j) = kvKey (kva ! i) then runEnd kva i (Suc j) else j)"
  by auto
termination by (relation "measure (\<lambda>(kva, i, j). length kva - j)") auto

declare runEnd.simps [simp del]

lemma runEnd_ge: "j \<le> runEnd kva i j"
proof (induction kva i j rule: runEnd.induct)
  case (1 kva i j)
  then show ?case by (subst runEnd.simps) auto
qed

definition outputLine :: "string \<Rightarrow> string \<Rightarrow> string" where
  "outputLine key output = key @ '' '' @ output @ [CHR 0x0A]"

function reduceLoop :: "mr_reducef \<Rightarrow> KeyValue list \<Rightarrow> nat \<Rightarrow> string list" where
  "reduceLoop reducef kva i =
     (if i < length kva
      then let j = runEnd kva i (i + 1);
               values = map (\<lambda>k. kvValue (kva ! k)) [i..<j];
               output = reducef (kvKey (kva ! i)) values
           in outputLine (kvKey (kva ! i)) output # reduceLoop reducef kva j
      else [])"
  by auto
termination
proof (relation "measure (\<lambda>(_, kva, i). length kva - i)")
  fix reducef kva i j assume "i < length kva" and "j = runEnd kva i (i + 1)"
  then show "((reducef, kva, j), (reducef, kva, i)) \<in> measure (\<lambda>(_, kva, i). length kva - i)"
    using runEnd_ge [of "i + 1" kva i] by simp
qed simp

declare reduceLoop.simps [simp del]

text \<open>The intermediate files of a reduce task; a missing one panics.\<close>

fun readFiles :: "mr_files \<Rightarrow> int \<Rightarrow> int list \<Rightarrow> KeyValue list option" where
  "readFiles fs taskId [] = Some []"
| "readFiles fs taskId (i # is) = do {
     kvs \<leftarrow> fs (i, taskId);
     rest \<leftarrow> readFiles fs taskId is;
     Some (kvs @ rest)
   }"

definition execReduce :: "mr_sort \<Rightarrow> mr_reducef \<Rightarrow> Taskinfo \<Rightarrow> mr_files \<Rightarrow> string list option" where
  "execReduce srt reducef t fs = do {
     kva \<leftarrow> readFiles fs (tiTaskId t) [0..tiNMap t - 1];
     Some (reduceLoop reducef (srt kva) 0)
   }"

datatype worker_action = RunMap | RunReduce | Again | Sleep | Exit

definition mr_Worker :: "Taskinfo \<Rightarrow> worker_action" where
  "mr_Worker taskinfo =
     (if RPCtype taskinfo = RPC_MAP then RunMap
      else if RPCtype taskinfo = RPC_REDUCE then RunReduce
      else if RPCtype taskinfo = RPC_WORKDONE then Again
      else if RPCtype taskinfo = RPC_FAIL then Sleep
      else if RPCtype taskinfo = RPC_ALLDONE then Exit
      else Sleep)"

definition requestTask_args :: Taskinfo where
  "requestTask_args = zeroTaskinfo\<lparr>RPCtype := RPC_REQUEST\<rparr>"

definition reportTask_args :: "int \<Rightarrow> int \<Rightarrow> Taskinfo" where
  "reportTask_args taskId startTime =
     zeroTaskinfo\<lparr>RPCtype := RPC_WORKDONE, tiTaskId := taskId, tiStartTime := startTime\<rparr>"

section \<open>The sequential program\<close>

fun readInputs :: "(string \<Rightarrow> string option) \<Rightarrow> mr_mapf \<Rightarrow> string list \<Rightarrow> KeyValue list option" where
  "readInputs input mapf [] = Some []"
| "readInputs input mapf (filename # files) = do {
     content \<leftarrow> input filename;
     rest \<leftarrow> readInputs input mapf files;
     Some (mapf filename content @ rest)
   }"

definition mrsequential ::
  "mr_sort \<Rightarrow> (string \<Rightarrow> string option) \<Rightarrow> mr_mapf \<Rightarrow> mr_reducef \<Rightarrow> string list \<Rightarrow> string list option" where
  "mrsequential srt input mapf reducef files = do {
     intermediate \<leftarrow> readInputs input mapf files;
     Some (reduceLoop reducef (srt intermediate) 0)
   }"

section \<open>Applications\<close>

text \<open>\<open>strconv.Itoa\<close> on a length.\<close>

fun Itoa :: "nat \<Rightarrow> string" where
  "Itoa n = (if n < 10 then [char_of (48 + n)] else Itoa (n div 10) @ [char_of (48 + n mod 10)])"

declare Itoa.simps [simp del]

definition wc_Reduce :: mr_reducef where
  "wc_Reduce key values = Itoa (length values)"

fun joinComma :: "string list \<Rightarrow> string" where
  "joinComma [] = ''''"
| "joinComma [x] = x"
| "joinComma (x # xs) = x @ '','' @ joinComma xs"

definition indexer_Reduce :: mr_reducef where
  "indexer_Reduce key values = Itoa (length values) @ '' '' @ joinComma (sort values)"

end
