(* ===== verification/MapReduce_Data.thy ===== *)
theory MapReduce_Data
  imports MapReduce "HOL-Library.Multiset"
begin

text \<open>
  The data path of MapReduce: what the two loops over sorted records compute, how \<open>execMap\<close> distributes
  records over files, and that the reduce tasks together print the lines of the sequential program.
\<close>

section \<open>The reduce loops\<close>

definition values_of :: "string \<Rightarrow> KeyValue list \<Rightarrow> string list" where
  "values_of k kva = map kvValue (filter (\<lambda>kv. kvKey kv = k) kva)"

lemma runEnd_eq:
  "runEnd kva i j = j + length (takeWhile (\<lambda>kv. kvKey kv = kvKey (kva ! i)) (drop j kva))"
proof (induction kva i j rule: runEnd.induct)
  case (1 kva i j)
  show ?case
  proof (cases "j < length kva \<and> kvKey (kva ! j) = kvKey (kva ! i)")
    case True
    then show ?thesis using 1 by (subst runEnd.simps) (simp add: Cons_nth_drop_Suc [symmetric])
  next
    case False
    then show ?thesis by (subst runEnd.simps) (cases "j < length kva", auto simp: Cons_nth_drop_Suc [symmetric])
  qed
qed

lemma values_run:
  assumes "j \<le> length kva"
  shows "map (\<lambda>k. kvValue (kva ! k)) [i..<j] = map kvValue (take (j - i) (drop i kva))"
  using assms by (intro nth_equalityI) auto

text \<open>A sorted list begins with all records of its first key.\<close>

lemma sorted_run:
  assumes "sorted (map kvKey (kv # kva))"
  shows "kvKey kv \<notin> kvKey ` set (dropWhile (\<lambda>x. kvKey x = kvKey kv) kva)"
    and "filter (\<lambda>x. kvKey x = kvKey kv) kva = takeWhile (\<lambda>x. kvKey x = kvKey kv) kva"
    and "k \<noteq> kvKey kv \<Longrightarrow> filter (\<lambda>x. kvKey x = k) (dropWhile (\<lambda>x. kvKey x = kvKey kv) kva) = filter (\<lambda>x. kvKey x = k) kva"
proof -
  let ?P = "\<lambda>x. kvKey x = kvKey kv"
  show notin: "kvKey kv \<notin> kvKey ` set (dropWhile ?P kva)"
    using assms by (induction kva) auto
  have split: "filter Q kva = filter Q (takeWhile ?P kva) @ filter Q (dropWhile ?P kva)" for Q
    by (metis filter_append takeWhile_dropWhile_id)
  have "filter ?P (dropWhile ?P kva) = []" using notin unfolding filter_empty_conv by (metis imageI)
  moreover have "filter ?P (takeWhile ?P kva) = takeWhile ?P kva"
    by (intro filter_True) (auto dest: set_takeWhileD)
  ultimately show "filter ?P kva = takeWhile ?P kva" using split [of ?P] by simp
  have "filter (\<lambda>x. kvKey x = k) (takeWhile ?P kva) = []" if "k \<noteq> kvKey kv"
    using that by (auto simp: filter_empty_conv dest: set_takeWhileD)
  then show "filter (\<lambda>x. kvKey x = k) (dropWhile ?P kva) = filter (\<lambda>x. kvKey x = k) kva" if "k \<noteq> kvKey kv"
    using split [of "\<lambda>x. kvKey x = k"] that by simp
qed

definition reduce_lines :: "mr_reducef \<Rightarrow> KeyValue list \<Rightarrow> string multiset" where
  "reduce_lines reducef kva =
     image_mset (\<lambda>k. outputLine k (reducef k (values_of k kva))) (mset_set (kvKey ` set kva))"

lemma reduce_lines_first:
  assumes "sorted (map kvKey (kv # kva))"
  defines "rest \<equiv> dropWhile (\<lambda>x. kvKey x = kvKey kv) kva"
  shows "reduce_lines reducef (kv # kva) =
    add_mset (outputLine (kvKey kv) (reducef (kvKey kv) (kvValue kv # map kvValue (takeWhile (\<lambda>x. kvKey x = kvKey kv) kva))))
      (reduce_lines reducef rest)"
proof -
  note run = sorted_run [OF assms(1), folded rest_def]
  let ?P = "\<lambda>x. kvKey x = kvKey kv"
  have "set kva = set (takeWhile ?P kva) \<union> set rest"
    unfolding rest_def by (metis set_append takeWhile_dropWhile_id)
  moreover have "kvKey ` set (takeWhile ?P kva) \<subseteq> {kvKey kv}" by (auto dest: set_takeWhileD)
  ultimately have keys: "kvKey ` set (kv # kva) = insert (kvKey kv) (kvKey ` set rest)" by auto
  have "values_of k (kv # kva) = values_of k rest" if "k \<in> kvKey ` set rest" for k
    using that run(3) [of k] run(1) unfolding values_of_def by auto
  then have "{#outputLine k (reducef k (values_of k (kv # kva))). k \<in># mset_set (kvKey ` set rest)#} =
      {#outputLine k (reducef k (values_of k rest)). k \<in># mset_set (kvKey ` set rest)#}"
    by (intro image_mset_cong) simp
  moreover have "values_of (kvKey kv) (kv # kva) = kvValue kv # map kvValue (takeWhile ?P kva)"
    using run(2) by (simp add: values_of_def)
  ultimately show ?thesis using run(1) unfolding reduce_lines_def keys by simp
qed

lemma reduceLoop_lines:
  assumes "sorted (map kvKey kva)"
  shows "mset (reduceLoop reducef kva i) = reduce_lines reducef (drop i kva)"
  using assms
proof (induction reducef kva i rule: reduceLoop.induct)
  case (1 reducef kva i)
  show ?case
  proof (cases "i < length kva")
    case True
    let ?kv = "kva ! i" and ?rest = "drop (Suc i) kva"
    let ?same = "takeWhile (\<lambda>x. kvKey x = kvKey ?kv) ?rest"
    define j where "j = runEnd kva i (i + 1)"
    have d: "drop i kva = ?kv # ?rest" using True by (simp add: Cons_nth_drop_Suc)
    have j: "j = Suc i + length ?same" by (simp add: j_def runEnd_eq)
    have le: "length ?same \<le> length ?rest" by (rule length_takeWhile_le)
    have "take (j - i) (drop i kva) = ?kv # ?same"
      using j takeWhile_eq_take [of "\<lambda>x. kvKey x = kvKey ?kv" ?rest] by (simp add: d)
    then have vals: "map (\<lambda>k. kvValue (kva ! k)) [i..<j] = kvValue ?kv # map kvValue ?same"
      using values_run [of j kva i] j le True by auto
    have tail: "drop j kva = dropWhile (\<lambda>x. kvKey x = kvKey ?kv) ?rest"
      using j by (simp add: dropWhile_eq_drop add.commute)
    have "sorted (map kvKey (?kv # ?rest))" using sorted_wrt_drop [OF 1(2), of i] by (simp add: drop_map d)
    from reduce_lines_first [OF this, of reducef] show ?thesis
      using 1(1) [OF True j_def refl refl] 1(2) True vals tail d j_def
      by (subst reduceLoop.simps) (simp add: Let_def)
  next
    case False
    then show ?thesis by (subst reduceLoop.simps) (simp add: reduce_lines_def)
  qed
qed

section \<open>Sorting and applications\<close>

text \<open>What the data path relies on: the sort permutes and orders by key, and the application's reduce
  function does not look at the order of the values.\<close>

locale mr_app =
  fixes srt :: mr_sort and reducef :: mr_reducef
  assumes srt_perm: "mset (srt kva) = mset kva"
    and srt_sorted: "sorted (map kvKey (srt kva))"
    and reduce_perm: "mset vs = mset vs' \<Longrightarrow> reducef k vs = reducef k vs'"
begin

lemma reduce_lines_perm:
  assumes "mset kva = mset kva'"
  shows "reduce_lines reducef kva = reduce_lines reducef kva'"
proof -
  have "mset (values_of k kva) = mset (values_of k kva')" for k
    using assms by (simp add: values_of_def)
  then have "reducef k (values_of k kva) = reducef k (values_of k kva')" for k by (rule reduce_perm)
  moreover have "set kva = set kva'" using assms by (metis set_mset_mset)
  ultimately show ?thesis by (simp add: reduce_lines_def)
qed

lemma reduce_output: "mset (reduceLoop reducef (srt kva) 0) = reduce_lines reducef kva"
  using reduceLoop_lines [OF srt_sorted, of reducef kva 0] reduce_lines_perm [OF srt_perm] by simp

end

text \<open>The lines of a list of records are the lines of its parts, when no key is in two parts.\<close>

lemma image_mset_sum_upto: "image_mset f (\<Sum>r < (n::nat). M r) = (\<Sum>r < n. image_mset f (M r))"
  by (induction n) simp_all

lemma reduce_lines_split:
  fixes b :: "string \<Rightarrow> nat"
  assumes "\<And>kv. kv \<in> set kva \<Longrightarrow> b (kvKey kv) < n"
  shows "reduce_lines reducef kva = (\<Sum>r < n. reduce_lines reducef (filter (\<lambda>kv. b (kvKey kv) = r) kva))"
proof -
  let ?part = "\<lambda>r. filter (\<lambda>kv. b (kvKey kv) = r) kva"
  let ?line = "\<lambda>k. outputLine k (reducef k (values_of k kva))"
  have vals: "values_of k (?part r) = values_of k kva" if "b k = r" for k r
    using that by (auto simp: values_of_def intro!: arg_cong [where f = "map kvValue"] filter_cong)
  have part: "reduce_lines reducef (?part r) = image_mset ?line (mset_set {k \<in> kvKey ` set kva. b k = r})" for r
  proof -
    have keys: "kvKey ` set (?part r) = {k \<in> kvKey ` set kva. b k = r}" by auto
    then show ?thesis unfolding reduce_lines_def keys by (intro image_mset_cong) (simp add: vals)
  qed
  have all: "kvKey ` set kva = {k \<in> kvKey ` set kva. b k < n}" using assms by auto
  have "mset_set {k \<in> kvKey ` set kva. b k < m} = (\<Sum>r < m. mset_set {k \<in> kvKey ` set kva. b k = r})" for m :: nat
  proof (induction m)
    case (Suc m)
    have "{k \<in> kvKey ` set kva. b k < Suc m} =
        {k \<in> kvKey ` set kva. b k < m} \<union> {k \<in> kvKey ` set kva. b k = m}" by auto
    then show ?case using Suc by (simp add: mset_set_Union disjoint_iff)
  qed simp
  note sum = this [of n, folded all]
  have "reduce_lines reducef kva = image_mset ?line (\<Sum>r < n. mset_set {k \<in> kvKey ` set kva. b k = r})"
    unfolding reduce_lines_def sum ..
  then show ?thesis by (simp add: part image_mset_sum_upto)
qed

section \<open>Distributing records\<close>

definition bucket :: "nat \<Rightarrow> string \<Rightarrow> nat" where
  "bucket n key = nat (ihash key mod int n)"

lemma ihash_range: "0 \<le> ihash key" "ihash key < 2 ^ 31"
proof -
  have "fnv32a key AND 0x7fffffff = take_bit 31 (fnv32a key)" by (simp add: take_bit_eq_mask mask_eq_exp_minus_1)
  then show "ihash key < 2 ^ 31" using take_bit_int_less_exp [of 31 "uint (fnv32a key)"]
    by (simp add: ihash_def unsigned_take_bit_eq)
qed (simp add: ihash_def)

lemma bucket_less: "0 < n \<Longrightarrow> bucket n key < n"
  by (simp add: bucket_def nat_less_iff)

lemma fillBuckets_eq:
  assumes "0 < n" and "length intermediate = n"
  shows "fillBuckets (int n) kva intermediate =
    Some (map (\<lambda>r. intermediate ! r @ filter (\<lambda>kv. bucket n (kvKey kv) = r) kva) [0..<n])"
  using assms(2)
proof (induction kva arbitrary: intermediate)
  case Nil
  then show ?case using map_nth [of intermediate] by simp
next
  case (Cons kv kva)
  let ?b = "bucket n (kvKey kv)"
  have b: "ihash (kvKey kv) mod int n = int ?b" using assms(1) by (simp add: bucket_def)
  have less: "?b < n" using bucket_less [OF assms(1)] .
  let ?next = "intermediate[?b := intermediate ! ?b @ [kv]]"
  have "fillBuckets (int n) (kv # kva) intermediate = fillBuckets (int n) kva ?next"
    using less Cons.prems assms(1) by (simp add: b slice_get_def slice_set_def)
  also have "\<dots> = Some (map (\<lambda>r. ?next ! r @ filter (\<lambda>kv. bucket n (kvKey kv) = r) kva) [0..<n])"
    using Cons.prems by (intro Cons.IH) simp
  also have "\<dots> = Some (map (\<lambda>r. intermediate ! r @ filter (\<lambda>kv. bucket n (kvKey kv) = r) (kv # kva)) [0..<n])"
    using Cons.prems by (simp add: nth_list_update)
  finally show ?case .
qed

lemma apply_writes_append: "apply_writes fs (ws @ ws') = apply_writes (apply_writes fs ws) ws'"
  by (induction ws arbitrary: fs) auto

lemma apply_writes_local: "fs a = fs' a \<Longrightarrow> apply_writes fs ws a = apply_writes fs' ws a"
proof (induction ws arbitrary: fs fs')
  case (Cons w ws)
  obtain name kvs where w: "w = (name, kvs)" by fastforce
  show ?case using Cons.IH [of "fs(name \<mapsto> kvs)" "fs'(name \<mapsto> kvs)"] Cons.prems by (simp add: w fun_upd_def)
qed simp

lemma apply_writes_other: "a \<notin> fst ` set ws \<Longrightarrow> apply_writes fs ws a = fs a"
  by (induction ws arbitrary: fs) auto

lemma apply_writeFile: "apply_writes fs (writeFile name kvs) a = (if a = name then Some kvs else fs a)"
proof -
  have "writeFile name kvs = map (\<lambda>n. (name, take n kvs)) [0..<length kvs] @ [(name, kvs)]"
    by (simp add: writeFile_def)
  moreover have "apply_writes fs (map (\<lambda>n. (name, take n kvs)) [0..<length kvs]) a = fs a" if "a \<noteq> name"
    using that by (intro apply_writes_other) auto
  ultimately show ?thesis by (simp add: apply_writes_append)
qed

definition task_records :: "(string \<Rightarrow> string option) \<Rightarrow> mr_mapf \<Rightarrow> string \<Rightarrow> KeyValue list" where
  "task_records input mapf filename = mapf filename (the (input filename))"

lemma apply_writes_concat:
  "apply_writes fs (concat (map (\<lambda>(i, kvs). writeFile (tid, int i) kvs) (enumerate k bs))) (a, b) =
   (if a = tid \<and> int k \<le> b \<and> b < int (k + length bs) then Some (bs ! (nat b - k)) else fs (a, b))"
proof (induction bs arbitrary: fs k)
  case (Cons x bs)
  have "nat b - k = Suc (nat b - Suc k)" if "int k < b" using that by linarith
  then show ?case by (simp add: apply_writes_append apply_writeFile Cons.IH) auto
qed auto

lemma writeFile_empty: "(name, []) \<in> set (writeFile name kvs)"
  by (force simp: writeFile_def)

text \<open>A map task leaves in its \<open>r\<close>-th file the records of its input whose keys belong to bucket \<open>r\<close>.\<close>

lemma execMap_writes_eq:
  assumes "0 < n" and "tiNReduce t = int n" and "input (tiFilename t) \<noteq> None"
  shows "\<exists>ws. execMap_writes input mapf t = Some ws \<and> (\<forall>w \<in> set ws. fst (fst w) = tiTaskId t) \<and>
    (\<forall>r < n. ((tiTaskId t, int r), []) \<in> set ws) \<and>
    (\<forall>fs r. r < n \<longrightarrow> apply_writes fs ws (tiTaskId t, int r) =
       Some (filter (\<lambda>kv. bucket n (kvKey kv) = r) (task_records input mapf (tiFilename t))))"
proof -
  obtain content where content: "input (tiFilename t) = Some content" using assms(3) by auto
  let ?kva = "task_records input mapf (tiFilename t)"
  define bs where "bs = map (\<lambda>r. filter (\<lambda>kv. bucket n (kvKey kv) = r) ?kva) [0..<n]"
  have bs: "fillBuckets (int n) ?kva (replicate n []) = Some bs"
    using fillBuckets_eq [OF assms(1), of "replicate n []" ?kva] by (simp add: bs_def cong: map_cong)
  define ws where "ws = concat (map (\<lambda>(i, kvs). writeFile (tiTaskId t, int i) kvs) (enumerate 0 bs))"
  have "execMap_writes input mapf t = Some ws"
    using bs content assms(2) by (simp add: execMap_writes_def ws_def task_records_def)
  moreover have "\<forall>w \<in> set ws. fst (fst w) = tiTaskId t" by (auto simp: ws_def writeFile_def)
  moreover have "((tiTaskId t, int r), []) \<in> set ws" if "r < n" for r
  proof -
    have "(r, bs ! r) \<in> set (enumerate 0 bs)" using that by (simp add: in_set_enumerate_eq bs_def)
    then show ?thesis using writeFile_empty [of "(tiTaskId t, int r)" "bs ! r"] by (force simp: ws_def)
  qed
  moreover have "apply_writes fs ws (tiTaskId t, int r) = Some (bs ! r)" if "r < n" for fs r
    using apply_writes_concat [of fs "tiTaskId t" 0 bs "tiTaskId t" "int r"] that by (simp add: ws_def bs_def)
  ultimately show ?thesis by (auto simp: bs_def)
qed

lemma readFiles_eq:
  assumes "\<And>i. i < m \<Longrightarrow> fs (int i, r) = Some (g i)"
  shows "readFiles fs r (map int [k..<m]) = Some (concat (map g [k..<m]))"
proof (induction "m - k" arbitrary: k)
  case (Suc d)
  then have "k < m" by simp
  then show ?case using Suc.hyps(1) [of "Suc k"] Suc.hyps(2) assms [of k] by (simp add: upt_conv_Cons)
qed simp

lemma int_upto_eq: "[0..int m - 1] = map int [0..<m]"
proof (induction m)
  case (Suc m)
  have "[0..int (Suc m) - 1] = [0..int m - 1] @ [int m]" using upto_rec2 [of 0 "int m"] by simp
  then show ?case using Suc by simp
qed simp

lemma readInputs_eq:
  assumes "\<And>f. f \<in> set files \<Longrightarrow> input f \<noteq> None"
  shows "readInputs input mapf files = Some (concat (map (task_records input mapf) files))"
  using assms
proof (induction files)
  case (Cons f files)
  obtain content where "input f = Some content" using Cons.prems [of f] by auto
  then show ?case using Cons by (simp add: task_records_def)
qed simp

end
