(* ===== verification/MapReduce_Job.thy ===== *)
theory MapReduce_Job
  imports MapReduce_Data
begin

text \<open>
  A whole job: the coordinator, any number of workers, the intermediate files and the output files. In a
  run of this theory every worker reports within the ten seconds the coordinator grants, so that
  each task has at most one worker; the steps of different workers interleave, down to single writes.
\<close>

datatype phase = Held Taskinfo
  | Writing Taskinfo "((int \<times> int) \<times> KeyValue list) list"
  | Executed Taskinfo
  | Reporting Taskinfo int

record mr_system =
  sys_c :: Coordinator
  sys_files :: mr_files
  sys_outs :: "int \<Rightarrow> string list option"
  sys_map :: "nat \<Rightarrow> phase option"
  sys_red :: "nat \<Rightarrow> phase option"

definition timely :: "(nat \<Rightarrow> int) \<Rightarrow> Coordinator \<Rightarrow> bool" where
  "timely clock c \<longleftrightarrow>
     (\<forall>i < length (MapTask c). \<not> timedOut (clock i) (MapTask c ! i)) \<and>
     (\<forall>i < length (ReduceTask c). \<not> timedOut (clock i) (ReduceTask c ! i))"

definition mr_start :: "string list \<Rightarrow> nat \<Rightarrow> mr_system" where
  "mr_start files n = \<lparr>sys_c = MakeCoordinator files n, sys_files = (\<lambda>_. None), sys_outs = (\<lambda>_. None),
     sys_map = (\<lambda>_. None), sys_red = (\<lambda>_. None)\<rparr>"

definition took_task :: "mr_system \<Rightarrow> Coordinator \<Rightarrow> Taskinfo \<Rightarrow> mr_system" where
  "took_task s c reply =
     (case mr_Worker reply of
        RunMap \<Rightarrow> s\<lparr>sys_c := c, sys_map := (sys_map s)(nat (tiTaskId reply) \<mapsto> Held reply)\<rparr>
      | RunReduce \<Rightarrow> s\<lparr>sys_c := c, sys_red := (sys_red s)(nat (tiTaskId reply) \<mapsto> Held reply)\<rparr>
      | _ \<Rightarrow> s\<lparr>sys_c := c\<rparr>)"

inductive mr_run ::
  "(string \<Rightarrow> string option) \<Rightarrow> mr_mapf \<Rightarrow> mr_sort \<Rightarrow> mr_reducef \<Rightarrow> string list \<Rightarrow> nat \<Rightarrow> mr_system \<Rightarrow> bool"
  for input mapf srt reducef files n where
  start: "mr_run input mapf srt reducef files n (mr_start files n)"
| assign: "mr_run input mapf srt reducef files n s \<Longrightarrow> timely clock (sys_c s) \<Longrightarrow>
    mr_Handlers clock now stage (sys_c s) requestTask_args zeroTaskinfo = Some (c, reply) \<Longrightarrow>
    mr_run input mapf srt reducef files n (took_task s c reply)"
| begin_map: "mr_run input mapf srt reducef files n s \<Longrightarrow> sys_map s i = Some (Held t) \<Longrightarrow>
    execMap_writes input mapf t = Some ws \<Longrightarrow>
    mr_run input mapf srt reducef files n (s\<lparr>sys_map := (sys_map s)(i \<mapsto> Writing t ws)\<rparr>)"
| write_map: "mr_run input mapf srt reducef files n s \<Longrightarrow> sys_map s i = Some (Writing t ((name, kvs) # ws)) \<Longrightarrow>
    mr_run input mapf srt reducef files n
      (s\<lparr>sys_files := (sys_files s)(name \<mapsto> kvs), sys_map := (sys_map s)(i \<mapsto> Writing t ws)\<rparr>)"
| end_map: "mr_run input mapf srt reducef files n s \<Longrightarrow> sys_map s i = Some (Writing t []) \<Longrightarrow>
    mr_run input mapf srt reducef files n (s\<lparr>sys_map := (sys_map s)(i \<mapsto> Executed t)\<rparr>)"
| run_reduce: "mr_run input mapf srt reducef files n s \<Longrightarrow> sys_red s r = Some (Held t) \<Longrightarrow>
    execReduce srt reducef t (sys_files s) = Some lines \<Longrightarrow>
    mr_run input mapf srt reducef files n
      (s\<lparr>sys_outs := (sys_outs s)(tiTaskId t \<mapsto> lines), sys_red := (sys_red s)(r \<mapsto> Executed t)\<rparr>)"
| report_map: "mr_run input mapf srt reducef files n s \<Longrightarrow> sys_map s i = Some (Executed t) \<Longrightarrow>
    mr_run input mapf srt reducef files n (s\<lparr>sys_map := (sys_map s)(i \<mapsto> Reporting t (Stage (sys_c s)))\<rparr>)"
| report_reduce: "mr_run input mapf srt reducef files n s \<Longrightarrow> sys_red s r = Some (Executed t) \<Longrightarrow>
    mr_run input mapf srt reducef files n (s\<lparr>sys_red := (sys_red s)(r \<mapsto> Reporting t (Stage (sys_c s)))\<rparr>)"
| finish_map: "mr_run input mapf srt reducef files n s \<Longrightarrow> sys_map s i = Some (Reporting t stage) \<Longrightarrow>
    mr_Handlers clock now stage (sys_c s) (reportTask_args (tiTaskId t) (tiStartTime t)) zeroTaskinfo = Some (c, reply) \<Longrightarrow>
    mr_run input mapf srt reducef files n (s\<lparr>sys_c := c, sys_map := (sys_map s)(i := None)\<rparr>)"
| finish_reduce: "mr_run input mapf srt reducef files n s \<Longrightarrow> sys_red s r = Some (Reporting t stage) \<Longrightarrow>
    mr_Handlers clock now stage (sys_c s) (reportTask_args (tiTaskId t) (tiStartTime t)) zeroTaskinfo = Some (c, reply) \<Longrightarrow>
    mr_run input mapf srt reducef files n (s\<lparr>sys_c := c, sys_red := (sys_red s)(r := None)\<rparr>)"

section \<open>Task tables\<close>

text \<open>A table of tasks and who works on them: a task is \<open>TASK_WORKING\<close> exactly while a worker has it.\<close>

definition table_ok :: "Task list \<Rightarrow> (nat \<Rightarrow> phase option) \<Rightarrow> bool" where
  "table_ok tasks fl \<longleftrightarrow>
     (\<forall>i < length tasks. TaskId (tasks ! i) = int i \<and> Status (tasks ! i) \<in> {TASK_IDLE, TASK_WORKING, TASK_DONE} \<and>
        (Status (tasks ! i) = TASK_WORKING \<longleftrightarrow> fl i \<noteq> None)) \<and>
     (\<forall>i \<ge> length tasks. fl i = None)"

lemma finduncompletedTask_iff: "finduncompletedTask tasks \<longleftrightarrow> (\<forall>i < length tasks. Status (tasks ! i) = TASK_DONE)"
proof -
  have "finduncompletedTask tasks \<longleftrightarrow> (\<forall>t \<in> set tasks. Status t = TASK_DONE)"
    by (induction tasks) auto
  then show ?thesis by (simp add: all_set_conv_all_nth)
qed

lemma findIdleTask_SomeD: "findIdleTask tasks = Some i \<Longrightarrow> i < length tasks \<and> Status (tasks ! i) = TASK_IDLE"
  by (induction tasks arbitrary: i) (auto split: if_splits)

lemma timeOutTask_id:
  assumes "\<And>i. i < length tasks \<Longrightarrow> \<not> timedOut (clock i) (tasks ! i)"
  shows "timeOutTask clock tasks = tasks"
  using assms by (auto simp: timeOutTask_def nth_enumerate_eq intro!: nth_equalityI)

lemma table_start:
  assumes "table_ok tasks fl" and "findIdleTask tasks = Some i"
  shows "table_ok (startTask now i tasks) (fl(i \<mapsto> ph))"
  using assms(1) findIdleTask_SomeD [OF assms(2)]
  by (auto simp: table_ok_def startTask_def nth_list_update mr_consts)

lemma table_finish:
  assumes "table_ok tasks fl" and "fl i = Some ph"
  shows "finishTask tasks (int i) = Some (tasks[i := (tasks ! i)\<lparr>Status := TASK_DONE\<rparr>])"
    and "table_ok (tasks[i := (tasks ! i)\<lparr>Status := TASK_DONE\<rparr>]) (fl(i := None))"
    and "i < length tasks" and "Status (tasks ! i) = TASK_WORKING"
proof -
  show i: "i < length tasks" using assms unfolding table_ok_def by (metis not_le option.distinct(1))
  then show w: "Status (tasks ! i) = TASK_WORKING" using assms by (simp add: table_ok_def)
  show "finishTask tasks (int i) = Some (tasks[i := (tasks ! i)\<lparr>Status := TASK_DONE\<rparr>])"
    using i w by (simp add: finishTask_def slice_get_def slice_set_def)
  show "table_ok (tasks[i := (tasks ! i)\<lparr>Status := TASK_DONE\<rparr>]) (fl(i := None))"
    using assms i by (auto simp: table_ok_def nth_list_update mr_consts)
qed

lemma table_move: "table_ok tasks fl \<Longrightarrow> fl i = Some ph \<Longrightarrow> table_ok tasks (fl(i \<mapsto> ph'))"
  by (auto simp: table_ok_def)

section \<open>The invariant\<close>

definition part :: "(string \<Rightarrow> string option) \<Rightarrow> mr_mapf \<Rightarrow> string list \<Rightarrow> nat \<Rightarrow> nat \<Rightarrow> nat \<Rightarrow> KeyValue list" where
  "part input mapf files n i r = filter (\<lambda>kv. bucket n (kvKey kv) = r) (task_records input mapf (files ! i))"

definition written :: "(string \<Rightarrow> string option) \<Rightarrow> mr_mapf \<Rightarrow> string list \<Rightarrow> nat \<Rightarrow> nat \<Rightarrow> mr_files \<Rightarrow> bool" where
  "written input mapf files n i fs \<longleftrightarrow> (\<forall>r < n. fs (int i, int r) = Some (part input mapf files n i r))"

definition reduce_result ::
  "(string \<Rightarrow> string option) \<Rightarrow> mr_mapf \<Rightarrow> mr_sort \<Rightarrow> mr_reducef \<Rightarrow> string list \<Rightarrow> nat \<Rightarrow> nat \<Rightarrow> string list" where
  "reduce_result input mapf srt reducef files n r =
     reduceLoop reducef (srt (concat (map (\<lambda>i. part input mapf files n i r) [0..<length files]))) 0"

fun map_phase_ok where
  "map_phase_ok input mapf files n fs i (Held t) \<longleftrightarrow>
     tiTaskId t = int i \<and> tiFilename t = files ! i \<and> tiNReduce t = int n"
| "map_phase_ok input mapf files n fs i (Writing t ws) \<longleftrightarrow> tiTaskId t = int i \<and>
     (\<forall>w \<in> set ws. fst (fst w) = int i) \<and> written input mapf files n i (apply_writes fs ws)"
| "map_phase_ok input mapf files n fs i (Executed t) \<longleftrightarrow> tiTaskId t = int i \<and> written input mapf files n i fs"
| "map_phase_ok input mapf files n fs i (Reporting t stage) \<longleftrightarrow> tiTaskId t = int i \<and> stage = STAGE_MAPPING \<and>
     written input mapf files n i fs"

fun red_phase_ok where
  "red_phase_ok result m outs r (Held t) \<longleftrightarrow> tiTaskId t = int r \<and> tiNMap t = int m"
| "red_phase_ok result m outs r (Writing t ws) \<longleftrightarrow> False"
| "red_phase_ok result m outs r (Executed t) \<longleftrightarrow> tiTaskId t = int r \<and> outs (int r) = Some (result r)"
| "red_phase_ok result m outs r (Reporting t stage) \<longleftrightarrow> tiTaskId t = int r \<and> stage = STAGE_REDUCING \<and>
     outs (int r) = Some (result r)"

definition coord_ok :: "string list \<Rightarrow> nat \<Rightarrow> Coordinator \<Rightarrow> bool" where
  "coord_ok files n c \<longleftrightarrow>
     mr_nReduce c = int n \<and> mr_nMap c = int (length files) \<and>
     length (MapTask c) = length files \<and> length (ReduceTask c) = n \<and>
     (\<forall>i < length files. FileName (MapTask c ! i) = files ! i) \<and>
     Stage c \<in> {STAGE_MAPPING, STAGE_REDUCING, STAGE_FINISHED} \<and>
     (Stage c = STAGE_MAPPING \<longrightarrow> (\<forall>r < n. Status (ReduceTask c ! r) = TASK_IDLE)) \<and>
     (Stage c \<noteq> STAGE_MAPPING \<longrightarrow> (\<forall>i < length files. Status (MapTask c ! i) = TASK_DONE)) \<and>
     (Stage c = STAGE_FINISHED \<longrightarrow> (\<forall>r < n. Status (ReduceTask c ! r) = TASK_DONE))"

definition mr_inv where
  "mr_inv input mapf srt reducef files n s \<longleftrightarrow>
     coord_ok files n (sys_c s) \<and>
     table_ok (MapTask (sys_c s)) (sys_map s) \<and> table_ok (ReduceTask (sys_c s)) (sys_red s) \<and>
     (\<forall>i < length files. Status (MapTask (sys_c s) ! i) = TASK_DONE \<longrightarrow> written input mapf files n i (sys_files s)) \<and>
     (\<forall>i ph. sys_map s i = Some ph \<longrightarrow> map_phase_ok input mapf files n (sys_files s) i ph) \<and>
     (\<forall>r < n. Status (ReduceTask (sys_c s) ! r) = TASK_DONE \<longrightarrow>
        sys_outs s (int r) = Some (reduce_result input mapf srt reducef files n r)) \<and>
     (\<forall>r ph. sys_red s r = Some ph \<longrightarrow>
        red_phase_ok (reduce_result input mapf srt reducef files n) (length files) (sys_outs s) r ph)"

lemma mr_invD:
  assumes "mr_inv input mapf srt reducef files n s"
  shows "coord_ok files n (sys_c s)"
    and "table_ok (MapTask (sys_c s)) (sys_map s)" and "table_ok (ReduceTask (sys_c s)) (sys_red s)"
    and "\<And>i. i < length files \<Longrightarrow> Status (MapTask (sys_c s) ! i) = TASK_DONE \<Longrightarrow> written input mapf files n i (sys_files s)"
    and "\<And>i ph. sys_map s i = Some ph \<Longrightarrow> map_phase_ok input mapf files n (sys_files s) i ph"
    and "\<And>r. r < n \<Longrightarrow> Status (ReduceTask (sys_c s) ! r) = TASK_DONE \<Longrightarrow>
      sys_outs s (int r) = Some (reduce_result input mapf srt reducef files n r)"
    and "\<And>r ph. sys_red s r = Some ph \<Longrightarrow>
      red_phase_ok (reduce_result input mapf srt reducef files n) (length files) (sys_outs s) r ph"
  using assms by (auto simp: mr_inv_def)

lemma mr_inv_start: "mr_inv input mapf srt reducef files n (mr_start files n)"
  by (simp add: mr_inv_def mr_start_def coord_ok_def table_ok_def MakeCoordinator_def mr_consts)

text \<open>A task in work fixes the stage.\<close>

lemma map_stage:
  assumes "mr_inv input mapf srt reducef files n s" and "sys_map s i = Some ph"
  shows "Stage (sys_c s) = STAGE_MAPPING" and "i < length files"
proof -
  note D = mr_invD [OF assms(1)]
  note T = table_finish(3,4) [OF D(2) assms(2)]
  show "i < length files" using T(1) D(1) by (simp add: coord_ok_def)
  then show "Stage (sys_c s) = STAGE_MAPPING" using T(2) D(1) by (auto simp: coord_ok_def mr_consts)
qed

lemma reduce_stage:
  assumes "mr_inv input mapf srt reducef files n s" and "sys_red s r = Some ph"
  shows "Stage (sys_c s) = STAGE_REDUCING" and "r < n"
proof -
  note D = mr_invD [OF assms(1)]
  note T = table_finish(3,4) [OF D(3) assms(2)]
  show "r < n" using T(1) D(1) by (simp add: coord_ok_def)
  then show "Stage (sys_c s) = STAGE_REDUCING" using T(2) D(1) by (auto simp: coord_ok_def mr_consts)
qed

section \<open>Steps\<close>

lemma startTask_nth:
  "j < length tasks \<Longrightarrow> startTask now i tasks ! j =
     (if j = i then (tasks ! i)\<lparr>Status := TASK_WORKING, StartTime := now\<rparr> else tasks ! j)"
  by (auto simp: startTask_def nth_list_update)

lemma length_startTask [simp]: "length (startTask now i tasks) = length tasks"
  by (simp add: startTask_def)

lemma assign_map:
  assumes inv: "mr_inv input mapf srt reducef files n s" and st: "Stage (sys_c s) = STAGE_MAPPING"
    and i: "findIdleTask (MapTask (sys_c s)) = Some i"
    and t: "tiTaskId t = int i" "tiFilename t = files ! i" "tiNReduce t = int n"
  shows "mr_inv input mapf srt reducef files n
    (s\<lparr>sys_c := (sys_c s)\<lparr>MapTask := startTask now i (MapTask (sys_c s))\<rparr>, sys_map := (sys_map s)(i \<mapsto> Held t)\<rparr>)"
proof -
  note D = mr_invD [OF inv]
  have "coord_ok files n ((sys_c s)\<lparr>MapTask := startTask now i (MapTask (sys_c s))\<rparr>)"
    using D(1) st by (auto simp: coord_ok_def startTask_nth)
  moreover have "written input mapf files n j (sys_files s)"
    if "j < length files" "Status (startTask now i (MapTask (sys_c s)) ! j) = TASK_DONE" for j
    using that D(1) D(4) [of j] by (auto simp: coord_ok_def startTask_nth mr_consts split: if_splits)
  ultimately show ?thesis using D table_start [OF D(2) i, of now "Held t"] t by (auto simp: mr_inv_def)
qed

lemma assign_reduce:
  assumes inv: "mr_inv input mapf srt reducef files n s" and st: "Stage (sys_c s) = STAGE_REDUCING"
    and r: "findIdleTask (ReduceTask (sys_c s)) = Some r"
    and t: "tiTaskId t = int r" "tiNMap t = int (length files)"
  shows "mr_inv input mapf srt reducef files n
    (s\<lparr>sys_c := (sys_c s)\<lparr>ReduceTask := startTask now r (ReduceTask (sys_c s))\<rparr>, sys_red := (sys_red s)(r \<mapsto> Held t)\<rparr>)"
proof -
  note D = mr_invD [OF inv]
  have "coord_ok files n ((sys_c s)\<lparr>ReduceTask := startTask now r (ReduceTask (sys_c s))\<rparr>)"
    using D(1) st by (auto simp: coord_ok_def startTask_nth mr_consts)
  moreover have "sys_outs s (int q) = Some (reduce_result input mapf srt reducef files n q)"
    if "q < n" "Status (startTask now r (ReduceTask (sys_c s)) ! q) = TASK_DONE" for q
    using that D(1) D(6) [of q] by (auto simp: coord_ok_def startTask_nth mr_consts split: if_splits)
  ultimately show ?thesis using D table_start [OF D(3) r, of now "Held t"] t by (auto simp: mr_inv_def)
qed

text \<open>Moving on to the next stage.\<close>

lemma advance_stage:
  assumes inv: "mr_inv input mapf srt reducef files n s"
    and "coord_ok files n ((sys_c s)\<lparr>Stage := st\<rparr>)"
  shows "mr_inv input mapf srt reducef files n (s\<lparr>sys_c := (sys_c s)\<lparr>Stage := st\<rparr>\<rparr>)"
  using inv assms(2) by (simp add: mr_inv_def)

lemma assign_timely:
  assumes "timely clock c"
  shows "timeOutTask clock (MapTask c) = MapTask c" and "timeOutTask clock (ReduceTask c) = ReduceTask c"
  using assms by (auto simp: timely_def intro: timeOutTask_id)

lemma mr_inv_assign_map:
  assumes inv: "mr_inv input mapf srt reducef files n s" and tm: "timely clock (sys_c s)"
    and st: "Stage (sys_c s) = STAGE_MAPPING" and a: "assignTask clock now (sys_c s) zeroTaskinfo = (c, reply)"
  shows "mr_inv input mapf srt reducef files n (took_task s c reply)"
proof -
  note D = mr_invD [OF inv]
  consider (alldone) "finduncompletedTask (MapTask (sys_c s))"
    | (none) "\<not> finduncompletedTask (MapTask (sys_c s))" "findIdleTask (MapTask (sys_c s)) = None"
    | (some) i where "\<not> finduncompletedTask (MapTask (sys_c s))" "findIdleTask (MapTask (sys_c s)) = Some i"
    by fastforce
  then show ?thesis
  proof cases
    case alldone
    then have "coord_ok files n ((sys_c s)\<lparr>Stage := STAGE_REDUCING\<rparr>)"
      using D(1) st by (auto simp: coord_ok_def finduncompletedTask_iff mr_consts)
    from advance_stage [OF inv this] show ?thesis
      using a st alldone by (auto simp: assignTask_def assign_timely [OF tm] took_task_def mr_Worker_def mr_consts)
  next
    case none
    then show ?thesis using a st inv
      by (auto simp: assignTask_def assign_timely [OF tm] took_task_def mr_Worker_def mr_consts)
  next
    case some
    have i: "i < length files" "TaskId (MapTask (sys_c s) ! i) = int i" "FileName (MapTask (sys_c s) ! i) = files ! i"
      using findIdleTask_SomeD [OF some(2)] D(1,2) by (auto simp: coord_ok_def table_ok_def)
    have r: "c = (sys_c s)\<lparr>MapTask := startTask now i (MapTask (sys_c s))\<rparr>"
      "reply = fillReply now (sys_c s) (MapTask (sys_c s) ! i) (zeroTaskinfo\<lparr>RPCtype := RPC_MAP\<rparr>)"
      using a st some by (auto simp: assignTask_def assign_timely [OF tm] Let_def)
    have "tiTaskId reply = int i" "tiFilename reply = files ! i" "tiNReduce reply = int n" "mr_Worker reply = RunMap"
      using r(2) i D(1) by (simp_all add: fillReply_def coord_ok_def mr_Worker_def mr_consts)
    then show ?thesis using assign_map [OF inv st some(2), of reply now] r(1) by (simp add: took_task_def)
  qed
qed

lemma mr_inv_assign_reduce:
  assumes inv: "mr_inv input mapf srt reducef files n s" and tm: "timely clock (sys_c s)"
    and st: "Stage (sys_c s) = STAGE_REDUCING" and a: "assignTask clock now (sys_c s) zeroTaskinfo = (c, reply)"
  shows "mr_inv input mapf srt reducef files n (took_task s c reply)"
proof -
  note D = mr_invD [OF inv]
  consider (alldone) "finduncompletedTask (ReduceTask (sys_c s))"
    | (none) "\<not> finduncompletedTask (ReduceTask (sys_c s))" "findIdleTask (ReduceTask (sys_c s)) = None"
    | (some) r where "\<not> finduncompletedTask (ReduceTask (sys_c s))" "findIdleTask (ReduceTask (sys_c s)) = Some r"
    by fastforce
  then show ?thesis
  proof cases
    case alldone
    then have "coord_ok files n ((sys_c s)\<lparr>Stage := STAGE_FINISHED\<rparr>)"
      using D(1) st by (auto simp: coord_ok_def finduncompletedTask_iff mr_consts)
    from advance_stage [OF inv this] show ?thesis
      using a st alldone by (auto simp: assignTask_def assign_timely [OF tm] took_task_def mr_Worker_def mr_consts)
  next
    case none
    then show ?thesis using a st inv
      by (auto simp: assignTask_def assign_timely [OF tm] took_task_def mr_Worker_def mr_consts)
  next
    case some
    have "TaskId (ReduceTask (sys_c s) ! r) = int r"
      using findIdleTask_SomeD [OF some(2)] D(3) by (auto simp: table_ok_def)
    moreover have r: "c = (sys_c s)\<lparr>ReduceTask := startTask now r (ReduceTask (sys_c s))\<rparr>"
      "reply = fillReply now (sys_c s) (ReduceTask (sys_c s) ! r) (zeroTaskinfo\<lparr>RPCtype := RPC_REDUCE\<rparr>)"
      using a st some by (auto simp: assignTask_def assign_timely [OF tm] mr_consts Let_def)
    ultimately have "tiTaskId reply = int r" "tiNMap reply = int (length files)" "mr_Worker reply = RunReduce"
      using D(1) by (simp_all add: fillReply_def coord_ok_def mr_Worker_def mr_consts)
    then show ?thesis using assign_reduce [OF inv st some(2), of reply now] r(1) by (simp add: took_task_def)
  qed
qed

lemma mr_inv_assign:
  assumes inv: "mr_inv input mapf srt reducef files n s" and tm: "timely clock (sys_c s)"
    and h: "mr_Handlers clock now stage (sys_c s) requestTask_args zeroTaskinfo = Some (c, reply)"
  shows "mr_inv input mapf srt reducef files n (took_task s c reply)"
proof -
  have a: "assignTask clock now (sys_c s) zeroTaskinfo = (c, reply)"
    using h by (simp add: mr_Handlers_def requestTask_args_def)
  consider "Stage (sys_c s) = STAGE_MAPPING" | "Stage (sys_c s) = STAGE_REDUCING" | "Stage (sys_c s) = STAGE_FINISHED"
    using mr_invD(1) [OF inv] by (auto simp: coord_ok_def)
  then show ?thesis
  proof cases
    case 3
    then show ?thesis using a inv by (auto simp: assignTask_def took_task_def mr_Worker_def mr_consts)
  qed (use mr_inv_assign_map [OF inv tm _ a] mr_inv_assign_reduce [OF inv tm _ a] in auto)
qed

lemma written_local:
  assumes "\<And>r. fs' (int i, r) = fs (int i, r)"
  shows "written input mapf files n i (apply_writes fs' ws) = written input mapf files n i (apply_writes fs ws)"
proof -
  have "apply_writes fs' ws (int i, r) = apply_writes fs ws (int i, r)" for r
    using assms by (rule apply_writes_local)
  then show ?thesis by (simp add: written_def)
qed

lemma map_phase_local:
  assumes "\<And>r. fs' (int i, r) = fs (int i, r)"
  shows "map_phase_ok input mapf files n fs' i ph = map_phase_ok input mapf files n fs i ph"
proof -
  have w: "written input mapf files n i (apply_writes fs' ws) = written input mapf files n i (apply_writes fs ws)" for ws
    by (rule written_local) (rule assms)
  show ?thesis using w w [of "[]"] by (cases ph) simp_all
qed

text \<open>A step of one map task: it changes its own phase and its own files.\<close>

lemma map_progress:
  assumes inv: "mr_inv input mapf srt reducef files n s" and i: "sys_map s i = Some ph"
    and ph': "map_phase_ok input mapf files n fs i ph'"
    and fs: "\<And>a r. a \<noteq> int i \<Longrightarrow> fs (a, r) = sys_files s (a, r)"
  shows "mr_inv input mapf srt reducef files n (s\<lparr>sys_files := fs, sys_map := (sys_map s)(i \<mapsto> ph')\<rparr>)"
proof -
  note D = mr_invD [OF inv]
  note T = table_finish(3,4) [OF D(2) i]
  have "written input mapf files n j fs" if "j < length files" "Status (MapTask (sys_c s) ! j) = TASK_DONE" for j
  proof -
    have "j \<noteq> i" using that T(2) by (auto simp: mr_consts)
    then show ?thesis using D(4) [OF that] fs [of "int j"] by (simp add: written_def)
  qed
  moreover have "map_phase_ok input mapf files n fs j p" if "((sys_map s)(i \<mapsto> ph')) j = Some p" for j p
  proof (cases "j = i")
    case True
    then show ?thesis using that ph' by simp
  next
    case False
    then show ?thesis using D(5) [of j p] that fs [of "int j"] map_phase_local [of fs j "sys_files s"] by simp
  qed
  ultimately show ?thesis using D table_move [OF D(2) i, of ph'] by (simp add: mr_inv_def)
qed

lemma mr_inv_begin_map:
  assumes inv: "mr_inv input mapf srt reducef files n s" and i: "sys_map s i = Some (Held t)"
    and ws: "execMap_writes input mapf t = Some ws" and n: "0 < n"
    and input: "\<And>f. f \<in> set files \<Longrightarrow> input f \<noteq> None"
  shows "mr_inv input mapf srt reducef files n (s\<lparr>sys_map := (sys_map s)(i \<mapsto> Writing t ws)\<rparr>)"
proof -
  have t: "tiTaskId t = int i" "tiFilename t = files ! i" "tiNReduce t = int n"
    using mr_invD(5) [OF inv i] by auto
  have "input (tiFilename t) \<noteq> None" using input map_stage(2) [OF inv i] t(2) by simp
  then have "map_phase_ok input mapf files n (sys_files s) i (Writing t ws)"
    using execMap_writes_eq [OF n t(3), of input mapf] ws t by (auto simp: written_def part_def)
  from map_progress [OF inv i this] show ?thesis by simp
qed

lemma mr_inv_write_map:
  assumes inv: "mr_inv input mapf srt reducef files n s" and i: "sys_map s i = Some (Writing t ((name, kvs) # ws))"
  shows "mr_inv input mapf srt reducef files n
    (s\<lparr>sys_files := (sys_files s)(name \<mapsto> kvs), sys_map := (sys_map s)(i \<mapsto> Writing t ws)\<rparr>)"
proof -
  note ph = mr_invD(5) [OF inv i]
  show ?thesis using ph by (intro map_progress [OF inv i]) auto
qed

lemma mr_inv_end_map:
  assumes inv: "mr_inv input mapf srt reducef files n s" and i: "sys_map s i = Some (Writing t [])"
  shows "mr_inv input mapf srt reducef files n (s\<lparr>sys_map := (sys_map s)(i \<mapsto> Executed t)\<rparr>)"
proof -
  have "map_phase_ok input mapf files n (sys_files s) i (Executed t)" using mr_invD(5) [OF inv i] by simp
  from map_progress [OF inv i this] show ?thesis by simp
qed

lemma mr_inv_report_map:
  assumes inv: "mr_inv input mapf srt reducef files n s" and i: "sys_map s i = Some (Executed t)"
  shows "mr_inv input mapf srt reducef files n (s\<lparr>sys_map := (sys_map s)(i \<mapsto> Reporting t (Stage (sys_c s)))\<rparr>)"
proof -
  have "map_phase_ok input mapf files n (sys_files s) i (Reporting t (Stage (sys_c s)))"
    using mr_invD(5) [OF inv i] map_stage [OF inv i] by simp
  from map_progress [OF inv i this] show ?thesis by simp
qed

lemma reduce_progress:
  assumes inv: "mr_inv input mapf srt reducef files n s" and r: "sys_red s r = Some ph"
    and ph': "red_phase_ok (reduce_result input mapf srt reducef files n) (length files) outs r ph'"
    and outs: "\<And>q. q \<noteq> int r \<Longrightarrow> outs q = sys_outs s q"
  shows "mr_inv input mapf srt reducef files n (s\<lparr>sys_outs := outs, sys_red := (sys_red s)(r \<mapsto> ph')\<rparr>)"
proof -
  let ?result = "reduce_result input mapf srt reducef files n"
  note D = mr_invD [OF inv]
  note T = table_finish(3,4) [OF D(3) r]
  have "outs (int q) = Some (?result q)" if "q < n" "Status (ReduceTask (sys_c s) ! q) = TASK_DONE" for q
  proof -
    have "q \<noteq> r" using that T(2) by (auto simp: mr_consts)
    then show ?thesis using D(6) [OF that] outs [of "int q"] by simp
  qed
  moreover have "red_phase_ok ?result (length files) outs q p" if "((sys_red s)(r \<mapsto> ph')) q = Some p" for q p
  proof (cases "q = r")
    case True
    then show ?thesis using that ph' by simp
  next
    case False
    then show ?thesis using D(7) [of q p] that outs [of "int q"] by (cases p) simp_all
  qed
  ultimately show ?thesis using D table_move [OF D(3) r, of ph'] by (simp add: mr_inv_def)
qed

text \<open>A reduce task finds all its input files complete.\<close>

lemma execReduce_result:
  assumes inv: "mr_inv input mapf srt reducef files n s" and r: "sys_red s r = Some (Held t)"
  shows "execReduce srt reducef t (sys_files s) = Some (reduce_result input mapf srt reducef files n r)"
proof -
  note D = mr_invD [OF inv]
  have t: "tiTaskId t = int r" "tiNMap t = int (length files)" using D(7) [OF r] by auto
  note st = reduce_stage [OF inv r]
  have "sys_files s (int i, int r) = Some (part input mapf files n i r)" if "i < length files" for i
  proof -
    have "Status (MapTask (sys_c s) ! i) = TASK_DONE" using D(1) st(1) that by (auto simp: coord_ok_def mr_consts)
    then show ?thesis using D(4) [OF that] st(2) by (simp add: written_def)
  qed
  then have "readFiles (sys_files s) (int r) (map int [0..<length files]) =
      Some (concat (map (\<lambda>i. part input mapf files n i r) [0..<length files]))" by (rule readFiles_eq)
  then show ?thesis by (simp add: execReduce_def t int_upto_eq reduce_result_def)
qed

lemma mr_inv_run_reduce:
  assumes inv: "mr_inv input mapf srt reducef files n s" and r: "sys_red s r = Some (Held t)"
    and lines: "execReduce srt reducef t (sys_files s) = Some lines"
  shows "mr_inv input mapf srt reducef files n
    (s\<lparr>sys_outs := (sys_outs s)(tiTaskId t \<mapsto> lines), sys_red := (sys_red s)(r \<mapsto> Executed t)\<rparr>)"
  using mr_invD(7) [OF inv r] execReduce_result [OF inv r] lines
  by (intro reduce_progress [OF inv r]) auto

lemma mr_inv_report_reduce:
  assumes inv: "mr_inv input mapf srt reducef files n s" and r: "sys_red s r = Some (Executed t)"
  shows "mr_inv input mapf srt reducef files n (s\<lparr>sys_red := (sys_red s)(r \<mapsto> Reporting t (Stage (sys_c s)))\<rparr>)"
proof -
  have "red_phase_ok (reduce_result input mapf srt reducef files n) (length files) (sys_outs s) r
      (Reporting t (Stage (sys_c s)))"
    using mr_invD(7) [OF inv r] reduce_stage [OF inv r] by simp
  from reduce_progress [OF inv r this] show ?thesis by simp
qed

lemma mr_inv_finish_map:
  assumes inv: "mr_inv input mapf srt reducef files n s" and i: "sys_map s i = Some (Reporting t stage)"
    and h: "mr_Handlers clock now stage (sys_c s) (reportTask_args (tiTaskId t) (tiStartTime t)) zeroTaskinfo = Some (c, reply)"
  shows "mr_inv input mapf srt reducef files n (s\<lparr>sys_c := c, sys_map := (sys_map s)(i := None)\<rparr>)"
proof -
  note D = mr_invD [OF inv]
  note T = table_finish [OF D(2) i]
  let ?tasks = "(MapTask (sys_c s))[i := (MapTask (sys_c s) ! i)\<lparr>Status := TASK_DONE\<rparr>]"
  have ph: "tiTaskId t = int i" "stage = STAGE_MAPPING" "written input mapf files n i (sys_files s)"
    using D(5) [OF i] by auto
  have c: "c = (sys_c s)\<lparr>MapTask := ?tasks\<rparr>"
    using h ph T(1) by (auto simp: mr_Handlers_def reportTask_args_def checkTask_def mr_consts)
  have "coord_ok files n c" using D(1) map_stage [OF inv i] by (auto simp: c coord_ok_def nth_list_update)
  moreover have "written input mapf files n j (sys_files s)" if "j < length files" "Status (?tasks ! j) = TASK_DONE" for j
    using that D(4) [of j] ph(3) by (cases "j = i") simp_all
  ultimately show ?thesis using D T(2) by (auto simp: mr_inv_def c split: if_splits)
qed

lemma mr_inv_finish_reduce:
  assumes inv: "mr_inv input mapf srt reducef files n s" and r: "sys_red s r = Some (Reporting t stage)"
    and h: "mr_Handlers clock now stage (sys_c s) (reportTask_args (tiTaskId t) (tiStartTime t)) zeroTaskinfo = Some (c, reply)"
  shows "mr_inv input mapf srt reducef files n (s\<lparr>sys_c := c, sys_red := (sys_red s)(r := None)\<rparr>)"
proof -
  let ?result = "reduce_result input mapf srt reducef files n"
  note D = mr_invD [OF inv]
  note T = table_finish [OF D(3) r]
  let ?tasks = "(ReduceTask (sys_c s))[r := (ReduceTask (sys_c s) ! r)\<lparr>Status := TASK_DONE\<rparr>]"
  have ph: "tiTaskId t = int r" "stage = STAGE_REDUCING" "sys_outs s (int r) = Some (?result r)"
    using D(7) [OF r] by auto
  have c: "c = (sys_c s)\<lparr>ReduceTask := ?tasks\<rparr>"
    using h ph T(1) by (auto simp: mr_Handlers_def reportTask_args_def checkTask_def mr_consts)
  have "coord_ok files n c"
    using D(1) reduce_stage [OF inv r] by (auto simp: c coord_ok_def nth_list_update mr_consts)
  moreover have "sys_outs s (int q) = Some (?result q)" if "q < n" "Status (?tasks ! q) = TASK_DONE" for q
    using that D(6) [of q] ph(3) by (cases "q = r") simp_all
  ultimately show ?thesis using D T(2) by (auto simp: mr_inv_def c split: if_splits)
qed

lemma mr_run_inv:
  assumes "mr_run input mapf srt reducef files n s" and "0 < n" and "\<And>f. f \<in> set files \<Longrightarrow> input f \<noteq> None"
  shows "mr_inv input mapf srt reducef files n s"
  using assms(1)
proof (induction rule: mr_run.induct)
  case start
  show ?case by (rule mr_inv_start)
next
  case (begin_map s i t ws)
  show ?case by (rule mr_inv_begin_map [OF begin_map.IH begin_map.hyps(2,3) assms(2)]) (rule assms(3))
qed (blast intro: mr_inv_assign mr_inv_write_map mr_inv_end_map mr_inv_run_reduce mr_inv_report_map
    mr_inv_report_reduce mr_inv_finish_map mr_inv_finish_reduce)+

section \<open>The output\<close>

context mr_app
begin

text \<open>The reduce tasks together print the lines of the sequential program.\<close>

lemma outputs_sequential:
  assumes "0 < n" and "\<And>f. f \<in> set files \<Longrightarrow> input f \<noteq> None"
  shows "\<exists>lines. mrsequential srt input mapf reducef files = Some lines \<and>
    mset lines = (\<Sum>r < n. mset (reduce_result input mapf srt reducef files n r))"
proof -
  let ?all = "concat (map (task_records input mapf) files)"
  have part: "concat (map (\<lambda>i. part input mapf files n i r) [0..<length files]) = filter (\<lambda>kv. bucket n (kvKey kv) = r) ?all" for r
  proof -
    have "map (\<lambda>i. part input mapf files n i r) [0..<length files] =
        map (filter (\<lambda>kv. bucket n (kvKey kv) = r)) (map (task_records input mapf) files)"
      by (intro nth_equalityI) (auto simp: part_def)
    then show ?thesis by (simp add: filter_concat)
  qed
  have "mset (reduceLoop reducef (srt ?all) 0) = (\<Sum>r < n. mset (reduce_result input mapf srt reducef files n r))"
    using reduce_lines_split [of ?all "bucket n" n reducef] bucket_less [OF assms(1)]
    by (simp add: reduce_output reduce_result_def part)
  then show ?thesis using readInputs_eq [of files input mapf] assms(2) by (simp add: mrsequential_def)
qed

end

text \<open>The sort the proofs can use, with either of the two applications.\<close>

lemma sort_by_key: "mset (sort_key kvKey kva) = mset kva" "sorted (map kvKey (sort_key kvKey kva))"
  by simp_all

interpretation wc: mr_app "sort_key kvKey" wc_Reduce
  by unfold_locales (auto simp: sort_by_key wc_Reduce_def dest: mset_eq_length)

lemma sort_mset: "mset vs = mset vs' \<Longrightarrow> sort vs = sort (vs' :: string list)"
  by (metis properties_for_sort mset_sort sorted_sort)

lemma indexer_perm: "mset vs = mset vs' \<Longrightarrow> indexer_Reduce k vs = indexer_Reduce k vs'"
  using sort_mset [of vs vs'] mset_eq_length [of vs vs'] by (simp add: indexer_Reduce_def)

interpretation indexer: mr_app "sort_key kvKey" indexer_Reduce
  by unfold_locales (auto simp: sort_by_key intro: indexer_perm)

section \<open>Rounds of a worker\<close>

lemma run_writes:
  assumes "mr_run input mapf srt reducef files n s" and "sys_map s i = Some (Writing t ws)"
  shows "mr_run input mapf srt reducef files n
    (s\<lparr>sys_files := apply_writes (sys_files s) ws, sys_map := (sys_map s)(i \<mapsto> Executed t)\<rparr>)"
  using assms
proof (induction ws arbitrary: s)
  case Nil
  then show ?case using mr_run.end_map [OF Nil] by (simp add: fun_upd_same del: fun_upd_apply)
next
  case (Cons w ws)
  obtain name kvs where w: "w = (name, kvs)" by fastforce
  from Cons.IH [OF mr_run.write_map [OF Cons.prems [unfolded w]]] show ?case by (simp add: w fun_upd_same del: fun_upd_apply)
qed

lemma map_round:
  assumes "mr_run input mapf srt reducef files n s" and "sys_map s i = Some (Held t)"
    and "execMap_writes input mapf t = Some ws"
    and "checkTask (Stage (sys_c s)) (sys_c s) (reportTask_args (tiTaskId t) (tiStartTime t)) zeroTaskinfo = Some (c, reply)"
  shows "mr_run input mapf srt reducef files n
    (s\<lparr>sys_files := apply_writes (sys_files s) ws, sys_c := c, sys_map := (sys_map s)(i := None)\<rparr>)"
proof -
  let ?s = "s\<lparr>sys_map := (sys_map s)(i \<mapsto> Writing t ws)\<rparr>"
  have "mr_run input mapf srt reducef files n ?s" by (rule mr_run.begin_map [OF assms(1-3)])
  from run_writes [OF this, of i t ws]
  have "mr_run input mapf srt reducef files n
    (s\<lparr>sys_files := apply_writes (sys_files s) ws, sys_map := (sys_map s)(i \<mapsto> Executed t)\<rparr>)" by (simp add: fun_upd_same del: fun_upd_apply)
  from mr_run.report_map [OF this, of i t]
  have "mr_run input mapf srt reducef files n
    (s\<lparr>sys_files := apply_writes (sys_files s) ws, sys_map := (sys_map s)(i \<mapsto> Reporting t (Stage (sys_c s)))\<rparr>)" by (simp add: fun_upd_same del: fun_upd_apply)
  from mr_run.finish_map [OF this, of i t "Stage (sys_c s)" _ _ c reply] show ?thesis
    using assms(4) by (simp add: mr_Handlers_def reportTask_args_def mr_consts fun_upd_same del: fun_upd_apply)
qed

lemma reduce_round:
  assumes "mr_run input mapf srt reducef files n s" and "sys_red s r = Some (Held t)"
    and "execReduce srt reducef t (sys_files s) = Some lines"
    and "checkTask (Stage (sys_c s)) (sys_c s) (reportTask_args (tiTaskId t) (tiStartTime t)) zeroTaskinfo = Some (c, reply)"
  shows "mr_run input mapf srt reducef files n
    (s\<lparr>sys_outs := (sys_outs s)(tiTaskId t \<mapsto> lines), sys_c := c, sys_red := (sys_red s)(r := None)\<rparr>)"
proof -
  from mr_run.report_reduce [OF mr_run.run_reduce [OF assms(1-3)], of r t]
  have "mr_run input mapf srt reducef files n (s\<lparr>sys_outs := (sys_outs s)(tiTaskId t \<mapsto> lines),
      sys_red := (sys_red s)(r \<mapsto> Reporting t (Stage (sys_c s)))\<rparr>)" by (simp add: fun_upd_same del: fun_upd_apply)
  from mr_run.finish_reduce [OF this, of r t "Stage (sys_c s)" _ _ c reply] show ?thesis
    using assms(4) by (simp add: mr_Handlers_def reportTask_args_def mr_consts fun_upd_same del: fun_upd_apply)
qed

section \<open>The unused timer\<close>

text \<open>The condition of \<open>reassignTask\<close> is inverted: its first tick would end a job that has not begun.\<close>

lemma reassign_ends_new_job:
  assumes "files \<noteq> []" and "0 < n"
  shows "mr_Done (reassignTask clock (MakeCoordinator files n))"
proof -
  let ?c = "MakeCoordinator files n"
  have idle: "Status (MapTask ?c ! i) = TASK_IDLE" if "i < length files" for i
    using that by (simp add: MakeCoordinator_def)
  have idle': "Status (ReduceTask ?c ! 0) = TASK_IDLE" using assms(2) by (simp add: MakeCoordinator_def)
  have len: "length (MapTask ?c) = length files" "length (ReduceTask ?c) = n" "Stage ?c = STAGE_MAPPING"
    by (simp_all add: MakeCoordinator_def)
  have "timeOutTask clock (MapTask ?c) = MapTask ?c"
    using idle len by (intro timeOutTask_id) (auto simp: timedOut_def mr_consts)
  moreover have "\<not> finduncompletedTask (MapTask ?c)"
    using idle [of 0] assms(1) len by (auto simp: finduncompletedTask_iff mr_consts)
  moreover have "\<not> finduncompletedTask (ReduceTask ?c)"
    using idle' assms(2) len by (auto simp: finduncompletedTask_iff mr_consts)
  ultimately show ?thesis using len by (simp add: reassignTask_def mr_Done_def Let_def mr_consts)
qed

end
