(* ===== verification/MapReduce_Props.thy ===== *)
theory MapReduce_Props
  imports MapReduce_Job
begin

text \<open>
  The properties of MapReduce: a finished job has printed what the sequential program prints, no worker
  or handler panics on the way, and what goes wrong when a worker is slower than the coordinator allows.
\<close>

section \<open>A job\<close>

definition job_mapf :: mr_mapf where
  "job_mapf filename content = [\<lparr>kvKey = content, kvValue = ''1''\<rparr>, \<lparr>kvKey = ''z'', kvValue = ''1''\<rparr>]"

definition job_input :: "string \<Rightarrow> string option" where
  "job_input filename = (if filename = ''f'' then Some ''x'' else None)"


text \<open>One round of a worker that asks for a task at time \<open>now\<close>, and the steps that follow.\<close>

definition job_assign :: "int \<Rightarrow> mr_system \<Rightarrow> mr_system" where
  "job_assign now s = (let (c, reply) = assignTask (\<lambda>_. now) now (sys_c s) zeroTaskinfo in took_task s c reply)"

definition job_phase :: "(nat \<Rightarrow> phase option) \<Rightarrow> Taskinfo" where
  "job_phase fl = (case fl 0 of Some (Held t) \<Rightarrow> t | Some (Writing t _) \<Rightarrow> t | Some (Executed t) \<Rightarrow> t
     | Some (Reporting t _) \<Rightarrow> t | None \<Rightarrow> zeroTaskinfo)"


definition job_report :: "mr_system \<Rightarrow> Taskinfo \<Rightarrow> Coordinator" where
  "job_report s t = fst (the (checkTask (Stage (sys_c s)) (sys_c s) (reportTask_args (tiTaskId t) (tiStartTime t)) zeroTaskinfo))"

definition job1 :: mr_system where
  "job1 = job_assign 1 (mr_start [''f''] 1)"

definition job_map_task :: Taskinfo where
  "job_map_task = \<lparr>RPCtype = 0, tiTaskId = 0, tiFilename = ''f'', tiNMap = 1, tiNReduce = 1, tiStartTime = 1\<rparr>"

definition job2 :: mr_system where
  "job2 = job1\<lparr>sys_files := apply_writes (sys_files job1) (the (execMap_writes job_input job_mapf job_map_task)),
     sys_c := job_report job1 job_map_task, sys_map := (sys_map job1)(0 := None)\<rparr>"










section \<open>Properties\<close>





text \<open>C34. Every record goes to an existing bucket: the hash of a key is below \<open>2^31\<close>, and a map task with at
  least one reduce task to serve distributes its records over exactly that many files without a panic,
  each record to the file of its key's bucket.\<close>

theorem map_buckets_in_range:
  assumes "0 < n"
  shows "0 \<le> ihash key \<and> ihash key < 2 ^ 31 \<and> ihash key mod int n < int n \<and>
    (\<exists>buckets. fillBuckets (int n) kva (replicate n []) = Some buckets \<and> length buckets = n \<and>
       mset (concat buckets) = mset kva \<and>
       {r. r < n \<and> {kv \<in> set (buckets ! r). ihash (kvKey kv) mod int n \<noteq> int r} \<noteq> {}} = {})"
proof -
  let ?bs = "map (\<lambda>r. filter (\<lambda>kv. bucket n (kvKey kv) = r) kva) [0..<n]"
  have fill: "fillBuckets (int n) kva (replicate n []) = Some ?bs"
    using fillBuckets_eq [OF assms, of "replicate n []" kva] by (simp cong: map_cong)
  have "mset (concat (map (\<lambda>r. filter (\<lambda>kv. bucket n (kvKey kv) = r) kva) [0..<m])) =
      mset (filter (\<lambda>kv. bucket n (kvKey kv) < m) kva)" for m
    by (induction m) (auto simp: less_Suc_eq filter_union_mset [symmetric] intro!: multiset_eqI split: if_splits)
  moreover have "filter (\<lambda>kv. bucket n (kvKey kv) < n) kva = kva" using bucket_less [OF assms] by simp
  ultimately have "mset (concat ?bs) = mset kva" by metis
  moreover have "ihash (kvKey kv) mod int n = int (bucket n (kvKey kv))" for kv using assms by (simp add: bucket_def)
  ultimately show ?thesis using fill ihash_range assms by auto
qed

theorem map_buckets_in_range_witness:
  "\<exists>buckets. fillBuckets 3 (job_mapf ''f'' ''x'') (replicate 3 []) = Some buckets \<and>
    mset (concat buckets) = mset (job_mapf ''f'' ''x'')"
  using map_buckets_in_range [of 3 "''x''" "job_mapf ''f'' ''x''"] by auto

text \<open>C38. A report names a task by its number alone, and the coordinator takes it for the current stage. A
  report for a map task that arrives in the reduce stage, from a worker whose task was given to another
  one, marks the reduce task of the same number as done while it is still running, and panics when
  there is no reduce task of that number.\<close>

theorem late_map_report_ends_reduce:
  assumes "Stage c = STAGE_REDUCING" and "tiTaskId t = int i"
  shows "(i < length (ReduceTask c) \<and> Status (ReduceTask c ! i) = TASK_WORKING \<longrightarrow>
      (\<exists>c' reply. mr_Handlers clock now (Stage c) c (reportTask_args (tiTaskId t) (tiStartTime t)) zeroTaskinfo = Some (c', reply) \<and>
         Status (ReduceTask c' ! i) = TASK_DONE)) \<and>
    (length (ReduceTask c) \<le> i \<longrightarrow>
      mr_Handlers clock now (Stage c) c (reportTask_args (tiTaskId t) (tiStartTime t)) zeroTaskinfo = None)"
  using assms by (auto simp: mr_Handlers_def reportTask_args_def checkTask_def finishTask_def slice_get_def slice_set_def mr_consts)

text \<open>Two workers get the map task, the second after the first was given up; the first reports, the reduce
  task starts, and the second report ends it: the coordinator says the job is done.\<close>

definition late1 :: Coordinator where
  "late1 = fst (assignTask (\<lambda>_. 11000000000) 11000000000 (fst (assignTask (\<lambda>_. 0) 0 (MakeCoordinator [''f''] 1) zeroTaskinfo)) zeroTaskinfo)"

definition late2 :: Coordinator where
  "late2 = fst (the (mr_Handlers (\<lambda>_. 0) 0 (Stage late1) late1 (reportTask_args 0 0) zeroTaskinfo))"

definition late3 :: Coordinator where
  "late3 = fst (assignTask (\<lambda>_. 12000000000) 12000000000 (fst (assignTask (\<lambda>_. 12000000000) 12000000000 late2 zeroTaskinfo)) zeroTaskinfo)"

theorem late_map_report_ends_reduce_witness:
  "\<exists>c reply. mr_Handlers (\<lambda>_. 0) 0 (Stage late3) late3 (reportTask_args 0 11000000000) zeroTaskinfo = Some (c, reply) \<and>
    Status (ReduceTask c ! 0) = TASK_DONE"
proof -
  let ?t = "zeroTaskinfo\<lparr>tiStartTime := 11000000000\<rparr>"
  have "Stage late3 = STAGE_REDUCING" "tiTaskId ?t = int 0" "0 < length (ReduceTask late3) \<and> Status (ReduceTask late3 ! 0) = TASK_WORKING"
    by code_simp+
  then show ?thesis using late_map_report_ends_reduce [of late3 ?t 0 "\<lambda>_. 0" 0] by (simp add: zeroTaskinfo_def)
qed

text \<open>C39. A map task renames each output file into place before it writes the records. A second execution of a
  map task passes through a state in which a file that was complete is empty, and a reduce task that
  reads at that moment prints its lines without these records.\<close>

theorem rename_before_write_loses_records:
  assumes "0 < n" and "tiNReduce t = int n" and "input (tiFilename t) = Some content" and "r < n"
  shows "\<exists>before after. execMap_writes input mapf t = Some (before @ after) \<and>
    apply_writes fs before (tiTaskId t, int r) = Some [] \<and>
    apply_writes fs (before @ after) (tiTaskId t, int r) =
      Some (filter (\<lambda>kv. ihash (kvKey kv) mod int n = int r) (mapf (tiFilename t) content))"
proof -
  have in': "input (tiFilename t) \<noteq> None" using assms(3) by simp
  obtain ws where ws: "execMap_writes input mapf t = Some ws" "((tiTaskId t, int r), []) \<in> set ws"
      "apply_writes fs ws (tiTaskId t, int r) =
         Some (filter (\<lambda>kv. bucket n (kvKey kv) = r) (task_records input mapf (tiFilename t)))"
    using execMap_writes_eq [of n t input mapf] assms(1,2,4) in' by blast
  have b: "bucket n k = r \<longleftrightarrow> ihash k mod int n = int r" for k using assms(1) by (auto simp: bucket_def)
  obtain before after where split: "ws = before @ ((tiTaskId t, int r), []) # after"
    using ws(2) by (meson split_list)
  then have "ws = (before @ [((tiTaskId t, int r), [])]) @ after" by simp
  moreover have "apply_writes fs (before @ [((tiTaskId t, int r), [])]) (tiTaskId t, int r) = Some []"
    by (simp add: apply_writes_append)
  ultimately show ?thesis using ws(1,3) assms(3)
    by (intro exI [of _ "before @ [((tiTaskId t, int r), [])]"] exI [of _ after]) (simp add: b task_records_def)
qed

theorem rename_before_write_loses_records_witness:
  "\<exists>before after. execMap_writes job_input job_mapf job_map_task = Some (before @ after) \<and>
    apply_writes (sys_files job2) before (0, 0) = Some [] \<and> apply_writes (sys_files job2) (before @ after) (0, 0) = sys_files job2 (0, 0)"
proof -
  have "sys_files job2 (0, 0) = Some (job_mapf ''f'' ''x'')" by code_simp
  moreover have "0 \<le> ihash k mod 1 \<and> ihash k mod 1 = 0" for k by simp
  ultimately show ?thesis
    using rename_before_write_loses_records [of 1 job_map_task job_input "''x''" 0 job_mapf "sys_files job2"]
    by (simp add: job_map_task_def job_input_def)
qed

end
