(* ===== verification/Bitset.thy ===== *)
theory Bitset
  imports Go_Prelude "HOL-Library.Word"
begin

text \<open>
  The bit sets of \<open>src/porcupine/bitset.go\<close>: a slice of 64-bit words, bit \<open>pos\<close> in word
  \<open>pos / 64\<close>. A bit set denotes the set of its positions; setting and clearing are insertion and
  deletion there, and two bit sets of one length are equal exactly when they denote one set.
  The methods update the slice in place and return it; here they return the updated slice.
\<close>

unbundle bit_operations_syntax

type_synonym bitset = "64 word list"

definition newBitset :: "nat \<Rightarrow> bitset" where
  "newBitset bits =
     (let extra = (if bits mod 64 \<noteq> 0 then 1 else 0); chunks = bits div 64 + extra
      in replicate chunks 0)"

definition clone_bitset :: "bitset \<Rightarrow> bitset" where
  "clone_bitset b = (let dataCopy = replicate (length b) 0 in take (length b) b @ drop (length b) dataCopy)"

definition bitsetIndex :: "nat \<Rightarrow> nat \<times> nat" where
  "bitsetIndex pos = (pos div 64, pos mod 64)"

definition set_bitset :: "bitset \<Rightarrow> nat \<Rightarrow> bitset option" where
  "set_bitset b pos =
     (case bitsetIndex pos of (major, minor) \<Rightarrow>
        do { w \<leftarrow> slice_get b (int major); slice_set b (int major) (w OR push_bit minor 1) })"

definition clear_bitset :: "bitset \<Rightarrow> nat \<Rightarrow> bitset option" where
  "clear_bitset b pos =
     (case bitsetIndex pos of (major, minor) \<Rightarrow>
        do { w \<leftarrow> slice_get b (int major); slice_set b (int major) (w AND NOT (push_bit minor 1)) })"

definition get_bitset :: "bitset \<Rightarrow> nat \<Rightarrow> bool option" where
  "get_bitset b pos =
     (case bitsetIndex pos of (major, minor) \<Rightarrow>
        do { w \<leftarrow> slice_get b (int major); Some (w AND push_bit minor 1 \<noteq> 0) })"

definition OnesCount64 :: "64 word \<Rightarrow> nat" where
  "OnesCount64 w = length (filter (bit w) [0..<64])"

definition popcnt :: "bitset \<Rightarrow> nat" where
  "popcnt b = foldl (\<lambda>total v. total + OnesCount64 v) 0 b"

definition hash_bitset :: "bitset \<Rightarrow> 64 word" where
  "hash_bitset b = foldl (\<lambda>hash v. hash XOR v) (word_of_nat (popcnt b)) b"

fun equals_from :: "bitset \<Rightarrow> bitset \<Rightarrow> bool" where
  "equals_from (v # b) (v2 # b2) = (if v \<noteq> v2 then False else equals_from b b2)"
| "equals_from _ _ = True"

definition equals_bitset :: "bitset \<Rightarrow> bitset \<Rightarrow> bool" where
  "equals_bitset b b2 = (if length b \<noteq> length b2 then False else equals_from b b2)"

section \<open>The set a bit set denotes\<close>

definition positions :: "bitset \<Rightarrow> nat set" where
  "positions b = {pos. pos div 64 < length b \<and> bit (b ! (pos div 64)) (pos mod 64)}"

lemma bit_mask_64: "m < 64 \<Longrightarrow> bit (2 ^ m :: 64 word) k \<longleftrightarrow> k = m"
  by (auto simp: bit_exp_iff)

lemma masked_iff: "m < 64 \<Longrightarrow> (w :: 64 word) AND 2 ^ m \<noteq> 0 \<longleftrightarrow> bit w m"
  by (auto simp: bit_eq_iff [where 'a = "64 word"] bit_and_iff bit_mask_64)

lemma clone_bitset_eq [simp]: "clone_bitset b = b"
  by (simp add: clone_bitset_def Let_def)

lemma equals_bitset_iff [simp]: "equals_bitset b b2 \<longleftrightarrow> b = b2"
proof -
  have "length b = length b2 \<Longrightarrow> equals_from b b2 \<longleftrightarrow> b = b2"
    by (induction b b2 rule: equals_from.induct) auto
  then show ?thesis by (auto simp: equals_bitset_def)
qed

lemma newBitset_length: "pos < bits \<Longrightarrow> pos div 64 < length (newBitset bits)"
  by (simp add: newBitset_def Let_def) (auto intro: less_mult_imp_div_less)

lemma newBitset_positions [simp]: "positions (newBitset bits) = {}"
  by (auto simp: positions_def newBitset_def Let_def)

lemma get_bitset_iff:
  "pos div 64 < length b \<Longrightarrow> get_bitset b pos = Some (pos \<in> positions b)"
  by (simp add: get_bitset_def bitsetIndex_def slice_get_nat masked_iff positions_def
      flip: of_nat_div)

lemma set_bitset_Some:
  assumes "pos div 64 < length b"
  obtains b' where "set_bitset b pos = Some b'" and "length b' = length b"
    and "positions b' = insert pos (positions b)"
proof
  let ?b' = "b[pos div 64 := b ! (pos div 64) OR push_bit (pos mod 64) 1]"
  show "set_bitset b pos = Some ?b'"
    using assms by (simp add: set_bitset_def bitsetIndex_def slice_get_nat slice_set_nat flip: of_nat_div)
  show "positions ?b' = insert pos (positions b)"
    using assms
    by (auto simp: positions_def nth_list_update bit_or_iff bit_mask_64) (metis div_mult_mod_eq)
qed simp

lemma clear_bitset_Some:
  assumes "pos div 64 < length b"
  obtains b' where "clear_bitset b pos = Some b'" and "length b' = length b"
    and "positions b' = positions b - {pos}"
proof
  let ?b' = "b[pos div 64 := b ! (pos div 64) AND NOT (push_bit (pos mod 64) 1)]"
  show "clear_bitset b pos = Some ?b'"
    using assms by (simp add: clear_bitset_def bitsetIndex_def slice_get_nat slice_set_nat flip: of_nat_div)
  show "positions ?b' = positions b - {pos}"
    using assms
    by (auto simp: positions_def nth_list_update bit_and_iff bit_not_iff bit_mask_64) (metis div_mult_mod_eq)+
qed simp

lemma positions_inject:
  assumes "length b = length b2" and "positions b = positions b2"
  shows "b = b2"
proof (rule nth_equalityI [OF assms(1)])
  fix i assume i: "i < length b"
  have "bit (b ! i) k = bit (b2 ! i) k" if "k < 64" for k
    using arg_cong [OF assms(2), of "\<lambda>S. 64 * i + k \<in> S"] i that assms(1) by (simp add: positions_def)
  then show "b ! i = b2 ! i" by (intro bit_word_eqI) simp
qed

text \<open>\<open>popcnt\<close> counts the positions.\<close>

lemma positions_card: "card (positions b) = popcnt b"
proof (induction b rule: rev_induct)
  case (snoc w b)
  let ?new = "(\<lambda>k. 64 * length b + k) ` {k. k < 64 \<and> bit w k}"
  have "positions (b @ [w]) = positions b \<union> ?new"
  proof (intro set_eqI iffI)
    fix p assume p: "p \<in> positions (b @ [w])"
    show "p \<in> positions b \<union> ?new"
    proof (cases "p div 64 < length b")
      case True
      with p show ?thesis by (simp add: positions_def nth_append)
    next
      case False
      with p have "p div 64 = length b" "bit w (p mod 64)" by (auto simp: positions_def nth_append)
      moreover have "p = 64 * (p div 64) + p mod 64" by simp
      ultimately have "p \<in> ?new" by (intro image_eqI [of _ _ "p mod 64"]) auto
      then show ?thesis by simp
    qed
  next
    fix p assume "p \<in> positions b \<union> ?new"
    then show "p \<in> positions (b @ [w])" by (auto simp: positions_def nth_append)
  qed
  moreover have "positions b \<inter> ?new = {}" by (auto simp: positions_def)
  moreover have "finite (positions b)"
    by (rule finite_subset [of _ "{..<64 * length b}"]) (auto simp: positions_def div_less_iff_less_mult mult.commute)
  moreover have "card ?new = OnesCount64 w"
  proof -
    have "{k. k < 64 \<and> bit w k} = set (filter (bit w) [0..<64])" by auto
    then have "card {k. k < 64 \<and> bit w k} = OnesCount64 w"
      unfolding OnesCount64_def by (metis distinct_card distinct_filter distinct_upt)
    then show ?thesis by (simp add: card_image inj_on_def)
  qed
  ultimately show ?case using snoc by (simp add: card_Un_disjoint popcnt_def)
qed (simp add: positions_def popcnt_def)

end
