(* ===== verification/Porcupine.thy ===== *)
theory Porcupine
  imports Kv_Model Bitset "HOL-Library.Multiset" "HOL-Library.Product_Lexorder"
begin

text \<open>
  The linearizability checker of the test suite, \<open>src/porcupine\<close>: the history as a list of call
  and return entries, the doubly linked list of nodes the search works on, the search itself
  (\<open>checkSingle\<close>) and its use per partition (\<open>checkParallel\<close>, \<open>checkOperations\<close>,
  \<open>checkEvents\<close>).

  Nodes live in a heap, a map from addresses to nodes, since the search unlinks and relinks
  nodes it reaches through several pointers; a \<open>nil\<close> dereference is a panic. The value
  \<open>interface{}\<close> of an entry is \<open>nil\<close>, an input or an output; a model's step asserts the two
  types it expects. The names of operations and states for pictures of a history are left out.
\<close>

section \<open>Models and events\<close>

datatype ('i, 'o) iface = Nil_value | Input 'i | Output 'o

text \<open>Time stamps are compared only, so \<open>int64\<close> is \<open>int\<close>. \<open>callEntry\<close> and \<open>CallEvent\<close> are
  \<open>False\<close>, \<open>returnEntry\<close> and \<open>ReturnEvent\<close> are \<open>True\<close>.\<close>

abbreviation (input) callEntry :: bool where "callEntry \<equiv> False"

abbreviation (input) returnEntry :: bool where "returnEntry \<equiv> True"

record ('i, 'o) Event =
  ev_ClientId :: int
  ev_Kind :: bool
  ev_Value :: "('i, 'o) iface"
  ev_Id :: int

record ('s, 'i, 'o) Model =
  mPartition :: "(('i, 'o) Operation list \<Rightarrow> ('i, 'o) Operation list list) option"
  mPartitionEvent :: "(('i, 'o) Event list \<Rightarrow> ('i, 'o) Event list list) option"
  mInit :: 's
  mStep :: "'s \<Rightarrow> 'i \<Rightarrow> 'o \<Rightarrow> bool \<times> 's"
  mEqual :: "('s \<Rightarrow> 's \<Rightarrow> bool) option"

datatype CheckResult = Unknown | Ok | Illegal

definition NoPartition :: "('i, 'o) Operation list \<Rightarrow> ('i, 'o) Operation list list" where
  "NoPartition history = [history]"

definition NoPartitionEvent :: "('i, 'o) Event list \<Rightarrow> ('i, 'o) Event list list" where
  "NoPartitionEvent history = [history]"

definition ShallowEqual :: "'s \<Rightarrow> 's \<Rightarrow> bool" where
  "ShallowEqual state1 state2 = (state1 = state2)"

definition fillDefault :: "('s, 'i, 'o) Model \<Rightarrow> ('s, 'i, 'o) Model" where
  "fillDefault model =
     (let model = (if mPartition model = None then model\<lparr>mPartition := Some NoPartition\<rparr> else model);
          model = (if mPartitionEvent model = None
                   then model\<lparr>mPartitionEvent := Some NoPartitionEvent\<rparr> else model)
      in if mEqual model = None then model\<lparr>mEqual := Some ShallowEqual\<rparr> else model)"

text \<open>\<open>model.Step\<close> on values of type \<open>interface{}\<close>: the type assertions it starts with panic on
  a value of another type.\<close>

fun model_step :: "('s, 'i, 'o) Model \<Rightarrow> 's \<Rightarrow> ('i, 'o) iface \<Rightarrow> ('i, 'o) iface \<Rightarrow> (bool \<times> 's) option" where
  "model_step model st (Input i) (Output out) = Some (mStep model st i out)"
| "model_step model st _ _ = None"

text \<open>Calling a \<open>nil\<close> function panics.\<close>

definition model_equal :: "('s, 'i, 'o) Model \<Rightarrow> 's \<Rightarrow> 's \<Rightarrow> bool option" where
  "model_equal model s1 s2 = map_option (\<lambda>eq. eq s1 s2) (mEqual model)"

section \<open>Entries\<close>

record ('i, 'o) entry =
  e_kind :: bool
  e_value :: "('i, 'o) iface"
  e_id :: int
  e_time :: int
  e_clientId :: int

definition byTime_Less :: "('i, 'o) entry \<Rightarrow> ('i, 'o) entry \<Rightarrow> bool" where
  "byTime_Less a b =
     (if e_time a \<noteq> e_time b then e_time a < e_time b
      else e_kind a = callEntry \<and> e_kind b = returnEntry)"

fun operationEntries :: "int \<Rightarrow> ('i, 'o) Operation list \<Rightarrow> ('i, 'o) entry list" where
  "operationEntries ident [] = []"
| "operationEntries ident (elem # history) =
     \<lparr>e_kind = callEntry, e_value = Input (opInput elem), e_id = ident, e_time = opCall elem,
      e_clientId = opClientId elem\<rparr> #
     \<lparr>e_kind = returnEntry, e_value = Output (opOutput elem), e_id = ident, e_time = opReturn elem,
      e_clientId = opClientId elem\<rparr> # operationEntries (ident + 1) history"

text \<open>\<open>srt\<close> is \<open>sort.Sort\<close> for the order \<open>Less\<close>, which promises a sorted permutation but no
  order among entries that are equal for \<open>Less\<close>.\<close>

definition makeEntries ::
  "(('i, 'o) entry list \<Rightarrow> ('i, 'o) entry list) \<Rightarrow> ('i, 'o) Operation list \<Rightarrow> ('i, 'o) entry list" where
  "makeEntries srt history = srt (operationEntries 0 history)"

definition sorts_by_time :: "(('i, 'o) entry list \<Rightarrow> ('i, 'o) entry list) \<Rightarrow> bool" where
  "sorts_by_time srt \<longleftrightarrow>
     (\<forall>es. mset (srt es) = mset es \<and> sorted_wrt (\<lambda>a b. \<not> byTime_Less b a) (srt es))"

fun renumberFrom :: "(int, int) fmap \<Rightarrow> int \<Rightarrow> ('i, 'o) Event list \<Rightarrow> ('i, 'o) Event list" where
  "renumberFrom m ident [] = []"
| "renumberFrom m ident (v # events) =
     (case fmlookup m (ev_Id v) of
        Some r \<Rightarrow> v\<lparr>ev_Id := r\<rparr> # renumberFrom m ident events
      | None \<Rightarrow> v\<lparr>ev_Id := ident\<rparr> # renumberFrom (fmupd (ev_Id v) ident m) (ident + 1) events)"

definition renumber :: "('i, 'o) Event list \<Rightarrow> ('i, 'o) Event list" where
  "renumber events = renumberFrom fmempty 0 events"

fun convertFrom :: "int \<Rightarrow> ('i, 'o) Event list \<Rightarrow> ('i, 'o) entry list" where
  "convertFrom i [] = []"
| "convertFrom i (elem # events) =
     (let kind = (if ev_Kind elem = returnEntry then returnEntry else callEntry)
      in \<lparr>e_kind = kind, e_value = ev_Value elem, e_id = ev_Id elem, e_time = i,
          e_clientId = ev_ClientId elem\<rparr> # convertFrom (i + 1) events)"

definition convertEntries :: "('i, 'o) Event list \<Rightarrow> ('i, 'o) entry list" where
  "convertEntries events = convertFrom 0 events"

section \<open>The linked list\<close>

type_synonym addr = nat

record ('i, 'o) node =
  n_value :: "('i, 'o) iface"
  n_match :: "addr option"
  n_id :: int
  n_next :: "addr option"
  n_prev :: "addr option"

type_synonym ('i, 'o) heap = "addr \<Rightarrow> ('i, 'o) node"

definition set_next :: "('i, 'o) heap \<Rightarrow> addr \<Rightarrow> addr option \<Rightarrow> ('i, 'o) heap" where
  "set_next h p v = h(p := (h p)\<lparr>n_next := v\<rparr>)"

definition set_prev :: "('i, 'o) heap \<Rightarrow> addr \<Rightarrow> addr option \<Rightarrow> ('i, 'o) heap" where
  "set_prev h p v = h(p := (h p)\<lparr>n_prev := v\<rparr>)"

definition insertBefore :: "('i, 'o) heap \<Rightarrow> addr \<Rightarrow> addr option \<Rightarrow> ('i, 'o) heap" where
  "insertBefore h n mark =
     (case mark of
        None \<Rightarrow> h
      | Some m \<Rightarrow>
          (let beforeMark = n_prev (h m); h = set_prev h m (Some n); h = set_next h n (Some m)
           in case beforeMark of
                None \<Rightarrow> h
              | Some b \<Rightarrow> set_next (set_prev h n (Some b)) b (Some n)))"

text \<open>\<open>length\<close>: a cyclic list would keep the loop running.\<close>

partial_function (option) length_node :: "('i, 'o) heap \<Rightarrow> addr option \<Rightarrow> nat \<Rightarrow> nat option" where
  "length_node h n l =
     (case n of None \<Rightarrow> Some l | Some p \<Rightarrow> length_node h (n_next (h p)) (l + 1))"

declare length_node.simps [code]

text \<open>The loop of \<open>makeLinkedEntries\<close>, over the entries from the last to the first. The state is
  the heap, the next free address, the root and the map \<open>match\<close> from ids to return nodes.\<close>

fun linkFrom ::
  "('i, 'o) entry list \<Rightarrow> ('i, 'o) heap \<Rightarrow> addr \<Rightarrow> addr option \<Rightarrow> (int, addr) fmap \<Rightarrow>
   ('i, 'o) heap \<times> addr \<times> addr option" where
  "linkFrom [] h fresh root m = (h, fresh, root)"
| "linkFrom (elem # rest) h fresh root m =
     (if e_kind elem = returnEntry then
        let h = h(fresh := \<lparr>n_value = e_value elem, n_match = None, n_id = e_id elem,
                             n_next = None, n_prev = None\<rparr>)
        in linkFrom rest (insertBefore h fresh root) (fresh + 1) (Some fresh)
             (fmupd (e_id elem) fresh m)
      else
        let h = h(fresh := \<lparr>n_value = e_value elem, n_match = fmlookup m (e_id elem),
                             n_id = e_id elem, n_next = None, n_prev = None\<rparr>)
        in linkFrom rest (insertBefore h fresh root) (fresh + 1) (Some fresh) m)"

definition makeLinkedEntries ::
  "('i, 'o) entry list \<Rightarrow> ('i, 'o) heap \<times> addr \<times> addr option" where
  "makeLinkedEntries entries =
     linkFrom (rev entries)
       (\<lambda>_. \<lparr>n_value = Nil_value, n_match = None, n_id = 0, n_next = None, n_prev = None\<rparr>)
       0 None fmempty"

definition lift :: "('i, 'o) heap \<Rightarrow> addr \<Rightarrow> ('i, 'o) heap option" where
  "lift h entry =
     do { p \<leftarrow> n_prev (h entry);
          let h = set_next h p (n_next (h entry));
          n \<leftarrow> n_next (h entry);
          let h = set_prev h n (n_prev (h entry));
          m \<leftarrow> n_match (h entry);
          mp \<leftarrow> n_prev (h m);
          let h = set_next h mp (n_next (h m));
          case n_next (h m) of
            None \<Rightarrow> Some h
          | Some mn \<Rightarrow> Some (set_prev h mn (n_prev (h m))) }"

definition unlift :: "('i, 'o) heap \<Rightarrow> addr \<Rightarrow> ('i, 'o) heap option" where
  "unlift h entry =
     do { m \<leftarrow> n_match (h entry);
          mp \<leftarrow> n_prev (h m);
          let h = set_next h mp (Some m);
          let h = (case n_next (h m) of None \<Rightarrow> h | Some mn \<Rightarrow> set_prev h mn (Some m));
          p \<leftarrow> n_prev (h entry);
          let h = set_next h p (Some entry);
          n \<leftarrow> n_next (h entry);
          Some (set_prev h n (Some entry)) }"

section \<open>The search\<close>

type_synonym 's cacheEntry = "bitset \<times> 's"

type_synonym 's cache = "(64 word, 's cacheEntry list) fmap"

fun cacheScan :: "('s, 'i, 'o) Model \<Rightarrow> 's cacheEntry list \<Rightarrow> 's cacheEntry \<Rightarrow> bool option" where
  "cacheScan model [] entry = Some False"
| "cacheScan model (elem # elems) entry =
     (if equals_bitset (fst entry) (fst elem)
      then do { same \<leftarrow> model_equal model (snd entry) (snd elem);
                if same then Some True else cacheScan model elems entry }
      else cacheScan model elems entry)"

definition cacheContains :: "('s, 'i, 'o) Model \<Rightarrow> 's cache \<Rightarrow> 's cacheEntry \<Rightarrow> bool option" where
  "cacheContains model cache entry =
     cacheScan model (map_get [] cache (hash_bitset (fst entry))) entry"

text \<open>The variables of \<open>checkSingle\<close>, with the heap its nodes live in. \<open>s_turn\<close> counts the
  turns of the loop, each of which reads the flag \<open>kill\<close>.\<close>

record ('s, 'i, 'o) search =
  s_heap :: "('i, 'o) heap"
  s_entry :: "addr option"
  s_linearized :: bitset
  s_cache :: "'s cache"
  s_calls :: "(addr \<times> 's) list"
  s_longest :: "int list option list"
  s_state :: 's
  s_turn :: nat

text \<open>\<open>uint(id)\<close>\<close>

definition go_uint :: "int \<Rightarrow> nat" where
  "go_uint i = nat (i mod 2 ^ 64)"

definition callsSeq :: "('s, 'i, 'o) search \<Rightarrow> int list" where
  "callsSeq st = map (\<lambda>v. n_id (s_heap st (fst v))) (s_calls st)"

fun updateLongest :: "int list \<Rightarrow> int list \<Rightarrow> int list option list \<Rightarrow> int list option list option" where
  "updateLongest seq [] longs = Some longs"
| "updateLongest seq (ident # ids) longs =
     do { old \<leftarrow> slice_get longs ident;
          longs \<leftarrow> (if old = None \<or> length seq > length (the old)
                    then slice_set longs ident (Some seq) else Some longs);
          updateLongest seq ids longs }"

text \<open>A call entry: try to linearize the operation next.\<close>

definition tryCall :: "('s, 'i, 'o) Model \<Rightarrow> addr \<Rightarrow> addr \<Rightarrow> addr \<Rightarrow> ('s, 'i, 'o) search \<Rightarrow>
    ('s, 'i, 'o) search option" where
  "tryCall model headEntry entry matching st =
     do { (ok, newState) \<leftarrow> model_step model (s_state st) (n_value (s_heap st entry)) (n_value (s_heap st matching));
          if ok then
            do { newLinearized \<leftarrow> set_bitset (clone_bitset (s_linearized st)) (go_uint (n_id (s_heap st entry)));
                 let newCacheEntry = (newLinearized, newState);
                 found \<leftarrow> cacheContains model (s_cache st) newCacheEntry;
                 if \<not> found then
                   do { let hash = hash_bitset newLinearized;
                        lin \<leftarrow> set_bitset (s_linearized st) (go_uint (n_id (s_heap st entry)));
                        h \<leftarrow> lift (s_heap st) entry;
                        Some (st\<lparr>s_cache := fmupd hash (map_get [] (s_cache st) hash @ [newCacheEntry]) (s_cache st),
                                 s_calls := s_calls st @ [(entry, s_state st)],
                                 s_state := newState, s_linearized := lin, s_heap := h,
                                 s_entry := n_next (h headEntry)\<rparr>) }
                 else Some (st\<lparr>s_entry := n_next (s_heap st entry)\<rparr>) }
          else Some (st\<lparr>s_entry := n_next (s_heap st entry)\<rparr>) }"

text \<open>A return entry with operations linearized so far: undo the last one and go on behind it.\<close>

definition backtrack :: "bool \<Rightarrow> ('s, 'i, 'o) search \<Rightarrow> ('s, 'i, 'o) search option" where
  "backtrack computePartial st =
     do { longs \<leftarrow> (if computePartial then updateLongest (callsSeq st) (callsSeq st) (s_longest st)
                    else Some (s_longest st));
          let (entry, oldState) = last (s_calls st);
          lin \<leftarrow> clear_bitset (s_linearized st) (go_uint (n_id (s_heap st entry)));
          h \<leftarrow> unlift (s_heap st) entry;
          Some (st\<lparr>s_longest := longs, s_state := oldState, s_linearized := lin,
                   s_calls := butlast (s_calls st), s_heap := h, s_entry := n_next (h entry)\<rparr>) }"

text \<open>The loop, with the returned pair of \<open>ok\<close> and \<open>longest\<close>. \<open>kill\<close> says in which turns the
  flag is set.\<close>

partial_function (option) checkLoop ::
  "('s, 'i, 'o) Model \<Rightarrow> bool \<Rightarrow> (nat \<Rightarrow> bool) \<Rightarrow> addr \<Rightarrow> ('s, 'i, 'o) search \<Rightarrow>
   (bool \<times> int list option list) option" where
  "checkLoop model computePartial kill headEntry st =
     (if n_next (s_heap st headEntry) = None
      then Some (True, map (\<lambda>_. Some (callsSeq st)) (s_longest st))
      else if kill (s_turn st) then Some (False, s_longest st)
      else do {
        entry \<leftarrow> s_entry st;
        case n_match (s_heap st entry) of
          Some matching \<Rightarrow>
            do { st' \<leftarrow> tryCall model headEntry entry matching st;
                 checkLoop model computePartial kill headEntry (st'\<lparr>s_turn := s_turn st + 1\<rparr>) }
        | None \<Rightarrow>
            (if s_calls st = [] then Some (False, s_longest st)
             else do { st' \<leftarrow> backtrack computePartial st;
                       checkLoop model computePartial kill headEntry (st'\<lparr>s_turn := s_turn st + 1\<rparr>) }) })"

declare checkLoop.simps [code]

definition checkSingle ::
  "('s, 'i, 'o) Model \<Rightarrow> ('i, 'o) entry list \<Rightarrow> bool \<Rightarrow> (nat \<Rightarrow> bool) \<Rightarrow>
   (bool \<times> int list option list) option" where
  "checkSingle model history computePartial kill =
     (case makeLinkedEntries history of (h, fresh, entry) \<Rightarrow>
        do { l \<leftarrow> length_node h entry 0;
             let n = l div 2;
             let headEntry = fresh;
             let h = h(headEntry := \<lparr>n_value = Nil_value, n_match = None, n_id = -1,
                                     n_next = None, n_prev = None\<rparr>);
             checkLoop model computePartial kill headEntry
               \<lparr>s_heap = insertBefore h headEntry entry, s_entry = entry, s_linearized = newBitset n,
                s_cache = fmempty, s_calls = [], s_longest = replicate n None,
                s_state = mInit model, s_turn = 0\<rparr> })"

section \<open>Partitions\<close>

text \<open>The loop of \<open>checkParallel\<close>: \<open>arrivals\<close> says in which order the results of the goroutines
  arrive and when the time limit strikes. The flag \<open>kill\<close> is set only when the loop ends, so a
  result that arrives is that of a search that was not killed. A list of arrivals that ends too
  early leaves the loop waiting, the value \<open>None\<close>. Not modelled is the second result, the
  partial linearizations for a picture of the history.\<close>

datatype arrival = Result nat | Timeout

fun collect :: "('s, 'i, 'o) Model \<Rightarrow> ('i, 'o) entry list list \<Rightarrow> bool \<Rightarrow> bool \<Rightarrow> nat \<Rightarrow>
    arrival list \<Rightarrow> (bool \<times> bool) option" where
  "collect model history computeInfo ok cnt [] = None"
| "collect model history computeInfo ok cnt (Result i # arrivals) =
     do { sub \<leftarrow> slice_get history (int i);
          (result, longest) \<leftarrow> checkSingle model sub computeInfo (\<lambda>_. False);
          let cnt = cnt + 1;
          let ok = (ok \<and> result);
          if \<not> ok \<and> \<not> computeInfo then Some (ok, False)
          else if cnt \<ge> length history then Some (ok, False)
          else collect model history computeInfo ok cnt arrivals }"
| "collect model history computeInfo ok cnt (Timeout # arrivals) = Some (ok, True)"

definition checkParallel ::
  "('s, 'i, 'o) Model \<Rightarrow> ('i, 'o) entry list list \<Rightarrow> bool \<Rightarrow> arrival list \<Rightarrow> CheckResult option" where
  "checkParallel model history computeInfo arrivals =
     do { (ok, timedOut) \<leftarrow> collect model history computeInfo True 0 arrivals;
          Some (if \<not> ok then Illegal else if timedOut then Unknown else Ok) }"

definition checkEvents ::
  "('s, 'i, 'o) Model \<Rightarrow> ('i, 'o) Event list \<Rightarrow> bool \<Rightarrow> arrival list \<Rightarrow> CheckResult option" where
  "checkEvents model history verbose arrivals =
     (let model = fillDefault model
      in do { partition \<leftarrow> mPartitionEvent model;
              let l = map (\<lambda>subhistory. convertEntries (renumber subhistory)) (partition history);
              checkParallel model l verbose arrivals })"

definition checkOperations ::
  "(('i, 'o) entry list \<Rightarrow> ('i, 'o) entry list) \<Rightarrow> ('s, 'i, 'o) Model \<Rightarrow> ('i, 'o) Operation list \<Rightarrow>
   bool \<Rightarrow> arrival list \<Rightarrow> CheckResult option" where
  "checkOperations srt model history verbose arrivals =
     (let model = fillDefault model
      in do { partition \<leftarrow> mPartition model;
              let l = map (makeEntries srt) (partition history);
              checkParallel model l verbose arrivals })"

text \<open>The functions the package exports, \<open>src/porcupine/porcupine.go\<close>. The verbose ones also return
  the partial linearizations.\<close>

definition CheckOperations ::
  "(('i, 'o) entry list \<Rightarrow> ('i, 'o) entry list) \<Rightarrow> ('s, 'i, 'o) Model \<Rightarrow> ('i, 'o) Operation list \<Rightarrow>
   arrival list \<Rightarrow> bool option" where
  "CheckOperations srt model history arrivals =
     map_option (\<lambda>res. res = Ok) (checkOperations srt model history False arrivals)"

definition CheckOperationsTimeout ::
  "(('i, 'o) entry list \<Rightarrow> ('i, 'o) entry list) \<Rightarrow> ('s, 'i, 'o) Model \<Rightarrow> ('i, 'o) Operation list \<Rightarrow>
   arrival list \<Rightarrow> CheckResult option" where
  "CheckOperationsTimeout srt model history arrivals = checkOperations srt model history False arrivals"

definition CheckOperationsVerbose ::
  "(('i, 'o) entry list \<Rightarrow> ('i, 'o) entry list) \<Rightarrow> ('s, 'i, 'o) Model \<Rightarrow> ('i, 'o) Operation list \<Rightarrow>
   arrival list \<Rightarrow> CheckResult option" where
  "CheckOperationsVerbose srt model history arrivals = checkOperations srt model history True arrivals"

definition CheckEvents ::
  "('s, 'i, 'o) Model \<Rightarrow> ('i, 'o) Event list \<Rightarrow> arrival list \<Rightarrow> bool option" where
  "CheckEvents model history arrivals =
     map_option (\<lambda>res. res = Ok) (checkEvents model history False arrivals)"

definition CheckEventsTimeout ::
  "('s, 'i, 'o) Model \<Rightarrow> ('i, 'o) Event list \<Rightarrow> arrival list \<Rightarrow> CheckResult option" where
  "CheckEventsTimeout model history arrivals = checkEvents model history False arrivals"

definition CheckEventsVerbose ::
  "('s, 'i, 'o) Model \<Rightarrow> ('i, 'o) Event list \<Rightarrow> arrival list \<Rightarrow> CheckResult option" where
  "CheckEventsVerbose model history arrivals = checkEvents model history True arrivals"

end
