(* ===== verification/Porcupine_List.thy ===== *)
theory Porcupine_List
  imports Porcupine
begin

text \<open>
  The doubly linked list of the checker refines a list of addresses: inserting at the front,
  \<open>lift\<close>, which takes a call and its return out, and \<open>unlift\<close>, which restores exactly the heap
  \<open>lift\<close> was applied to. The list \<open>makeLinkedEntries\<close> builds holds the entries of the history in
  order, every call with its return.
\<close>

section \<open>Lists in the heap\<close>

fun links :: "('i, 'o) heap \<Rightarrow> addr list \<Rightarrow> bool" where
  "links h (x # y # xs) = (n_next (h x) = Some y \<and> n_prev (h y) = Some x \<and> links h (y # xs))"
| "links h _ = True"

definition dlist :: "('i, 'o) heap \<Rightarrow> addr list \<Rightarrow> bool" where
  "dlist h xs \<longleftrightarrow>
     distinct xs \<and> xs \<noteq> [] \<and> links h xs \<and> n_next (h (last xs)) = None \<and> n_prev (h (hd xs)) = None"

text \<open>What \<open>lift\<close> does to each of the two nodes, and its inverse.\<close>

definition unlink :: "('i, 'o) heap \<Rightarrow> addr \<Rightarrow> ('i, 'o) heap" where
  "unlink h x =
     (case n_prev (h x) of
        None \<Rightarrow> h
      | Some p \<Rightarrow>
          (case n_next (h x) of
             None \<Rightarrow> set_next h p None
           | Some n \<Rightarrow> set_prev (set_next h p (Some n)) n (Some p)))"

definition relink :: "('i, 'o) heap \<Rightarrow> addr \<Rightarrow> ('i, 'o) heap" where
  "relink h x =
     (case n_prev (h x) of
        None \<Rightarrow> h
      | Some p \<Rightarrow>
          (case n_next (h x) of
             None \<Rightarrow> set_next h p (Some x)
           | Some n \<Rightarrow> set_prev (set_next h p (Some x)) n (Some x)))"

lemma set_next_simps [simp]:
  "n_next (set_next h p v q) = (if q = p then v else n_next (h q))"
  "n_prev (set_next h p v q) = n_prev (h q)"
  "n_value (set_next h p v q) = n_value (h q)"
  "n_match (set_next h p v q) = n_match (h q)"
  "n_id (set_next h p v q) = n_id (h q)"
  by (simp_all add: set_next_def)

lemma set_prev_simps [simp]:
  "n_prev (set_prev h p v q) = (if q = p then v else n_prev (h q))"
  "n_next (set_prev h p v q) = n_next (h q)"
  "n_value (set_prev h p v q) = n_value (h q)"
  "n_match (set_prev h p v q) = n_match (h q)"
  "n_id (set_prev h p v q) = n_id (h q)"
  by (simp_all add: set_prev_def)

lemma heap_eqI:
  fixes h :: "('i, 'o) heap"
  assumes "\<And>p. n_value (h p) = n_value (h' p)" and "\<And>p. n_match (h p) = n_match (h' p)"
    and "\<And>p. n_id (h p) = n_id (h' p)" and "\<And>p. n_next (h p) = n_next (h' p)"
    and "\<And>p. n_prev (h p) = n_prev (h' p)"
  shows "h = h'"
  using assms by (intro ext node.equality) auto

lemma links_append: "links h (A @ x # B) \<longleftrightarrow> links h (A @ [x]) \<and> links h (x # B)"
  by (induction h A rule: links.induct) (cases B; auto)+

lemma links_cong:
  assumes "\<And>x. x \<in> set (butlast xs) \<Longrightarrow> n_next (h' x) = n_next (h x)"
    and "\<And>x. x \<in> set (tl xs) \<Longrightarrow> n_prev (h' x) = n_prev (h x)"
  shows "links h' xs = links h xs"
  using assms by (induction h xs rule: links.induct) (auto split: if_splits)

text \<open>The fields of a node that \<open>lift\<close> and \<open>unlift\<close> never change.\<close>

definition same_static :: "('i, 'o) heap \<Rightarrow> ('i, 'o) heap \<Rightarrow> bool" where
  "same_static h h' \<longleftrightarrow>
     (\<forall>p. n_value (h' p) = n_value (h p) \<and> n_match (h' p) = n_match (h p) \<and> n_id (h' p) = n_id (h p))"

lemma same_static_refl [simp]: "same_static h h"
  by (simp add: same_static_def)

lemma same_static_trans: "same_static h h' \<Longrightarrow> same_static h' h'' \<Longrightarrow> same_static h h''"
  by (simp add: same_static_def)

lemma same_static_unlink [simp]: "same_static h (unlink h x)"
  by (simp add: same_static_def unlink_def split: option.split)

lemma dlist_mid:
  assumes "dlist h (A @ a # x # C)"
  shows "n_prev (h x) = Some a" and "n_next (h a) = Some x"
    and "n_next (h x) = (case C of [] \<Rightarrow> None | c # _ \<Rightarrow> Some c)"
    and "\<And>c C'. C = c # C' \<Longrightarrow> n_prev (h c) = Some x"
proof -
  have "links h (a # x # C)" and "n_next (h (last (x # C))) = None"
    using assms links_append [of h A a "x # C"] by (auto simp: dlist_def)
  then show "n_prev (h x) = Some a" and "n_next (h a) = Some x"
    and "n_next (h x) = (case C of [] \<Rightarrow> None | c # _ \<Rightarrow> Some c)"
    and "\<And>c C'. C = c # C' \<Longrightarrow> n_prev (h c) = Some x"
    by (auto split: list.split)
qed

lemma unlink_own:
  assumes "dlist h (A @ a # x # C)"
  shows "unlink h x x = h x"
  using dlist_mid [OF assms] assms
  by (auto simp: unlink_def dlist_def set_next_def set_prev_def split: list.splits)

lemma relink_unlink:
  assumes "dlist h (A @ a # x # C)"
  shows "relink (unlink h x) x = h"
proof -
  have "unlink h x x = h x" by (rule unlink_own [OF assms])
  moreover have "distinct (a # x # C)" using assms by (auto simp: dlist_def)
  ultimately show ?thesis
    using dlist_mid [OF assms]
    by (intro heap_eqI) (auto simp: relink_def unlink_def split: list.splits)
qed

lemma unlink_dlist:
  assumes "dlist h (A @ a # x # C)"
  shows "dlist (unlink h x) (A @ a # C)"
proof -
  note mid = dlist_mid [OF assms]
  have d: "distinct (A @ a # x # C)" and l: "links h (A @ a # x # C)"
    and lst: "n_next (h (last (A @ a # x # C))) = None" and hd0: "n_prev (h (hd (A @ a # x # C))) = None"
    using assms by (simp_all add: dlist_def)
  have nxt: "n_next (unlink h x q) = (if q = a then n_next (h x) else n_next (h q))" for q
    using mid by (auto simp: unlink_def split: list.splits)
  have prv: "n_prev (unlink h x q) = (if C \<noteq> [] \<and> q = hd C then Some a else n_prev (h q))" for q
    using mid by (auto simp: unlink_def split: list.splits)
  have front: "links (unlink h x) (A @ [a])"
  proof (subst links_cong [where h = h])
    show "links h (A @ [a])" using l links_append by blast
    show "n_next (unlink h x q) = n_next (h q)" if "q \<in> set (butlast (A @ [a]))" for q
      using that d nxt by auto
    show "n_prev (unlink h x q) = n_prev (h q)" if "q \<in> set (tl (A @ [a]))" for q
    proof -
      have "q \<in> set (A @ [a])" using that by (cases "A @ [a]") auto
      then have "C \<noteq> [] \<Longrightarrow> q \<noteq> hd C" using d by auto
      then show ?thesis by (auto simp: prv)
    qed
  qed
  have rear: "links (unlink h x) (a # C)"
  proof (cases C)
    case (Cons c C')
    have "links h (c # C')"
      using l Cons links_append [of h "A @ [a, x]" c C'] by simp
    moreover have "links (unlink h x) (c # C') = links h (c # C')"
      using d Cons by (intro links_cong) (auto simp: nxt prv dest: in_set_butlastD split: if_splits)
    ultimately show ?thesis using Cons mid d by (simp add: nxt prv)
  qed simp
  have "n_next (unlink h x (last (a # C))) = None"
    using lst d mid(3) by (auto simp: nxt split: if_splits list.splits)
  moreover have "n_prev (unlink h x (hd (A @ [a]))) = None"
    using hd0 d by (cases A) (auto simp: prv)
  ultimately show ?thesis
    using front rear d by (auto simp: dlist_def links_append [of _ A a C] hd_append split: if_splits)
qed

section \<open>Lifting\<close>

lemma lift_dlist:
  fixes h :: "('i, 'o) heap"
  assumes "dlist h (A @ a # e # B @ m # C)" and "n_match (h e) = Some m"
  obtains h' where "lift h e = Some h'" and "dlist h' (A @ a # B @ C)" and "unlift h' e = Some h"
    and "same_static h h'"
proof
  let ?h1 = "unlink h e" and ?h2 = "unlink (unlink h e) m"
  have d: "distinct (A @ a # e # B @ m # C)" using assms(1) by (simp add: dlist_def)
  note mid = dlist_mid [OF assms(1)]
  have dl1: "dlist ?h1 (A @ a # B @ m # C)" by (rule unlink_dlist [OF assms(1)])
  obtain A' b where ab: "A @ a # B = A' @ [b]" by (metis snoc_eq_iff_butlast list.distinct(1) append_is_Nil_conv)
  have ab': "A @ a # B @ C' = A' @ b # C'" for C' using arg_cong [OF ab, of "\<lambda>l. l @ C'"] by simp
  have dl1': "dlist ?h1 (A' @ b # m # C)" using dl1 ab' [of "m # C"] by simp
  note mid1 = dlist_mid [OF dl1']
  have en: "n_next (h e) \<noteq> None" using mid(3) by (simp split: list.splits)
  have st: "n_match (?h1 e) = Some m" using assms(2) same_static_unlink [of h e] by (simp add: same_static_def)
  show "lift h e = Some ?h2"
  proof -
    obtain n where n: "n_next (h e) = Some n" using en by blast
    have "e \<noteq> a" using d by auto
    then have eq1: "set_prev (set_next h a (Some n)) n (Some a) = ?h1"
      using mid(1) n by (simp add: unlink_def)
    have "n \<in> set (B @ m # C)" using mid(3) n by (cases "B @ m # C") auto
    then have "e \<noteq> n" using d by auto
    define T where "T h = (do { m \<leftarrow> n_match (h e); mp \<leftarrow> n_prev (h m);
        let h = set_next h mp (n_next (h m));
        case n_next (h m) of None \<Rightarrow> Some h | Some mn \<Rightarrow> Some (set_prev h mn (n_prev (h m))) })"
      for h :: "('i, 'o) heap"
    have "lift h e = (do { p \<leftarrow> n_prev (h e); let h' = set_next h p (n_next (h e));
        n \<leftarrow> n_next (h' e); T (set_prev h' n (n_prev (h' e))) })"
      by (simp only: lift_def T_def Let_def)
    also have "\<dots> = T ?h1"
      using mid(1) n \<open>e \<noteq> a\<close> \<open>e \<noteq> n\<close> eq1 by (simp add: Let_def)
    also have "\<dots> = Some ?h2"
      using st mid1(1) dl1'
      by (auto simp: T_def Let_def unlink_def [of ?h1 m] dlist_def split: option.split)
    finally show ?thesis .
  qed
  show "dlist ?h2 (A @ a # B @ C)" unfolding ab' [of C] by (rule unlink_dlist [OF dl1'])
  show "same_static h ?h2" by (rule same_static_trans [of _ ?h1]) simp_all
  have r2: "relink ?h2 m = ?h1" by (rule relink_unlink [OF dl1'])
  have r1: "relink ?h1 e = h" by (rule relink_unlink [OF assms(1)])
  show "unlift ?h2 e = Some h"
  proof -
    have own2: "?h2 m = ?h1 m" by (rule unlink_own [OF dl1'])
    have own1: "?h1 e = h e" by (rule unlink_own [OF assms(1)])
    have st2: "n_match (?h2 e) = Some m"
      using st same_static_unlink [of ?h1 m] by (simp add: same_static_def)
    obtain n where n: "n_next (h e) = Some n" using en by blast
    have e1: "(case n_next (set_next ?h2 b (Some m) m) of None \<Rightarrow> set_next ?h2 b (Some m)
        | Some mn \<Rightarrow> set_prev (set_next ?h2 b (Some m)) mn (Some m)) = ?h1"
      using r2 own2 mid1(1) dl1' by (auto simp: relink_def dlist_def split: option.splits)
    have "set_prev (set_next ?h1 a (Some e)) n (Some e) = h"
      using r1 own1 mid(1) n by (simp add: relink_def)
    moreover have "a \<noteq> e" using d by auto
    ultimately show ?thesis
      unfolding unlift_def using st2 own2 mid1(1) own1 mid(1) n e1 by (simp add: Let_def)
  qed
qed

section \<open>Building the list\<close>

lemma insertBefore_dlist:
  assumes "dlist h xs" and "x \<notin> set xs" and "n_prev (h x) = None"
  shows "dlist (insertBefore h x (Some (hd xs))) (x # xs)"
    and "same_static h (insertBefore h x (Some (hd xs)))"
proof -
  obtain y ys where xs: "xs = y # ys" using assms(1) by (cases xs) (auto simp: dlist_def)
  have eq: "insertBefore h x (Some (hd xs)) = set_next (set_prev h y (Some x)) x (Some y)"
    using assms(1) by (simp add: insertBefore_def xs dlist_def)
  have "links (set_next (set_prev h y (Some x)) x (Some y)) (y # ys) = links h (y # ys)"
    using assms xs by (intro links_cong) (auto simp: dlist_def dest: in_set_butlastD split: if_splits)
  then show "dlist (insertBefore h x (Some (hd xs))) (x # xs)"
    unfolding eq using assms xs by (auto simp: dlist_def split: if_splits)
  show "same_static h (insertBefore h x (Some (hd xs)))"
    unfolding eq by (simp add: same_static_def)
qed

lemma length_node_links:
  assumes "links h (x # xs)" and "n_next (h (last (x # xs))) = None"
  shows "length_node h (Some x) l = Some (l + length (x # xs))"
  using assms
proof (induction xs arbitrary: x l)
  case Nil
  then show ?case by (simp add: length_node.simps [of h "Some x"] length_node.simps [of h None])
next
  case (Cons y xs)
  then show ?case by (simp add: length_node.simps [of h "Some x"])
qed

text \<open>The node at address \<open>p\<close> holds the entry number \<open>p\<close> from the end.\<close>

definition entry_at :: "('i, 'o) heap \<Rightarrow> ('i, 'o) entry list \<Rightarrow> addr \<Rightarrow> bool" where
  "entry_at h E p \<longleftrightarrow>
     n_value (h p) = e_value (E ! p) \<and> n_id (h p) = e_id (E ! p) \<and>
     (if e_kind (E ! p) then n_match (h p) = None
      else (\<forall>q. n_match (h p) = Some q \<longrightarrow> q < p \<and> e_kind (E ! q) \<and> e_id (E ! q) = e_id (E ! p)) \<and>
           (\<forall>q < p. e_kind (E ! q) \<and> e_id (E ! q) = e_id (E ! p) \<longrightarrow> n_match (h p) \<noteq> None))"

definition holds_entries :: "('i, 'o) heap \<Rightarrow> ('i, 'o) entry list \<Rightarrow> bool" where
  "holds_entries h E \<longleftrightarrow> (\<forall>p < length E. entry_at h E p)"

definition link_inv :: "('i, 'o) entry list \<Rightarrow> ('i, 'o) heap \<Rightarrow> addr option \<Rightarrow> (int, addr) fmap \<Rightarrow> bool" where
  "link_inv E h root m \<longleftrightarrow>
     holds_entries h E \<and>
     (if E = [] then root = None
      else root = Some (length E - 1) \<and> dlist h (rev [0..<length E])) \<and>
     (\<forall>i q. fmlookup m i = Some q \<longrightarrow> q < length E \<and> e_kind (E ! q) \<and> e_id (E ! q) = i) \<and>
     (\<forall>q < length E. e_kind (E ! q) \<longrightarrow> fmlookup m (e_id (E ! q)) \<noteq> None)"

lemma holds_entries_static: "same_static h h' \<Longrightarrow> holds_entries h E \<Longrightarrow> holds_entries h' E"
  by (simp add: holds_entries_def entry_at_def same_static_def)

lemma entry_at_append: "p < length E \<Longrightarrow> h' p = h p \<Longrightarrow> entry_at h' (E @ E') p = entry_at h E p"
proof -
  assume p: "p < length E" and h: "h' p = h p"
  have "\<And>q. q < p \<Longrightarrow> (E @ E') ! q = E ! q" and "(E @ E') ! p = E ! p" using p by (simp_all add: nth_append)
  then show ?thesis by (simp add: entry_at_def h cong: conj_cong)
qed

lemma link_inv_step:
  assumes inv: "link_inv E h root m"
    and mt: "mt = (if e_kind elem then None else fmlookup m (e_id elem))"
    and m': "m' = (if e_kind elem then fmupd (e_id elem) (length E) m else m)"
    and h': "h' = insertBefore (h(length E := \<lparr>n_value = e_value elem, n_match = mt, n_id = e_id elem,
                 n_next = None, n_prev = None\<rparr>)) (length E) root"
  shows "link_inv (E @ [elem]) h' (Some (length E)) m'"
proof -
  let ?h = "h(length E := \<lparr>n_value = e_value elem, n_match = mt, n_id = e_id elem,
              n_next = None, n_prev = None\<rparr>)"
  have holds: "holds_entries ?h (E @ [elem])"
  proof -
    have "entry_at ?h (E @ [elem]) p" if "p < length E" for p
      using that inv by (simp add: entry_at_append link_inv_def holds_entries_def)
    moreover have "entry_at ?h (E @ [elem]) (length E)"
      using inv by (auto simp: entry_at_def mt link_inv_def nth_append)
    ultimately show ?thesis by (simp add: holds_entries_def less_Suc_eq)
  qed
  have list: "same_static ?h h' \<and> dlist h' (rev [0..<Suc (length E)])"
  proof (cases "E = []")
    case True
    then show ?thesis using inv by (simp add: h' link_inv_def insertBefore_def dlist_def)
  next
    case False
    let ?xs = "rev [0..<length E]"
    have root: "root = Some (hd ?xs)" using inv False by (simp add: link_inv_def hd_rev)
    have "links ?h ?xs = links h ?xs"
      by (rule links_cong) (auto dest!: in_set_butlastD list.set_sel(2) [rotated] simp: False)
    then have "dlist ?h ?xs"
      using inv False by (auto simp: link_inv_def dlist_def hd_rev last_rev)
    from insertBefore_dlist [OF this, of "length E"] show ?thesis
      by (simp add: h' root)
  qed
  show ?thesis
    using inv list holds_entries_static [OF _ holds, of h']
    unfolding link_inv_def m' by (auto simp: nth_append less_Suc_eq)
qed

lemma linkFrom_inv:
  assumes "link_inv E h root m"
  obtains h' root' m' where "linkFrom ps h (length E) root m = (h', length (E @ ps), root')"
    and "link_inv (E @ ps) h' root' m'"
  using assms
proof (induction ps arbitrary: E h root m thesis)
  case Nil
  then show ?case by simp
next
  case (Cons elem ps)
  let ?mt = "if e_kind elem then None else fmlookup m (e_id elem)"
  let ?m' = "if e_kind elem then fmupd (e_id elem) (length E) m else m"
  let ?h = "insertBefore (h(length E := \<lparr>n_value = e_value elem, n_match = ?mt, n_id = e_id elem,
              n_next = None, n_prev = None\<rparr>)) (length E) root"
  have eq: "linkFrom (elem # ps) h (length E) root m = linkFrom ps ?h (length (E @ [elem])) (Some (length E)) ?m'"
    by (simp add: Let_def)
  have "link_inv (E @ [elem]) ?h (Some (length E)) ?m'"
    by (rule link_inv_step [OF Cons.prems(2)]) simp_all
  then show ?case
    by (rule Cons.IH [rotated]) (rule Cons.prems(1), simp_all only: eq append_assoc append_Cons append_Nil)
qed

text \<open>The state the search starts in: the head, behind it the history in order.\<close>

lemma checkSingle_start:
  obtains h where "dlist h (length es # rev [0..<length es])" and "holds_entries h (rev es)"
    and "checkSingle model es computePartial kill =
      checkLoop model computePartial kill (length es)
        \<lparr>s_heap = h, s_entry = (if es = [] then None else Some (length es - 1)),
         s_linearized = newBitset (length es div 2), s_cache = fmempty, s_calls = [],
         s_longest = replicate (length es div 2) None, s_state = mInit model, s_turn = 0\<rparr>"
proof -
  let ?zero = "\<lambda>_ :: addr. \<lparr>n_value = Nil_value, n_match = None, n_id = 0, n_next = None, n_prev = None\<rparr>"
  let ?N = "length es" and ?xs = "rev [0..<length es]"
  have "link_inv [] ?zero None fmempty" by (simp add: link_inv_def holds_entries_def)
  from linkFrom_inv [OF this, of "rev es"] obtain h root m where
    mk: "makeLinkedEntries es = (h, ?N, root)" and inv: "link_inv (rev es) h root m"
    by (auto simp: makeLinkedEntries_def)
  let ?h = "h(?N := \<lparr>n_value = Nil_value, n_match = None, n_id = -1, n_next = None, n_prev = None\<rparr>)"
  let ?start = "insertBefore ?h ?N root"
  have root: "root = (if es = [] then None else Some (?N - 1))"
    using inv by (simp add: link_inv_def)
  have len: "length_node h root 0 = Some ?N"
  proof (cases "es = []")
    case False
    then obtain k where k: "?N = Suc k" by (cases ?N) auto
    have "dlist h ?xs" using inv False by (simp add: link_inv_def)
    then show ?thesis
      using length_node_links [of h k "rev [0..<k]" 0] root False by (simp add: k dlist_def)
  qed (simp add: root length_node.simps)
  have holds: "holds_entries ?h (rev es)"
    using inv entry_at_append [of _ "rev es" ?h h "[]"] by (simp add: link_inv_def holds_entries_def)
  have "same_static ?h ?start \<and> dlist ?start (?N # ?xs)"
  proof (cases "es = []")
    case True
    then show ?thesis by (simp add: root insertBefore_def dlist_def)
  next
    case False
    have "links ?h ?xs = links h ?xs"
      by (rule links_cong) (auto dest!: in_set_butlastD list.set_sel(2) [rotated] simp: False)
    then have "dlist ?h ?xs"
      using inv False by (auto simp: link_inv_def dlist_def hd_rev last_rev)
    from insertBefore_dlist [OF this, of ?N] show ?thesis
      using False by (simp add: root hd_rev)
  qed
  then show thesis
    using that [of ?start] holds_entries_static [OF _ holds] mk len root
    by (simp add: checkSingle_def Let_def)
qed

end
