(* ===== verification/Porcupine_Spec.thy ===== *)
theory Porcupine_Spec
  imports Porcupine
begin

text \<open>
  What the checker decides. A history is linearizable when its operations can be put in an order
  that the sequential model accepts and that keeps every operation that returned before another
  one was called before it. The search tries one operation after the other; \<open>can_finish\<close> says that
  a set of operations done so far, with the state they led to, extends to a whole order.
\<close>

section \<open>Histories of entries\<close>

definition op_ids :: "('i, 'o) entry list \<Rightarrow> int set" where
  "op_ids es = {0 ..< int (length es div 2)}"

text \<open>Every operation has one call and one return, in this order.\<close>

definition wf_entries :: "('i, 'o) entry list \<Rightarrow> bool" where
  "wf_entries es \<longleftrightarrow>
     distinct (map (\<lambda>e. (e_kind e, e_id e)) es) \<and>
     set (map (\<lambda>e. (e_kind e, e_id e)) es) = UNIV \<times> op_ids es \<and>
     (\<forall>c < length es. \<forall>r < length es.
        \<not> e_kind (es ! c) \<and> e_kind (es ! r) \<and> e_id (es ! c) = e_id (es ! r) \<longrightarrow> c < r) \<and>
     (\<forall>e \<in> set es. if e_kind e then \<exists>out. e_value e = Output out else \<exists>i. e_value e = Input i) \<and>
     length es < 2 ^ 64"

definition entry_value :: "bool \<Rightarrow> ('i, 'o) entry list \<Rightarrow> int \<Rightarrow> ('i, 'o) iface" where
  "entry_value k es i =
     (case find (\<lambda>e. e_kind e = k \<and> e_id e = i) es of None \<Rightarrow> Nil_value | Some e \<Rightarrow> e_value e)"

definition op_step :: "('s, 'i, 'o) Model \<Rightarrow> ('i, 'o) entry list \<Rightarrow> 's \<Rightarrow> int \<Rightarrow> (bool \<times> 's) option" where
  "op_step model es s i = model_step model s (entry_value callEntry es i) (entry_value returnEntry es i)"

text \<open>Operation \<open>a\<close> returns before operation \<open>b\<close> is called.\<close>

definition precedes :: "('i, 'o) entry list \<Rightarrow> int \<Rightarrow> int \<Rightarrow> bool" where
  "precedes es a b \<longleftrightarrow>
     (\<exists>r c. r < c \<and> c < length es \<and> e_kind (es ! r) \<and> e_id (es ! r) = a \<and>
        \<not> e_kind (es ! c) \<and> e_id (es ! c) = b)"

fun op_run :: "('s, 'i, 'o) Model \<Rightarrow> ('i, 'o) entry list \<Rightarrow> 's \<Rightarrow> int list \<Rightarrow> 's option" where
  "op_run model es s [] = Some s"
| "op_run model es s (i # \<sigma>) =
     (case op_step model es s i of Some (True, s') \<Rightarrow> op_run model es s' \<sigma> | _ \<Rightarrow> None)"

definition linearization :: "('s, 'i, 'o) Model \<Rightarrow> ('i, 'o) entry list \<Rightarrow> int list \<Rightarrow> bool" where
  "linearization model es \<sigma> \<longleftrightarrow>
     distinct \<sigma> \<and> set \<sigma> = op_ids es \<and> sorted_wrt (\<lambda>a b. \<not> precedes es b a) \<sigma> \<and>
     op_run model es (mInit model) \<sigma> \<noteq> None"

section \<open>Extending a set of operations\<close>

definition minimal :: "('i, 'o) entry list \<Rightarrow> int set \<Rightarrow> int \<Rightarrow> bool" where
  "minimal es L i \<longleftrightarrow> i \<in> op_ids es - L \<and> (\<forall>a \<in> op_ids es - L. \<not> precedes es a i)"

fun extends :: "('s, 'i, 'o) Model \<Rightarrow> ('i, 'o) entry list \<Rightarrow> int set \<Rightarrow> 's \<Rightarrow> int list \<Rightarrow> bool" where
  "extends model es L s [] \<longleftrightarrow> op_ids es \<subseteq> L"
| "extends model es L s (i # \<sigma>) \<longleftrightarrow>
     minimal es L i \<and>
     (\<exists>s'. op_step model es s i = Some (True, s') \<and> extends model es (insert i L) s' \<sigma>)"

text \<open>An order of some of the operations that may start a linearization.\<close>

fun starts :: "('s, 'i, 'o) Model \<Rightarrow> ('i, 'o) entry list \<Rightarrow> int set \<Rightarrow> 's \<Rightarrow> int list \<Rightarrow> bool" where
  "starts model es L s [] \<longleftrightarrow> True"
| "starts model es L s (i # \<sigma>) \<longleftrightarrow>
     minimal es L i \<and>
     (\<exists>s'. op_step model es s i = Some (True, s') \<and> starts model es (insert i L) s' \<sigma>)"

definition can_finish :: "('s, 'i, 'o) Model \<Rightarrow> ('i, 'o) entry list \<Rightarrow> int set \<Rightarrow> 's \<Rightarrow> bool" where
  "can_finish model es L s \<longleftrightarrow> (\<exists>\<sigma>. extends model es L s \<sigma>)"

definition dead :: "('s, 'i, 'o) Model \<Rightarrow> ('i, 'o) entry list \<Rightarrow> int set \<Rightarrow> 's \<Rightarrow> int \<Rightarrow> bool" where
  "dead model es L s i \<longleftrightarrow>
     (\<forall>s'. op_step model es s i = Some (True, s') \<longrightarrow> \<not> can_finish model es (insert i L) s')"

lemma can_finish_unfold:
  "can_finish model es L s \<longleftrightarrow>
   op_ids es \<subseteq> L \<or> (\<exists>i. minimal es L i \<and> \<not> dead model es L s i)"
proof
  assume "can_finish model es L s"
  then obtain \<sigma> where "extends model es L s \<sigma>" by (auto simp: can_finish_def)
  then show "op_ids es \<subseteq> L \<or> (\<exists>i. minimal es L i \<and> \<not> dead model es L s i)"
    by (cases \<sigma>) (auto simp: dead_def can_finish_def)
next
  assume "op_ids es \<subseteq> L \<or> (\<exists>i. minimal es L i \<and> \<not> dead model es L s i)"
  then show "can_finish model es L s"
  proof
    assume "op_ids es \<subseteq> L"
    then have "extends model es L s []" by simp
    then show ?thesis unfolding can_finish_def by blast
  next
    assume "\<exists>i. minimal es L i \<and> \<not> dead model es L s i"
    then obtain i s' \<sigma> where "minimal es L i" "op_step model es s i = Some (True, s')"
      "extends model es (insert i L) s' \<sigma>"
      by (auto simp: dead_def can_finish_def)
    then have "extends model es L s (i # \<sigma>)" by auto
    then show ?thesis unfolding can_finish_def by blast
  qed
qed

lemma starts_append:
  "starts model es L s (\<sigma> @ [i]) \<longleftrightarrow>
   starts model es L s \<sigma> \<and>
   (\<exists>s' s''. op_run model es s \<sigma> = Some s' \<and> minimal es (L \<union> set \<sigma>) i \<and> op_step model es s' i = Some (True, s''))"
proof (induction \<sigma> arbitrary: L s)
  case (Cons j \<sigma>)
  show ?case
  proof (cases "\<exists>s'. op_step model es s j = Some (True, s')")
    case True
    then obtain s' where s': "op_step model es s j = Some (True, s')" by blast
    show ?thesis by (simp add: s' Cons.IH)
  next
    case False
    then show ?thesis by simp
  qed
qed simp

lemma starts_run: "starts model es L s \<sigma> \<Longrightarrow> op_run model es s \<sigma> \<noteq> None"
  by (induction \<sigma> arbitrary: L s) auto

lemma starts_distinct: "starts model es L s \<sigma> \<Longrightarrow> distinct \<sigma> \<and> set \<sigma> \<subseteq> op_ids es - L"
  by (induction \<sigma> arbitrary: L s) (auto simp: minimal_def)

lemma starts_extends:
  "starts model es L s \<sigma> \<Longrightarrow> op_ids es \<subseteq> L \<union> set \<sigma> \<Longrightarrow> extends model es L s \<sigma>"
  by (induction \<sigma> arbitrary: L s) auto

lemma op_run_append:
  "op_run model es s (\<sigma> @ \<tau>) = Option.bind (op_run model es s \<sigma>) (\<lambda>s'. op_run model es s' \<tau>)"
  by (induction \<sigma> arbitrary: s) (auto split: option.splits bool.splits)

section \<open>The search space is that of linearizations\<close>

lemma wf_call_first:
  assumes "wf_entries es" and "c < length es" and "r < length es" and "\<not> e_kind (es ! c)"
    and "e_kind (es ! r)" and "e_id (es ! c) = e_id (es ! r)"
  shows "c < r"
  using assms unfolding wf_entries_def by blast

lemma precedes_irrefl:
  assumes "wf_entries es"
  shows "\<not> precedes es a a"
proof
  assume "precedes es a a"
  then obtain r c where rc: "r < c" "c < length es" "e_kind (es ! r)" "\<not> e_kind (es ! c)"
    "e_id (es ! c) = e_id (es ! r)"
    by (auto simp: precedes_def)
  then have "c < r" using wf_call_first [OF assms, of c r] by simp
  then show False using rc(1) by simp
qed

lemma extends_iff:
  assumes "wf_entries es"
  shows "extends model es L s \<sigma> \<longleftrightarrow>
    distinct \<sigma> \<and> set \<sigma> = op_ids es - L \<and> sorted_wrt (\<lambda>a b. \<not> precedes es b a) \<sigma> \<and>
    op_run model es s \<sigma> \<noteq> None"
proof (induction \<sigma> arbitrary: L s)
  case (Cons i \<sigma>)
  have step: "(\<exists>s'. op_step model es s i = Some (True, s') \<and> op_run model es s' \<sigma> \<noteq> None) \<longleftrightarrow>
    op_run model es s (i # \<sigma>) \<noteq> None"
  proof (cases "\<exists>s'. op_step model es s i = Some (True, s')")
    case True
    then obtain s' where s': "op_step model es s i = Some (True, s')" by blast
    show ?thesis by (simp add: s')
  next
    case False
    then show ?thesis by (simp split: option.split bool.split)
  qed
  have set: "minimal es L i \<and> set \<sigma> = op_ids es - insert i L \<longleftrightarrow>
    i \<notin> set \<sigma> \<and> insert i (set \<sigma>) = op_ids es - L \<and> (\<forall>b \<in> set \<sigma>. \<not> precedes es b i)"
    using precedes_irrefl [OF assms, of i] by (auto simp: minimal_def)
  have "extends model es L s (i # \<sigma>) \<longleftrightarrow>
    (minimal es L i \<and> set \<sigma> = op_ids es - insert i L) \<and> distinct \<sigma> \<and>
    sorted_wrt (\<lambda>a b. \<not> precedes es b a) \<sigma> \<and>
    (\<exists>s'. op_step model es s i = Some (True, s') \<and> op_run model es s' \<sigma> \<noteq> None)"
    by (simp add: Cons.IH) blast
  then show ?case unfolding set step by auto
qed auto

lemma can_finish_linearizable:
  assumes "wf_entries es"
  shows "can_finish model es {} (mInit model) \<longleftrightarrow> (\<exists>\<sigma>. linearization model es \<sigma>)"
  by (simp add: can_finish_def linearization_def extends_iff [OF assms])

end
