(* ===== verification/Porcupine_Search.thy ===== *)
theory Porcupine_Search
  imports Porcupine_List Porcupine_Spec
begin

text \<open>
  The search of \<open>checkSingle\<close> decides \<open>can_finish\<close>. The invariant ties the variables of the loop to
  the search space: the list holds the entries of the operations not linearized yet, the bit set
  and the stack hold the others, every entry before the current one is a call that leads nowhere,
  and every cached configuration that is not on the stack leads nowhere. Each turn adds a
  configuration to the cache, or pops the stack, or moves along the list, so the loop ends.
\<close>

section \<open>Entries by address\<close>

text \<open>The node at address \<open>p\<close> holds entry \<open>rev es ! p\<close>; the later the entry, the smaller the
  address.\<close>

lemma addr_unique:
  assumes "wf_entries es" and "p < length es" and "q < length es"
    and "e_kind (rev es ! p) = e_kind (rev es ! q)" and "e_id (rev es ! p) = e_id (rev es ! q)"
  shows "p = q"
proof -
  have "distinct (map (\<lambda>e. (e_kind e, e_id e)) (rev es))"
    using assms(1) unfolding wf_entries_def rev_map [symmetric] by simp
  then show ?thesis
    using assms(2-5) nth_eq_iff_index_eq [of "map (\<lambda>e. (e_kind e, e_id e)) (rev es)" p q] by simp
qed

lemma addr_key:
  assumes "wf_entries es" and "i \<in> op_ids es"
  obtains p where "p < length es" and "e_kind (rev es ! p) = k" and "e_id (rev es ! p) = i"
proof -
  have "(k, i) \<in> set (map (\<lambda>e. (e_kind e, e_id e)) (rev es))"
    using assms unfolding wf_entries_def rev_map [symmetric] set_rev by simp
  then show thesis using that by (auto simp: in_set_conv_nth simp del: set_rev)
qed

lemma addr_id:
  assumes "wf_entries es" and "p < length es"
  shows "e_id (rev es ! p) \<in> op_ids es"
proof -
  have "rev es ! p \<in> set es" using assms(2) nth_mem [of p "rev es"] by simp
  then have "(e_kind (rev es ! p), e_id (rev es ! p)) \<in> UNIV \<times> op_ids es"
    using assms(1) unfolding wf_entries_def by (metis (no_types, lifting) image_eqI list.set_map)
  then show ?thesis by simp
qed

lemma addr_order:
  assumes "wf_entries es" and "p < length es" and "q < length es"
    and "\<not> e_kind (rev es ! p)" and "e_kind (rev es ! q)" and "e_id (rev es ! p) = e_id (rev es ! q)"
  shows "q < p"
proof -
  have "length es - Suc p < length es - Suc q"
    by (rule wf_call_first [OF assms(1)]) (use assms(2-6) in \<open>simp_all add: rev_nth\<close>)
  then show ?thesis by simp
qed

lemma precedes_addr:
  "precedes es a b \<longleftrightarrow>
   (\<exists>p q. q < p \<and> p < length es \<and> e_kind (rev es ! p) \<and> e_id (rev es ! p) = a \<and>
      \<not> e_kind (rev es ! q) \<and> e_id (rev es ! q) = b)"
proof
  assume "precedes es a b"
  then obtain r c where rc: "r < c" "c < length es" "e_kind (es ! r)" "e_id (es ! r) = a"
    "\<not> e_kind (es ! c)" "e_id (es ! c) = b" by (auto simp: precedes_def)
  show "\<exists>p q. q < p \<and> p < length es \<and> e_kind (rev es ! p) \<and> e_id (rev es ! p) = a \<and>
      \<not> e_kind (rev es ! q) \<and> e_id (rev es ! q) = b"
    by (rule exI [of _ "length es - Suc r"], rule exI [of _ "length es - Suc c"]) (use rc in \<open>auto simp: rev_nth\<close>)
next
  assume "\<exists>p q. q < p \<and> p < length es \<and> e_kind (rev es ! p) \<and> e_id (rev es ! p) = a \<and>
      \<not> e_kind (rev es ! q) \<and> e_id (rev es ! q) = b"
  then obtain p q where rc: "q < p" "p < length es" "e_kind (rev es ! p)" "e_id (rev es ! p) = a"
    "\<not> e_kind (rev es ! q)" "e_id (rev es ! q) = b" by blast
  show "precedes es a b" unfolding precedes_def
    by (rule exI [of _ "length es - Suc p"], rule exI [of _ "length es - Suc q"]) (use rc in \<open>auto simp: rev_nth\<close>)
qed

lemma entry_value_addr:
  assumes "wf_entries es" and "p < length es"
  shows "entry_value (e_kind (rev es ! p)) es (e_id (rev es ! p)) = e_value (rev es ! p)"
proof -
  let ?P = "\<lambda>e. e_kind e = e_kind (rev es ! p) \<and> e_id e = e_id (rev es ! p)"
  have "rev es ! p \<in> set es" using assms(2) nth_mem [of p "rev es"] by simp
  then have "find ?P es \<noteq> None" by (auto simp: find_None_iff)
  then obtain e where e: "find ?P es = Some e" by blast
  then have "e \<in> set es" "?P e" by (auto simp: find_Some_iff)
  then obtain q where "q < length es" "rev es ! q = e" using in_set_conv_nth [of e "rev es"] by auto
  then have "e = rev es ! p" using addr_unique [OF assms(1) _ assms(2), of q] \<open>?P e\<close> by auto
  then show ?thesis using e by (simp add: entry_value_def)
qed

lemma addr_match:
  assumes "wf_entries es" and "holds_entries h (rev es)" and "p < length es" and "\<not> e_kind (rev es ! p)"
  obtains m where "n_match (h p) = Some m" and "m < p" and "e_kind (rev es ! m)"
    and "e_id (rev es ! m) = e_id (rev es ! p)"
proof -
  obtain q where q: "q < length es" "e_kind (rev es ! q) = True" "e_id (rev es ! q) = e_id (rev es ! p)"
    using addr_key [OF assms(1) addr_id [OF assms(1,3)]] by blast
  then have "q < p" using addr_order [OF assms(1,3) q(1)] assms(4) by simp
  then have "n_match (h p) \<noteq> None"
    using assms(2-4) q by (auto simp: holds_entries_def entry_at_def)
  then show thesis using that assms(2-4) by (auto simp: holds_entries_def entry_at_def)
qed

section \<open>The list of remaining entries\<close>

definition remaining :: "('i, 'o) entry list \<Rightarrow> int set \<Rightarrow> addr list" where
  "remaining es L = filter (\<lambda>p. e_id (rev es ! p) \<notin> L) (rev [0..<length es])"

lemma remaining_set: "p \<in> set (remaining es L) \<longleftrightarrow> p < length es \<and> e_id (rev es ! p) \<notin> L"
  by (auto simp: remaining_def)

lemma remaining_sorted: "sorted_wrt (>) (remaining es L)"
  by (simp add: remaining_def sorted_wrt_filter sorted_wrt_rev)

lemma remaining_distinct: "distinct (remaining es L)"
  by (simp add: remaining_def)

lemma remaining_split:
  assumes "remaining es L = A @ p # B"
  shows "q \<in> set A \<longleftrightarrow> q \<in> set (remaining es L) \<and> q > p"
    and "q \<in> set B \<longleftrightarrow> q \<in> set (remaining es L) \<and> q < p"
  using remaining_sorted [of es L] unfolding assms by (auto simp: sorted_wrt_append)

definition tried :: "('s, 'i, 'o) Model \<Rightarrow> ('i, 'o) entry list \<Rightarrow> int set \<Rightarrow> 's \<Rightarrow> addr list \<Rightarrow> bool" where
  "tried model es L s A \<longleftrightarrow>
     (\<forall>q \<in> set A. \<not> e_kind (rev es ! q) \<and> dead model es L s (e_id (rev es ! q)))"

text \<open>A call entry behind calls only may be next; a return behind entries that lead nowhere ends
  the search at this level.\<close>

lemma call_minimal:
  assumes wf: "wf_entries es" and rem: "remaining es L = A @ p # B"
    and "tried model es L s A" and "\<not> e_kind (rev es ! p)"
  shows "minimal es L (e_id (rev es ! p))"
proof -
  have p: "p < length es" "e_id (rev es ! p) \<notin> L"
    using remaining_set [of p es L] by (simp_all add: rem)
  have "\<not> precedes es a (e_id (rev es ! p))" if a: "a \<in> op_ids es - L" for a
  proof
    assume "precedes es a (e_id (rev es ! p))"
    then obtain r q where rq: "q < r" "r < length es" "e_kind (rev es ! r)" "e_id (rev es ! r) = a"
      "\<not> e_kind (rev es ! q)" "e_id (rev es ! q) = e_id (rev es ! p)" by (auto simp: precedes_addr)
    then have "q = p" using addr_unique [OF wf _ p(1), of q] assms(4) by simp
    then have "r \<in> set A" using remaining_split(1) [OF rem, of r] remaining_set [of r es L] rq a by auto
    then show False using assms(3) rq(3) by (auto simp: tried_def)
  qed
  then show ?thesis using addr_id [OF wf p(1)] p(2) by (auto simp: minimal_def)
qed

lemma return_dead:
  assumes wf: "wf_entries es" and rem: "remaining es L = A @ p # B"
    and tried: "tried model es L s A" and ret: "e_kind (rev es ! p)"
  shows "\<not> can_finish model es L s"
proof
  have p: "p < length es" "e_id (rev es ! p) \<notin> L"
    using remaining_set [of p es L] by (simp_all add: rem)
  assume "can_finish model es L s"
  then obtain i where i: "minimal es L i" "\<not> dead model es L s i"
    using addr_id [OF wf p(1)] p(2) by (auto simp: can_finish_unfold)
  obtain q where q: "q < length es" "e_kind (rev es ! q) = False" "e_id (rev es ! q) = i"
    using addr_key [OF wf, of i False] i(1) unfolding minimal_def by blast
  have "\<not> precedes es (e_id (rev es ! p)) i"
    using i(1) addr_id [OF wf p(1)] p(2) by (auto simp: minimal_def)
  then have "\<not> q < p" using p(1) q ret by (auto simp: precedes_addr)
  moreover have "q \<noteq> p" using q(2) ret by auto
  ultimately have "q \<in> set A"
    using remaining_split(1) [OF rem, of q] remaining_set [of q es L] q i(1) by (auto simp: minimal_def)
  then show False using tried i(2) q(3) by (auto simp: tried_def)
qed

text \<open>Behind a call entry there is at least its return.\<close>

lemma call_split:
  assumes wf: "wf_entries es" and rem: "remaining es L = A @ p # B" and call: "\<not> e_kind (rev es ! p)"
    and m: "m < p" "e_kind (rev es ! m)" "e_id (rev es ! m) = e_id (rev es ! p)"
  obtains B1 B2 where "B = B1 @ m # B2" and "remaining es (insert (e_id (rev es ! p)) L) = A @ B1 @ B2"
proof -
  have p: "p < length es" "e_id (rev es ! p) \<notin> L"
    using remaining_set [of p es L] by (simp_all add: rem)
  have "m \<in> set B" using remaining_split(2) [OF rem, of m] remaining_set [of m es L] m p by auto
  then obtain B1 B2 where B: "B = B1 @ m # B2" by (auto dest: split_list)
  have only: "e_id (rev es ! q) = e_id (rev es ! p) \<longleftrightarrow> q = p \<or> q = m" if "q < length es" for q
    using addr_unique [OF wf that p(1)] addr_unique [OF wf that, of m] call m p(1) by auto
  have "remaining es (insert (e_id (rev es ! p)) L) =
      filter (\<lambda>q. q \<noteq> p \<and> q \<noteq> m) (remaining es L)"
    unfolding remaining_def filter_filter by (rule filter_cong) (auto simp: only)
  also have "\<dots> = A @ B1 @ B2"
  proof -
    have "filter (\<lambda>q. q \<noteq> p \<and> q \<noteq> m) X = X" if "X \<in> {A, B1, B2}" for X
      using remaining_distinct [of es L] that unfolding rem B by (intro filter_True) auto
    then show ?thesis by (simp add: rem B)
  qed
  finally show thesis using that B by simp
qed

end
