(* ===== verification/Porcupine_Loop.thy ===== *)
theory Porcupine_Loop
  imports Porcupine_Search
begin

text \<open>
  The invariant of the loop of \<open>checkSingle\<close>, its preservation by each kind of turn, and the
  result: the loop ends, and unless it is killed its answer is whether the history is
  linearizable.
\<close>

section \<open>The stack\<close>

text \<open>Stacks are written with the top first here, \<open>rev (s_calls st)\<close>.\<close>

definition stack_ids :: "('i, 'o) entry list \<Rightarrow> (addr \<times> 's) list \<Rightarrow> int set" where
  "stack_ids es rc = set (map (\<lambda>c. e_id (rev es ! fst c)) rc)"

primrec stack_ok :: "('s, 'i, 'o) Model \<Rightarrow> ('i, 'o) entry list \<Rightarrow> (addr \<times> 's) list \<Rightarrow> 's \<Rightarrow> bool" where
  "stack_ok model es [] s \<longleftrightarrow> s = mInit model"
| "stack_ok model es (c # rc) s \<longleftrightarrow>
     \<not> e_kind (rev es ! fst c) \<and>
     op_step model es (snd c) (e_id (rev es ! fst c)) = Some (True, s) \<and>
     (\<exists>A B. remaining es (stack_ids es rc) = A @ fst c # B \<and> tried model es (stack_ids es rc) (snd c) A) \<and>
     stack_ok model es rc (snd c)"

text \<open>The configurations on the stack.\<close>

primrec stack_confs :: "('i, 'o) entry list \<Rightarrow> (addr \<times> 's) list \<Rightarrow> 's \<Rightarrow> (int set \<times> 's) set" where
  "stack_confs es [] s = {}"
| "stack_confs es (c # rc) s = insert (stack_ids es (c # rc), s) (stack_confs es rc (snd c))"

definition heap_ok :: "('i, 'o) entry list \<Rightarrow> int set \<Rightarrow> ('i, 'o) heap \<Rightarrow> bool" where
  "heap_ok es L h \<longleftrightarrow> dlist h (length es # remaining es L) \<and> holds_entries h (rev es)"

primrec stack_heap :: "('i, 'o) entry list \<Rightarrow> (addr \<times> 's) list \<Rightarrow> ('i, 'o) heap \<Rightarrow> bool" where
  "stack_heap es [] h \<longleftrightarrow> heap_ok es {} h"
| "stack_heap es (c # rc) h \<longleftrightarrow>
     heap_ok es (stack_ids es (c # rc)) h \<and> (\<exists>h1. unlift h (fst c) = Some h1 \<and> stack_heap es rc h1)"

lemma stack_ids_simps [simp]:
  "stack_ids es [] = {}" "stack_ids es (c # rc) = insert (e_id (rev es ! fst c)) (stack_ids es rc)"
  by (simp_all add: stack_ids_def)

lemma stack_heap_ok: "stack_heap es rc h \<Longrightarrow> heap_ok es (stack_ids es rc) h"
  by (cases rc) auto

lemma stack_starts:
  assumes "wf_entries es" and "stack_ok model es rc s"
  shows "starts model es {} (mInit model) (rev (map (\<lambda>c. e_id (rev es ! fst c)) rc)) \<and>
    op_run model es (mInit model) (rev (map (\<lambda>c. e_id (rev es ! fst c)) rc)) = Some s"
  using assms(2)
proof (induction rc arbitrary: s)
  case (Cons c rc)
  then obtain A B where A: "remaining es (stack_ids es rc) = A @ fst c # B"
    "tried model es (stack_ids es rc) (snd c) A" by auto
  then have "minimal es (stack_ids es rc) (e_id (rev es ! fst c))"
    using call_minimal [OF assms(1)] Cons.prems by auto
  then show ?case
    using Cons by (auto simp: starts_append op_run_append stack_ids_def)
qed simp

lemma stack_bound:
  assumes "wf_entries es" and "stack_ok model es rc s"
  shows "stack_ids es rc \<subseteq> op_ids es" and "card (stack_ids es rc) = length rc"
proof -
  let ?ids = "map (\<lambda>c. e_id (rev es ! fst c)) rc"
  have "distinct ?ids \<and> set ?ids \<subseteq> op_ids es"
    using stack_starts [OF assms] starts_distinct [of model es "{}" "mInit model" "rev ?ids"] by simp
  then show "stack_ids es rc \<subseteq> op_ids es" and "card (stack_ids es rc) = length rc"
    using distinct_card [of ?ids] by (simp_all add: stack_ids_def)
qed

text \<open>A configuration with one more operation than the stack is not on the stack.\<close>

lemma confs_card:
  assumes "wf_entries es" and "stack_ok model es rc s" and "(L, t) \<in> stack_confs es rc s"
  shows "card L \<le> length rc"
  using assms(2,3)
proof (induction rc arbitrary: s)
  case (Cons c rc)
  have "card (stack_ids es (c # rc)) = Suc (length rc)"
    using stack_bound(2) [OF assms(1) Cons.prems(1)] by simp
  then show ?case using Cons by fastforce
qed simp

section \<open>The cache\<close>

definition search_space :: "('s, 'i, 'o) Model \<Rightarrow> ('i, 'o) entry list \<Rightarrow> (int set \<times> 's) set" where
  "search_space model es =
     (\<lambda>\<sigma>. (set \<sigma>, the (op_run model es (mInit model) \<sigma>))) ` {\<sigma>. set \<sigma> \<subseteq> op_ids es \<and> distinct \<sigma>}"

definition cached :: "'s cache \<Rightarrow> (int set \<times> 's) set" where
  "cached C = {(int ` positions b, s) | b s. (b, s) \<in> set (map_get [] C (hash_bitset b))}"

definition cache_ok :: "('s, 'i, 'o) Model \<Rightarrow> ('i, 'o) entry list \<Rightarrow> (int set \<times> 's) set \<Rightarrow> 's cache \<Rightarrow> bool" where
  "cache_ok model es confs C \<longleftrightarrow>
     (\<forall>k b s. (b, s) \<in> set (map_get [] C k) \<longrightarrow> length b = length (newBitset (length es div 2))) \<and>
     confs \<subseteq> cached C \<and> cached C \<subseteq> search_space model es \<and>
     (\<forall>L s. (L, s) \<in> cached C - confs \<longrightarrow> \<not> can_finish model es L s)"

definition bits_ok :: "('i, 'o) entry list \<Rightarrow> bitset \<Rightarrow> int set \<Rightarrow> bool" where
  "bits_ok es b L \<longleftrightarrow> length b = length (newBitset (length es div 2)) \<and> int ` positions b = L"

text \<open>The states of the model are compared with equality.\<close>

definition equal_ok :: "('s, 'i, 'o) Model \<Rightarrow> bool" where
  "equal_ok model \<longleftrightarrow> (\<exists>eq. mEqual model = Some eq \<and> (\<forall>a b. eq a b \<longleftrightarrow> a = b))"

lemma finite_search_space: "finite (search_space model es)"
proof -
  have "finite {\<sigma>. set \<sigma> \<subseteq> op_ids es \<and> distinct \<sigma>}"
    by (rule finite_subset_distinct) (simp add: op_ids_def)
  then show ?thesis by (simp add: search_space_def)
qed

lemma search_space_stack:
  assumes "wf_entries es" and "stack_ok model es rc s"
  shows "(stack_ids es rc, s) \<in> search_space model es"
proof -
  let ?ids = "rev (map (\<lambda>c. e_id (rev es ! fst c)) rc)"
  have "starts model es {} (mInit model) ?ids" and run: "op_run model es (mInit model) ?ids = Some s"
    using stack_starts [OF assms] by auto
  then have ids: "set ?ids \<subseteq> op_ids es \<and> distinct ?ids"
    using starts_distinct [of model es "{}" "mInit model" ?ids] by simp
  have "(stack_ids es rc, s) = (set ?ids, the (op_run model es (mInit model) ?ids))"
    by (simp only: run option.sel set_rev stack_ids_def)
  then show ?thesis unfolding search_space_def by (rule image_eqI) (use ids in simp)
qed

lemma cacheScan_eq:
  assumes "equal_ok model"
  shows "cacheScan model elems entry = Some (entry \<in> set elems)"
proof -
  obtain eq where "mEqual model = Some eq" "\<forall>a b. eq a b \<longleftrightarrow> a = b" using assms by (auto simp: equal_ok_def)
  then show ?thesis
    by (induction elems) (auto simp: model_equal_def prod_eq_iff)
qed

lemma bits_inject:
  assumes "bits_ok es b L" and "bits_ok es b' L"
  shows "b = b'"
proof -
  have "int ` positions b = int ` positions b'" using assms by (simp add: bits_ok_def)
  then have "positions b = positions b'" by (simp add: inj_image_eq_iff inj_of_nat)
  then show ?thesis using assms positions_inject by (simp add: bits_ok_def)
qed

lemma cacheContains_eq:
  assumes "equal_ok model" and "cache_ok model es confs C" and "bits_ok es b L"
  shows "cacheContains model C (b, s) = Some ((L, s) \<in> cached C)"
proof -
  have "(L, s) \<in> cached C \<longleftrightarrow> (b, s) \<in> set (map_get [] C (hash_bitset b))"
  proof
    assume "(L, s) \<in> cached C"
    then obtain b' where b': "(b', s) \<in> set (map_get [] C (hash_bitset b'))" "L = int ` positions b'"
      by (auto simp: cached_def)
    then have "bits_ok es b' L" using assms(2) by (auto simp: cache_ok_def bits_ok_def)
    then show "(b, s) \<in> set (map_get [] C (hash_bitset b))" using bits_inject [OF assms(3)] b' by simp
  next
    assume "(b, s) \<in> set (map_get [] C (hash_bitset b))"
    then show "(L, s) \<in> cached C" using assms(3) by (auto simp: cached_def bits_ok_def)
  qed
  then show ?thesis by (simp add: cacheContains_def cacheScan_eq [OF assms(1)])
qed

lemma cached_insert:
  assumes "bits_ok es b L"
  shows "cached (fmupd (hash_bitset b) (map_get [] C (hash_bitset b) @ [(b, s)]) C) = insert (L, s) (cached C)"
proof -
  let ?C = "fmupd (hash_bitset b) (map_get [] C (hash_bitset b) @ [(b, s)]) C"
  have mem: "(b', s') \<in> set (map_get [] ?C (hash_bitset b')) \<longleftrightarrow>
    (b', s') = (b, s) \<or> (b', s') \<in> set (map_get [] C (hash_bitset b'))" for b' s'
    by (auto simp: map_get_upd)
  have "int ` positions b = L" using assms by (simp add: bits_ok_def)
  then show ?thesis unfolding cached_def mem by blast
qed

lemma bits_set:
  assumes "wf_entries es" and "bits_ok es b L" and "i \<in> op_ids es"
  obtains b' where "set_bitset b (go_uint i) = Some b'" and "bits_ok es b' (insert i L)"
proof -
  have i: "0 \<le> i" "nat i < length es div 2" using assms(3) by (auto simp: op_ids_def)
  moreover have "length es < 2 ^ 64" using assms(1) by (simp add: wf_entries_def)
  ultimately have u: "go_uint i = nat i" by (simp add: go_uint_def)
  have "nat i div 64 < length b" using assms(2) newBitset_length [OF i(2)] by (simp add: bits_ok_def)
  then obtain b' where "set_bitset b (nat i) = Some b'" "length b' = length b"
    "positions b' = insert (nat i) (positions b)" by (rule set_bitset_Some)
  then show thesis using that [of b'] assms(2) i(1) by (simp add: u bits_ok_def)
qed

lemma bits_clear:
  assumes "wf_entries es" and "bits_ok es b (insert i L)" and "i \<in> op_ids es" and "i \<notin> L"
  obtains b' where "clear_bitset b (go_uint i) = Some b'" and "bits_ok es b' L"
proof -
  have i: "0 \<le> i" "nat i < length es div 2" using assms(3) by (auto simp: op_ids_def)
  moreover have "length es < 2 ^ 64" using assms(1) by (simp add: wf_entries_def)
  ultimately have u: "go_uint i = nat i" by (simp add: go_uint_def)
  have "nat i div 64 < length b" using assms(2) newBitset_length [OF i(2)] by (simp add: bits_ok_def)
  then obtain b' where "clear_bitset b (nat i) = Some b'" "length b' = length b"
    and pos: "positions b' = positions b - {nat i}" by (rule clear_bitset_Some)
  moreover have "int ` positions b' = L"
    using assms(2,4) i(1) unfolding pos bits_ok_def by (auto simp: image_set_diff [OF inj_of_nat])
  ultimately show thesis using that [of b'] assms(2) by (simp add: u bits_ok_def)
qed

section \<open>The invariant\<close>

definition longs_ok :: "('s, 'i, 'o) Model \<Rightarrow> ('i, 'o) entry list \<Rightarrow> int list option list \<Rightarrow> bool" where
  "longs_ok model es longs \<longleftrightarrow>
     length longs = length es div 2 \<and>
     (\<forall>i seq. i < length longs \<and> longs ! i = Some seq \<longrightarrow>
        starts model es {} (mInit model) seq \<and> int i \<in> set seq)"

definition at_entry ::
  "('s, 'i, 'o) Model \<Rightarrow> ('i, 'o) entry list \<Rightarrow> int set \<Rightarrow> 's \<Rightarrow> addr option \<Rightarrow> bool" where
  "at_entry model es L s entry \<longleftrightarrow>
     remaining es L = [] \<or>
     (\<exists>A p B. remaining es L = A @ p # B \<and> entry = Some p \<and> tried model es L s A)"

definition search_inv :: "('s, 'i, 'o) Model \<Rightarrow> ('i, 'o) entry list \<Rightarrow> ('s, 'i, 'o) search \<Rightarrow> bool" where
  "search_inv model es st \<longleftrightarrow>
     stack_ok model es (rev (s_calls st)) (s_state st) \<and>
     stack_heap es (rev (s_calls st)) (s_heap st) \<and>
     cache_ok model es (stack_confs es (rev (s_calls st)) (s_state st)) (s_cache st) \<and>
     bits_ok es (s_linearized st) (stack_ids es (rev (s_calls st))) \<and>
     longs_ok model es (s_longest st) \<and>
     at_entry model es (stack_ids es (rev (s_calls st))) (s_state st) (s_entry st)"

definition search_measure ::
  "('s, 'i, 'o) Model \<Rightarrow> ('i, 'o) entry list \<Rightarrow> ('s, 'i, 'o) search \<Rightarrow> nat \<times> nat \<times> nat" where
  "search_measure model es st =
     (card (search_space model es - cached (s_cache st)), length (s_calls st),
      case s_entry st of None \<Rightarrow> 0 | Some p \<Rightarrow> p)"

abbreviation (input) measure_less :: "nat \<times> nat \<times> nat \<Rightarrow> nat \<times> nat \<times> nat \<Rightarrow> bool" where
  "measure_less a b \<equiv> (a, b) \<in> less_than <*lex*> less_than <*lex*> less_than"

lemma search_inv_heap:
  assumes "search_inv model es st"
  shows "dlist (s_heap st) (length es # remaining es (stack_ids es (rev (s_calls st))))"
    and "holds_entries (s_heap st) (rev es)"
  using assms stack_heap_ok by (auto simp: search_inv_def heap_ok_def)

text \<open>Moving on behind a call that leads nowhere.\<close>

lemma advance_inv:
  assumes wf: "wf_entries es" and inv: "search_inv model es st"
    and rem: "remaining es (stack_ids es (rev (s_calls st))) = A @ p # B"
    and tried: "tried model es (stack_ids es (rev (s_calls st))) (s_state st) A"
    and call: "\<not> e_kind (rev es ! p)"
    and dead: "dead model es (stack_ids es (rev (s_calls st))) (s_state st) (e_id (rev es ! p))"
  obtains q where "n_next (s_heap st p) = Some q" and "q < p"
    and "search_inv model es (st\<lparr>s_entry := Some q\<rparr>)"
proof -
  let ?L = "stack_ids es (rev (s_calls st))"
  have p: "p < length es" using remaining_set [of p es ?L] rem by simp
  obtain m where m: "m < p" "e_kind (rev es ! m)" "e_id (rev es ! m) = e_id (rev es ! p)"
    using addr_match [OF wf search_inv_heap(2) [OF inv] p call] by blast
  obtain B1 B2 where "B = B1 @ m # B2" using call_split [OF wf rem call m] by blast
  then have "B \<noteq> []" by simp
  then obtain q B' where B: "B = q # B'" by (cases B) simp_all
  have "dlist (s_heap st) ((length es # A) @ p # q # B')"
    using search_inv_heap(1) [OF inv] by (simp add: rem B)
  then have "n_next (s_heap st p) = Some q" by (rule dlist_mid(2))
  moreover have "q < p" using remaining_split(2) [OF rem, of q] B by simp
  moreover have "at_entry model es ?L (s_state st) (Some q)"
    unfolding at_entry_def
  proof (rule disjI2, intro exI conjI)
    show "remaining es ?L = (A @ [p]) @ q # B'" by (simp add: rem B)
    show "tried model es ?L (s_state st) (A @ [p])" using tried call dead by (auto simp: tried_def)
  qed simp
  ultimately show thesis using that inv by (simp add: search_inv_def)
qed

text \<open>Linearizing an operation whose configuration is new.\<close>

lemma push_inv:
  assumes wf: "wf_entries es" and inv: "search_inv model es st"
    and rem: "remaining es (stack_ids es (rev (s_calls st))) = A @ p # B"
    and tried: "tried model es (stack_ids es (rev (s_calls st))) (s_state st) A"
    and call: "\<not> e_kind (rev es ! p)"
    and step: "op_step model es (s_state st) (e_id (rev es ! p)) = Some (True, s')"
    and bits: "bits_ok es b (insert (e_id (rev es ! p)) (stack_ids es (rev (s_calls st))))"
    and new: "(insert (e_id (rev es ! p)) (stack_ids es (rev (s_calls st))), s') \<notin> cached (s_cache st)"
  obtains h where "lift (s_heap st) p = Some h"
    and "search_inv model es
      (st\<lparr>s_cache := fmupd (hash_bitset b) (map_get [] (s_cache st) (hash_bitset b) @ [(b, s')]) (s_cache st),
          s_calls := s_calls st @ [(p, s_state st)], s_state := s', s_linearized := b, s_heap := h,
          s_entry := n_next (h (length es))\<rparr>)"
proof -
  let ?rc = "rev (s_calls st)" and ?i = "e_id (rev es ! p)"
  let ?L = "stack_ids es ?rc" and ?rc' = "(p, s_state st) # rev (s_calls st)"
  let ?C = "fmupd (hash_bitset b) (map_get [] (s_cache st) (hash_bitset b) @ [(b, s')]) (s_cache st)"
  have p: "p < length es" using remaining_set [of p es ?L] rem by simp
  obtain m where mt: "n_match (s_heap st p) = Some m"
    and m: "m < p" "e_kind (rev es ! m)" "e_id (rev es ! m) = ?i"
    using addr_match [OF wf search_inv_heap(2) [OF inv] p call] by blast
  obtain B1 B2 where B: "B = B1 @ m # B2" and rem': "remaining es (insert ?i ?L) = A @ B1 @ B2"
    using call_split [OF wf rem call m] by blast
  obtain A0 a where A0: "length es # A = A0 @ [a]" by (metis list.distinct(1) rev_exhaust)
  have A0': "length es # A @ X = A0 @ a # X" for X using arg_cong [OF A0, of "\<lambda>l. l @ X"] by simp
  have "dlist (s_heap st) (A0 @ a # p # B1 @ m # B2)"
    using search_inv_heap(1) [OF inv] unfolding rem B A0' .
  then obtain h where h: "lift (s_heap st) p = Some h" "dlist h (A0 @ a # B1 @ B2)"
    "unlift h p = Some (s_heap st)" "same_static (s_heap st) h"
    using lift_dlist [of "s_heap st" A0 a p B1 m B2] mt by blast
  have dl: "dlist h (length es # remaining es (insert ?i ?L))"
    using h(2) unfolding rem' A0' .
  have stack: "stack_ok model es ?rc' s'"
    using inv step call rem tried by (auto simp: search_inv_def)
  moreover have "stack_heap es ?rc' h"
    using inv h(3) dl holds_entries_static [OF h(4) search_inv_heap(2) [OF inv]]
    by (simp add: search_inv_def heap_ok_def)
  moreover have "cache_ok model es (stack_confs es ?rc' s') ?C"
  proof -
    have c: "cached ?C = insert (insert ?i ?L, s') (cached (s_cache st))" by (rule cached_insert [OF bits])
    have ck: "cache_ok model es (stack_confs es ?rc (s_state st)) (s_cache st)"
      using inv by (simp add: search_inv_def)
    have "(insert ?i ?L, s') \<in> search_space model es" using search_space_stack [OF wf stack] by simp
    moreover have "length x = length (newBitset (length es div 2))"
      if "(x, t) \<in> set (map_get [] ?C k)" for k x t
      using that ck bits by (auto simp: cache_ok_def bits_ok_def map_get_upd split: if_splits)
    ultimately show ?thesis using ck unfolding cache_ok_def c by auto
  qed
  moreover have "at_entry model es (stack_ids es ?rc') s' (n_next (h (length es)))"
  proof (cases "A @ B1 @ B2")
    case (Cons q R)
    then have "n_next (h (length es)) = Some q"
      using dl rem' by (simp add: dlist_def)
    moreover have "remaining es (insert ?i ?L) = [] @ q # R" using Cons rem' by simp
    moreover have "tried model es (insert ?i ?L) s' []" by (simp add: tried_def)
    ultimately show ?thesis unfolding at_entry_def stack_ids_simps fst_conv by blast
  qed (simp add: at_entry_def rem')
  ultimately show thesis
    using that [OF h(1)] inv bits by (simp add: search_inv_def)
qed

text \<open>Going back: the configuration on top of the stack leads nowhere.\<close>

lemma pop_inv:
  assumes wf: "wf_entries es" and inv: "search_inv model es st"
    and cs: "s_calls st = cs @ [(p, s0)]"
    and nowhere: "\<not> can_finish model es (stack_ids es (rev (s_calls st))) (s_state st)"
    and longs: "longs_ok model es longs"
  obtains b h q where "clear_bitset (s_linearized st) (go_uint (e_id (rev es ! p))) = Some b"
    and "unlift (s_heap st) p = Some h" and "n_next (h p) = Some q"
    and "search_inv model es (st\<lparr>s_longest := longs, s_state := s0, s_linearized := b,
           s_calls := cs, s_heap := h, s_entry := Some q\<rparr>)"
proof -
  let ?i = "e_id (rev es ! p)" and ?L = "stack_ids es (rev cs)"
  have stack: "stack_ok model es ((p, s0) # rev cs) (s_state st)"
    and heap: "stack_heap es ((p, s0) # rev cs) (s_heap st)"
    and cache: "cache_ok model es (stack_confs es ((p, s0) # rev cs) (s_state st)) (s_cache st)"
    and bits: "bits_ok es (s_linearized st) (insert ?i ?L)"
    using inv by (auto simp: search_inv_def cs)
  from stack obtain A B where rem: "remaining es ?L = A @ p # B" and tried: "tried model es ?L s0 A"
    and call: "\<not> e_kind (rev es ! p)" and step: "op_step model es s0 ?i = Some (True, s_state st)"
    by auto
  from heap obtain h where h: "unlift (s_heap st) p = Some h" "stack_heap es (rev cs) h" by auto
  have p: "p < length es" "?i \<notin> ?L" using remaining_set [of p es ?L] rem by auto
  obtain b where b: "clear_bitset (s_linearized st) (go_uint ?i) = Some b" "bits_ok es b ?L"
    using bits_clear [OF wf bits addr_id [OF wf p(1)] p(2)] by blast
  let ?st = "st\<lparr>s_longest := longs, s_state := s0, s_linearized := b, s_calls := cs, s_heap := h,
               s_entry := Some p\<rparr>"
  have "cache_ok model es (stack_confs es (rev cs) s0) (s_cache st)"
    using cache nowhere by (auto simp: cache_ok_def cs)
  moreover have "at_entry model es ?L s0 (Some p)" using rem tried by (auto simp: at_entry_def)
  ultimately have "search_inv model es ?st"
    using stack h(2) b(2) longs by (simp add: search_inv_def)
  moreover have "dead model es ?L s0 ?i" using step nowhere by (simp add: dead_def cs)
  ultimately obtain q where "n_next (h p) = Some q" "search_inv model es (?st\<lparr>s_entry := Some q\<rparr>)"
    using advance_inv [OF wf, of model ?st A p B] rem tried call by auto
  then show thesis using that [OF b(1) h(1)] by simp
qed

lemma updateLongest_ok:
  assumes "longs_ok model es longs" and "set ids \<subseteq> set seq" and "starts model es {} (mInit model) seq"
  obtains longs' where "updateLongest seq ids longs = Some longs'" and "longs_ok model es longs'"
  using assms(1,2)
proof (induction ids arbitrary: longs thesis)
  case (Cons i ids)
  have "i \<in> op_ids es" using Cons.prems(3) starts_distinct [OF assms(3)] by auto
  then have i: "0 \<le> i" "i < int (length longs)" using Cons.prems(2) by (auto simp: op_ids_def longs_ok_def)
  let ?new = "if longs ! nat i = None \<or> length seq > length (the (longs ! nat i))
              then longs[nat i := Some seq] else longs"
  have "updateLongest seq (i # ids) longs = updateLongest seq ids ?new"
    using i by (simp add: slice_get_nth slice_set_Some)
  moreover have "longs_ok model es ?new"
    using Cons.prems(2,3) assms(3) i by (auto simp: longs_ok_def nth_list_update)
  ultimately show ?case using Cons.IH [of ?new] Cons.prems by auto
qed simp

section \<open>Turns of the loop\<close>

lemma callsSeq_starts:
  assumes wf: "wf_entries es" and inv: "search_inv model es st"
  shows "starts model es {} (mInit model) (callsSeq st)"
    and "set (callsSeq st) = stack_ids es (rev (s_calls st))"
proof -
  have addr: "fst c < length es" if "stack_ok model es rc s" "c \<in> set rc" for rc s c
    using that
  proof (induction rc arbitrary: s)
    case (Cons c' rc)
    then show ?case using remaining_set [of "fst c'" es "stack_ids es rc"] by auto
  qed simp
  have "n_id (s_heap st (fst c)) = e_id (rev es ! fst c)" if "c \<in> set (s_calls st)" for c
    using search_inv_heap(2) [OF inv] addr [of "rev (s_calls st)" "s_state st" c] inv that
    by (simp add: search_inv_def holds_entries_def entry_at_def)
  then have eq: "callsSeq st = rev (map (\<lambda>c. e_id (rev es ! fst c)) (rev (s_calls st)))"
    by (simp add: callsSeq_def rev_map)
  show "starts model es {} (mInit model) (callsSeq st)"
    unfolding eq using stack_starts [OF wf, of model "rev (s_calls st)" "s_state st"] inv
    by (simp add: search_inv_def)
  show "set (callsSeq st) = stack_ids es (rev (s_calls st))"
    unfolding eq by (simp add: stack_ids_def)
qed

lemma backtrack_inv:
  assumes wf: "wf_entries es" and inv: "search_inv model es st" and ne: "s_calls st \<noteq> []"
    and nowhere: "\<not> can_finish model es (stack_ids es (rev (s_calls st))) (s_state st)"
  obtains st' where "backtrack computePartial st = Some st'" and "search_inv model es st'"
    and "measure_less (search_measure model es st') (search_measure model es st)"
proof -
  obtain cs p s0 where cs: "s_calls st = cs @ [(p, s0)]" using ne by (metis rev_exhaust surj_pair)
  have lk: "longs_ok model es (s_longest st)" using inv by (simp add: search_inv_def)
  obtain upd where upd: "updateLongest (callsSeq st) (callsSeq st) (s_longest st) = Some upd"
    "longs_ok model es upd"
    by (rule updateLongest_ok [OF lk order_refl callsSeq_starts(1) [OF wf inv]])
  define longs where "longs = (if computePartial then upd else s_longest st)"
  have longs: "(if computePartial then updateLongest (callsSeq st) (callsSeq st) (s_longest st)
      else Some (s_longest st)) = Some longs" "longs_ok model es longs"
    using upd lk by (simp_all add: longs_def)
  obtain b h q where new: "clear_bitset (s_linearized st) (go_uint (e_id (rev es ! p))) = Some b"
    "unlift (s_heap st) p = Some h" "n_next (h p) = Some q"
    "search_inv model es (st\<lparr>s_longest := longs, s_state := s0, s_linearized := b,
           s_calls := cs, s_heap := h, s_entry := Some q\<rparr>)"
    using pop_inv [OF wf inv cs nowhere longs(2)] by blast
  have "p < length es"
    using inv remaining_set [of p es "stack_ids es (rev cs)"] by (auto simp: search_inv_def cs)
  then have "n_id (s_heap st p) = e_id (rev es ! p)"
    using search_inv_heap(2) [OF inv] by (simp add: holds_entries_def entry_at_def)
  then have "backtrack computePartial st = Some (st\<lparr>s_longest := longs, s_state := s0,
      s_linearized := b, s_calls := cs, s_heap := h, s_entry := Some q\<rparr>)"
    unfolding backtrack_def longs(1) using new(1-3) by (simp add: cs)
  then show thesis using that new(4) by (simp add: search_measure_def cs)
qed

text \<open>An operation that leads to a cached configuration leads nowhere.\<close>

lemma cached_nowhere:
  assumes wf: "wf_entries es" and inv: "search_inv model es st"
    and "i \<notin> stack_ids es (rev (s_calls st))"
    and "(insert i (stack_ids es (rev (s_calls st))), s) \<in> cached (s_cache st)"
  shows "\<not> can_finish model es (insert i (stack_ids es (rev (s_calls st)))) s"
proof -
  let ?L = "stack_ids es (rev (s_calls st))"
  have ck: "cache_ok model es (stack_confs es (rev (s_calls st)) (s_state st)) (s_cache st)"
    and so: "stack_ok model es (rev (s_calls st)) (s_state st)"
    using inv by (auto simp: search_inv_def)
  have "card (insert i ?L) = Suc (length (s_calls st))"
    using stack_bound(2) [OF wf so] assms(3) by (simp add: stack_ids_def)
  then have "(insert i ?L, s) \<notin> stack_confs es (rev (s_calls st)) (s_state st)"
    using confs_card [OF wf so, of "insert i ?L" s] by auto
  then show ?thesis using ck assms(4) unfolding cache_ok_def by blast
qed

text \<open>The step of an operation is the model's step on the values of its two nodes.\<close>

lemma node_step:
  assumes wf: "wf_entries es" and holds: "holds_entries h (rev es)" and p: "p < length es"
    and call: "\<not> e_kind (rev es ! p)" and mt: "n_match (h p) = Some m"
  shows "model_step model s (n_value (h p)) (n_value (h m)) = op_step model es s (e_id (rev es ! p))"
    and "op_step model es s (e_id (rev es ! p)) \<noteq> None"
proof -
  have m: "m < p" "e_kind (rev es ! m)" "e_id (rev es ! m) = e_id (rev es ! p)"
    using addr_match [OF wf holds p call] mt by auto
  have vals: "n_value (h p) = e_value (rev es ! p)" "n_value (h m) = e_value (rev es ! m)"
    using holds p m(1) by (auto simp: holds_entries_def entry_at_def)
  show step: "model_step model s (n_value (h p)) (n_value (h m)) = op_step model es s (e_id (rev es ! p))"
    using entry_value_addr [OF wf p] entry_value_addr [OF wf, of m] call m p
    by (simp add: vals op_step_def)
  have "rev es ! p \<in> set es" "rev es ! m \<in> set es"
    using p m(1) nth_mem [of p "rev es"] nth_mem [of m "rev es"] by simp_all
  then obtain x y where "e_value (rev es ! p) = Input x" "e_value (rev es ! m) = Output y"
    using wf call m(2) unfolding wf_entries_def by meson
  then show "op_step model es s (e_id (rev es ! p)) \<noteq> None" unfolding step [symmetric] vals by simp
qed

lemma tryCall_inv:
  assumes wf: "wf_entries es" and eq: "equal_ok model" and inv: "search_inv model es st"
    and rem: "remaining es (stack_ids es (rev (s_calls st))) = A @ p # B"
    and tried: "tried model es (stack_ids es (rev (s_calls st))) (s_state st) A"
    and entry: "s_entry st = Some p"
    and call: "\<not> e_kind (rev es ! p)" and mt: "n_match (s_heap st p) = Some m"
  obtains st' where "tryCall model (length es) p m st = Some st'" and "search_inv model es st'"
    and "measure_less (search_measure model es st') (search_measure model es st)"
proof -
  let ?i = "e_id (rev es ! p)" and ?L = "stack_ids es (rev (s_calls st))"
  have p: "p < length es" "?i \<notin> ?L" using remaining_set [of p es ?L] rem by auto
  have ident: "n_id (s_heap st p) = ?i"
    using search_inv_heap(2) [OF inv] p(1) by (auto simp: holds_entries_def entry_at_def)
  note step = node_step [OF wf search_inv_heap(2) [OF inv] p(1) call mt]
  obtain ok s' where os: "op_step model es (s_state st) ?i = Some (ok, s')"
    using step(2) [of model "s_state st"] by auto
  obtain b where b: "set_bitset (s_linearized st) (go_uint ?i) = Some b" "bits_ok es b (insert ?i ?L)"
    using bits_set [OF wf _ addr_id [OF wf p(1)], of "s_linearized st" ?L] inv
    by (auto simp: search_inv_def)
  have ck: "cache_ok model es (stack_confs es (rev (s_calls st)) (s_state st)) (s_cache st)"
    using inv by (auto simp: search_inv_def)
  have found: "cacheContains model (s_cache st) (b, s') = Some ((insert ?i ?L, s') \<in> cached (s_cache st))"
    by (rule cacheContains_eq [OF eq ck b(2)])
  show thesis
  proof (cases "ok \<and> (insert ?i ?L, s') \<notin> cached (s_cache st)")
    case True
    then have T: "ok" "(insert ?i ?L, s') \<notin> cached (s_cache st)"
      and os': "op_step model es (s_state st) ?i = Some (True, s')" using os by simp_all
    obtain h where h: "lift (s_heap st) p = Some h" and inv': "search_inv model es
      (st\<lparr>s_cache := fmupd (hash_bitset b) (map_get [] (s_cache st) (hash_bitset b) @ [(b, s')]) (s_cache st),
          s_calls := s_calls st @ [(p, s_state st)], s_state := s', s_linearized := b, s_heap := h,
          s_entry := n_next (h (length es))\<rparr>)" (is "search_inv model es ?st'")
      by (rule push_inv [OF wf inv rem tried call os' b(2) T(2)])
    have eq': "tryCall model (length es) p m st = Some ?st'"
      unfolding tryCall_def step(1) os using T b(1) found h by (simp add: ident Let_def)
    have "(insert ?i ?L, s') \<in> search_space model es"
    proof -
      have "cached (s_cache ?st') \<subseteq> search_space model es" using inv' by (simp add: search_inv_def cache_ok_def)
      then show ?thesis by (simp add: cached_insert [OF b(2)])
    qed
    then have "card (search_space model es - cached (s_cache ?st')) < card (search_space model es - cached (s_cache st))"
      using T(2) finite_search_space [of model es]
      by (intro psubset_card_mono) (auto simp: cached_insert [OF b(2)])
    then show thesis using that [OF eq' inv'] by (simp add: search_measure_def)
  next
    case False
    have "dead model es ?L (s_state st) ?i"
      using cached_nowhere [OF wf inv p(2)] False os by (cases ok) (auto simp: dead_def)
    then obtain q where q: "n_next (s_heap st p) = Some q" "q < p" "search_inv model es (st\<lparr>s_entry := Some q\<rparr>)"
      using advance_inv [OF wf inv rem tried call] by blast
    have "tryCall model (length es) p m st = Some (st\<lparr>s_entry := Some q\<rparr>)"
      unfolding tryCall_def step(1) os using False b(1) found q(1) by (auto simp: ident)
    then show thesis using that q entry by (simp add: search_measure_def)
  qed
qed

section \<open>The loop ends with the answer\<close>

lemma remaining_nil:
  assumes "wf_entries es" and "remaining es L = []"
  shows "op_ids es \<subseteq> L"
proof
  fix i assume "i \<in> op_ids es"
  then obtain p where "p < length es" "e_id (rev es ! p) = i"
    using addr_key [OF assms(1), of i True] by blast
  then show "i \<in> L" using remaining_set [of p es L] assms(2) by auto
qed

text \<open>What the loop returns: prefixes of linearizations, and \<open>True\<close> only with a linearization; when
  it is not killed, \<open>True\<close> exactly when there is one.\<close>

definition answer :: "('s, 'i, 'o) Model \<Rightarrow> ('i, 'o) entry list \<Rightarrow> (nat \<Rightarrow> bool) \<Rightarrow>
    (bool \<times> int list option list) option \<Rightarrow> bool" where
  "answer model es kill result \<longleftrightarrow>
     (\<exists>ok longs. result = Some (ok, longs) \<and> longs_ok model es longs \<and>
        (ok \<longrightarrow> (\<exists>\<sigma>. extends model es {} (mInit model) \<sigma> \<and> set longs \<subseteq> {Some \<sigma>})) \<and>
        ((\<forall>k. \<not> kill k) \<longrightarrow> ok = can_finish model es {} (mInit model)))"

lemma turn_done:
  assumes wf: "wf_entries es" and inv: "search_inv model es st"
    and nil: "remaining es (stack_ids es (rev (s_calls st))) = []"
  shows "answer model es kill (checkLoop model computePartial kill (length es) st)"
proof -
  let ?\<sigma> = "callsSeq st"
  have "n_next (s_heap st (length es)) = None"
    using search_inv_heap(1) [OF inv] nil by (simp add: dlist_def)
  then have run: "checkLoop model computePartial kill (length es) st =
      Some (True, map (\<lambda>_. Some ?\<sigma>) (s_longest st))"
    by (simp add: checkLoop.simps [of model computePartial kill "length es" st])
  have ext: "extends model es {} (mInit model) ?\<sigma>"
    using starts_extends [OF callsSeq_starts(1) [OF wf inv]] callsSeq_starts(2) [OF wf inv]
      remaining_nil [OF wf nil] by simp
  have "int i \<in> set ?\<sigma>" if "i < length es div 2" for i
    using that callsSeq_starts(2) [OF wf inv] remaining_nil [OF wf nil] by (auto simp: op_ids_def)
  then have "longs_ok model es (map (\<lambda>_. Some ?\<sigma>) (s_longest st))"
    using inv callsSeq_starts(1) [OF wf inv] by (auto simp: longs_ok_def search_inv_def)
  moreover have "\<exists>\<sigma>. extends model es {} (mInit model) \<sigma> \<and> set (map (\<lambda>_. Some ?\<sigma>) (s_longest st)) \<subseteq> {Some \<sigma>}"
    using ext by auto
  moreover have "can_finish model es {} (mInit model)" using ext by (auto simp: can_finish_def)
  ultimately show ?thesis unfolding answer_def run by blast
qed

lemma turn_next:
  assumes wf: "wf_entries es" and eq: "equal_ok model" and inv: "search_inv model es st"
    and cons: "remaining es (stack_ids es (rev (s_calls st))) \<noteq> []"
  shows "answer model es kill (checkLoop model computePartial kill (length es) st) \<or>
    (\<exists>st'. checkLoop model computePartial kill (length es) st =
        checkLoop model computePartial kill (length es) (st'\<lparr>s_turn := s_turn st + 1\<rparr>) \<and>
      search_inv model es st' \<and> measure_less (search_measure model es st') (search_measure model es st))"
proof -
  let ?L = "stack_ids es (rev (s_calls st))"
  note turn = checkLoop.simps [of model computePartial kill "length es" st]
  obtain x xs where "remaining es ?L = x # xs" using cons by (cases "remaining es ?L") auto
  then have nx: "n_next (s_heap st (length es)) = Some x"
    using search_inv_heap(1) [OF inv] by (simp add: dlist_def)
  obtain A p B where rem: "remaining es ?L = A @ p # B" and entry: "s_entry st = Some p"
    and tried: "tried model es ?L (s_state st) A"
    using inv cons by (auto simp: search_inv_def at_entry_def)
  have p: "p < length es" using remaining_set [of p es ?L] rem by simp
  have longs: "longs_ok model es (s_longest st)" using inv by (simp add: search_inv_def)
  consider "kill (s_turn st)" | "\<not> kill (s_turn st)" "e_kind (rev es ! p)" "s_calls st = []"
    | "\<not> kill (s_turn st)" "e_kind (rev es ! p)" "s_calls st \<noteq> []"
    | "\<not> kill (s_turn st)" "\<not> e_kind (rev es ! p)" by blast
  then show ?thesis
  proof cases
    case 1
    then show ?thesis using longs nx by (auto simp: answer_def turn)
  next
    case 2
    then have mt: "n_match (s_heap st p) = None"
      using search_inv_heap(2) [OF inv] p by (simp add: holds_entries_def entry_at_def)
    have "\<not> can_finish model es {} (mInit model)"
      using return_dead [OF wf rem tried 2(2)] inv 2(3) by (simp add: search_inv_def)
    moreover have "checkLoop model computePartial kill (length es) st = Some (False, s_longest st)"
      using nx 2 entry mt by (simp add: turn)
    ultimately show ?thesis using longs unfolding answer_def by blast
  next
    case 3
    then have mt: "n_match (s_heap st p) = None"
      using search_inv_heap(2) [OF inv] p by (simp add: holds_entries_def entry_at_def)
    obtain st' where "backtrack computePartial st = Some st'" "search_inv model es st'"
      "measure_less (search_measure model es st') (search_measure model es st)"
      by (rule backtrack_inv [OF wf inv 3(3) return_dead [OF wf rem tried 3(2)]])
    then show ?thesis using nx 3 entry mt by (intro disjI2 exI [of _ st']) (simp add: turn)
  next
    case 4
    obtain m where mt: "n_match (s_heap st p) = Some m"
      using addr_match [OF wf search_inv_heap(2) [OF inv] p 4(2)] by blast
    obtain st' where "tryCall model (length es) p m st = Some st'" "search_inv model es st'"
      "measure_less (search_measure model es st') (search_measure model es st)"
      by (rule tryCall_inv [OF wf eq inv rem tried entry 4(2) mt])
    then show ?thesis using nx 4 entry mt by (intro disjI2 exI [of _ st']) (simp add: turn)
  qed
qed

lemma checkLoop_answer:
  assumes wf: "wf_entries es" and eq: "equal_ok model" and inv: "search_inv model es st"
  shows "answer model es kill (checkLoop model computePartial kill (length es) st)"
proof -
  let ?R = "inv_image (less_than <*lex*> less_than <*lex*> less_than) (search_measure model es)"
  have "Wellfounded.wf ?R" by auto
  then show ?thesis using inv
  proof (induction st rule: wf_induct_rule)
    case (less st)
    show ?case
    proof (cases "remaining es (stack_ids es (rev (s_calls st))) = []")
      case True
      then show ?thesis by (rule turn_done [OF wf less.prems])
    next
      case False
      from turn_next [OF wf eq less.prems False, of kill computePartial] show ?thesis
      proof (elim disjE exE conjE)
        fix st' assume run: "checkLoop model computePartial kill (length es) st =
            checkLoop model computePartial kill (length es) (st'\<lparr>s_turn := s_turn st + 1\<rparr>)"
          and "search_inv model es st'" "measure_less (search_measure model es st') (search_measure model es st)"
        then show ?thesis
          unfolding run by (intro less.IH) (simp_all add: search_inv_def search_measure_def)
      qed
    qed
  qed
qed

lemma checkSingle_answer:
  assumes wf: "wf_entries es" and eq: "equal_ok model"
  shows "answer model es kill (checkSingle model es computePartial kill)"
proof -
  obtain h where h: "dlist h (length es # rev [0..<length es])" "holds_entries h (rev es)"
    and run: "checkSingle model es computePartial kill =
      checkLoop model computePartial kill (length es)
        \<lparr>s_heap = h, s_entry = (if es = [] then None else Some (length es - 1)),
         s_linearized = newBitset (length es div 2), s_cache = fmempty, s_calls = [],
         s_longest = replicate (length es div 2) None, s_state = mInit model, s_turn = 0\<rparr>"
    (is "_ = checkLoop _ _ _ _ ?st")
    by (rule checkSingle_start)
  have rem: "remaining es {} = rev [0..<length es]" by (simp add: remaining_def)
  have "at_entry model es {} (mInit model) (s_entry ?st)"
  proof (cases "length es")
    case (Suc k)
    then have "remaining es {} = [] @ k # rev [0..<k]" by (simp add: rem)
    moreover have "s_entry ?st = Some k" using Suc by auto
    moreover have "tried model es {} (mInit model) []" by (simp add: tried_def)
    ultimately show ?thesis unfolding at_entry_def by blast
  qed (simp add: at_entry_def remaining_def)
  then have "search_inv model es ?st"
    using h rem by (auto simp: search_inv_def heap_ok_def cache_ok_def bits_ok_def longs_ok_def cached_def map_get_empty)
  then show ?thesis unfolding run by (rule checkLoop_answer [OF wf eq])
qed

end
