(* ===== verification/Porcupine_Ops.thy ===== *)
theory Porcupine_Ops
  imports Porcupine_Loop
begin

text \<open>
  From entries back to operations. \<open>makeEntries\<close> yields a history every operation of which has a
  call and a later return, and one operation precedes another there exactly when its return time
  is before the other's call time; so \<open>checkSingle\<close> decides linearizability of the operations.
\<close>

section \<open>Linearizability\<close>

fun accepts :: "('s \<Rightarrow> 'i \<Rightarrow> 'o \<Rightarrow> bool \<times> 's) \<Rightarrow> 's \<Rightarrow> ('i, 'o) Operation list \<Rightarrow> bool" where
  "accepts step s [] \<longleftrightarrow> True"
| "accepts step s (v # ops) \<longleftrightarrow>
     fst (step s (opInput v) (opOutput v)) \<and> accepts step (snd (step s (opInput v) (opOutput v))) ops"

text \<open>No operation stands before one that returned before it was called.\<close>

definition real_time :: "('i, 'o) Operation list \<Rightarrow> bool" where
  "real_time ops \<longleftrightarrow> sorted_wrt (\<lambda>a b. \<not> opReturn b < opCall a) ops"

definition linearizable :: "('s \<Rightarrow> 'i \<Rightarrow> 'o \<Rightarrow> bool \<times> 's) \<Rightarrow> 's \<Rightarrow> ('i, 'o) Operation list \<Rightarrow> bool" where
  "linearizable step init history \<longleftrightarrow>
     (\<exists>ops. mset ops = mset history \<and> real_time ops \<and> accepts step init ops)"

text \<open>A permutation of a list is a permutation of its indices.\<close>

lemma mset_eq_indices:
  assumes "mset ys = mset xs"
  shows "\<exists>\<sigma>. distinct \<sigma> \<and> set \<sigma> = {..<length xs} \<and> ys = map ((!) xs) \<sigma>"
  using assms
proof (induction xs arbitrary: ys)
  case (Cons x xs)
  then have "x \<in> set ys" by (metis list.set_intros(1) mset_eq_setD)
  then obtain A B where ys: "ys = A @ x # B" by (auto dest: split_list)
  then have "mset (A @ B) = mset xs" using Cons.prems by simp
  then obtain \<sigma> where \<sigma>: "distinct \<sigma>" "set \<sigma> = {..<length xs}" "A @ B = map ((!) xs) \<sigma>"
    using Cons.IH by blast
  then obtain P Q where PQ: "\<sigma> = P @ Q" "A = map ((!) xs) P" "B = map ((!) xs) Q"
    by (auto simp: append_eq_map_conv)
  let ?\<tau> = "map Suc P @ 0 # map Suc Q"
  have "map ((!) (x # xs)) ?\<tau> = ys" using PQ ys by (simp add: comp_def)
  moreover have "distinct ?\<tau>" using \<sigma>(1) PQ(1) by (auto simp: distinct_map)
  moreover have "set ?\<tau> = {..<length (x # xs)}"
  proof -
    have "set ?\<tau> = insert 0 (Suc ` set \<sigma>)" using PQ(1) by auto
    then show ?thesis unfolding \<sigma>(2) by (simp add: lessThan_Suc_eq_insert_0)
  qed
  ultimately show ?case by blast
qed simp

lemma mset_indices:
  assumes "distinct \<sigma>" and "set \<sigma> = {..<length xs}"
  shows "mset (map ((!) xs) \<sigma>) = mset xs"
proof -
  have "mset \<sigma> = mset [0..<length xs]"
    using assms set_eq_iff_mset_eq_distinct [of \<sigma> "[0..<length xs]"] by (simp add: atLeast0LessThan)
  then have "mset (map ((!) xs) \<sigma>) = mset (map ((!) xs) [0..<length xs])" by (simp only: mset_map)
  then show ?thesis by (simp only: map_nth)
qed

section \<open>The entries of operations\<close>

abbreviation (input) call_of :: "int \<Rightarrow> ('i, 'o) Operation \<Rightarrow> ('i, 'o) entry" where
  "call_of i v \<equiv> \<lparr>e_kind = callEntry, e_value = Input (opInput v), e_id = i, e_time = opCall v,
                  e_clientId = opClientId v\<rparr>"

abbreviation (input) return_of :: "int \<Rightarrow> ('i, 'o) Operation \<Rightarrow> ('i, 'o) entry" where
  "return_of i v \<equiv> \<lparr>e_kind = returnEntry, e_value = Output (opOutput v), e_id = i,
                    e_time = opReturn v, e_clientId = opClientId v\<rparr>"

lemma operationEntries_set:
  "e \<in> set (operationEntries k history) \<longleftrightarrow>
   (\<exists>j < length history. e = call_of (k + int j) (history ! j) \<or> e = return_of (k + int j) (history ! j))"
proof (induction history arbitrary: k)
  case (Cons v history)
  show ?case unfolding operationEntries.simps list.set insert_iff Cons.IH
    by (simp add: Ex_less_Suc2 algebra_simps)
qed simp

lemma operationEntries_keys:
  "distinct (map (\<lambda>e. (e_kind e, e_id e)) (operationEntries k history))"
  "set (map (\<lambda>e. (e_kind e, e_id e)) (operationEntries k history)) = UNIV \<times> {k ..< k + int (length history)}"
  "length (operationEntries k history) = 2 * length history"
  by (induction history arbitrary: k) (auto simp: UNIV_bool)

text \<open>What holds of the entries of a history of operations that return after they are called.\<close>

definition proper :: "('i, 'o) Operation list \<Rightarrow> bool" where
  "proper history \<longleftrightarrow> (\<forall>v \<in> set history. opCall v \<le> opReturn v) \<and> length history < 2 ^ 63"

lemma makeEntries_elem:
  assumes "sorts_by_time srt"
  shows "e \<in> set (makeEntries srt history) \<longleftrightarrow>
    (\<exists>j < length history. e = call_of (int j) (history ! j) \<or> e = return_of (int j) (history ! j))"
proof -
  have "mset (makeEntries srt history) = mset (operationEntries 0 history)"
    using assms unfolding sorts_by_time_def makeEntries_def by blast
  then have "set (makeEntries srt history) = set (operationEntries 0 history)" by (rule mset_eq_setD)
  then show ?thesis by (simp add: operationEntries_set)
qed

lemma makeEntries_length:
  assumes "sorts_by_time srt"
  shows "length (makeEntries srt history) = 2 * length history"
proof -
  have "mset (makeEntries srt history) = mset (operationEntries 0 history)"
    using assms unfolding sorts_by_time_def makeEntries_def by blast
  then show ?thesis using mset_eq_length operationEntries_keys(3) by metis
qed

lemma makeEntries_ids:
  "sorts_by_time srt \<Longrightarrow> op_ids (makeEntries srt history) = int ` {..<length history}"
  by (auto simp: op_ids_def makeEntries_length image_iff intro!: bexI [of _ "nat _"])

lemma makeEntries_time:
  assumes "sorts_by_time srt" and "r < c" and "c < length (makeEntries srt history)"
  shows "\<not> byTime_Less (makeEntries srt history ! c) (makeEntries srt history ! r)"
proof -
  have "sorted_wrt (\<lambda>a b. \<not> byTime_Less b a) (makeEntries srt history)"
    using assms(1) unfolding sorts_by_time_def makeEntries_def by blast
  then show ?thesis using assms(2,3) by (simp add: sorted_wrt_iff_nth_less)
qed

lemma makeEntries_wf:
  assumes srt: "sorts_by_time srt" and "proper history"
  shows "wf_entries (makeEntries srt history)"
proof -
  let ?es = "makeEntries srt history" and ?key = "\<lambda>e :: ('a, 'b) entry. (e_kind e, e_id e)"
  have ms: "mset (map ?key ?es) = mset (map ?key (operationEntries 0 history))"
    using srt unfolding sorts_by_time_def makeEntries_def by (metis mset_map)
  have "distinct (map ?key ?es)"
    using ms operationEntries_keys(1) by (metis mset_eq_imp_distinct_iff)
  moreover have "set (map ?key ?es) = UNIV \<times> op_ids ?es"
    using mset_eq_setD [OF ms] operationEntries_keys(2) [of 0 history]
    by (simp only: op_ids_def makeEntries_length [OF srt]) simp
  moreover have "c < r" if cr: "c < length ?es" "r < length ?es" "\<not> e_kind (?es ! c)" "e_kind (?es ! r)"
    "e_id (?es ! c) = e_id (?es ! r)" for c r
  proof (rule ccontr)
    assume "\<not> c < r"
    moreover have "c \<noteq> r" using cr(3,4) by auto
    ultimately have nl: "\<not> byTime_Less (?es ! c) (?es ! r)" using makeEntries_time [OF srt, of r c] cr by simp
    obtain i where i: "i < length history" "?es ! c = call_of (int i) (history ! i)"
      using makeEntries_elem [OF srt, of "?es ! c"] nth_mem [OF cr(1)] cr(3) by auto
    obtain j where j: "?es ! r = return_of (int j) (history ! j)"
      using makeEntries_elem [OF srt, of "?es ! r"] nth_mem [OF cr(2)] cr(4) by auto
    have "opCall (history ! i) \<le> opReturn (history ! i)" using assms(2) i(1) by (simp add: proper_def)
    then show False using nl i j cr(5) by (auto simp: byTime_Less_def split: if_splits)
  qed
  moreover have "if e_kind e then \<exists>out. e_value e = Output out else \<exists>i. e_value e = Input i" if "e \<in> set ?es" for e
    using that makeEntries_elem [OF srt, of e] by auto
  ultimately show ?thesis
    using assms(2) by (simp add: wf_entries_def makeEntries_length [OF srt] proper_def)
qed

lemma makeEntries_value:
  assumes "sorts_by_time srt" and "i < length history"
  shows "entry_value k (makeEntries srt history) (int i) =
    (if k then Output (opOutput (history ! i)) else Input (opInput (history ! i)))"
proof -
  let ?P = "\<lambda>e. e_kind e = k \<and> e_id e = int i"
  have mem: "(if k then return_of (int i) (history ! i) else call_of (int i) (history ! i))
      \<in> set (makeEntries srt history)"
    using makeEntries_elem [OF assms(1)] assms(2) by auto
  have "find ?P (makeEntries srt history) \<noteq> None"
    unfolding find_None_iff using mem by (auto split: if_splits intro: bexI [rotated])
  then obtain e where e: "find ?P (makeEntries srt history) = Some e" by blast
  then have "e \<in> set (makeEntries srt history)" "?P e" by (auto simp: find_Some_iff)
  then have "e_value e = (if k then Output (opOutput (history ! i)) else Input (opInput (history ! i)))"
    using makeEntries_elem [OF assms(1), of e] by auto
  then show ?thesis by (simp add: entry_value_def e)
qed

lemma makeEntries_precedes:
  assumes srt: "sorts_by_time srt" and "a < length history" and "b < length history"
  shows "precedes (makeEntries srt history) (int a) (int b) \<longleftrightarrow> opReturn (history ! a) < opCall (history ! b)"
proof
  let ?es = "makeEntries srt history"
  assume "precedes ?es (int a) (int b)"
  then obtain r c where rc: "r < c" "c < length ?es" "e_kind (?es ! r)" "e_id (?es ! r) = int a"
    "\<not> e_kind (?es ! c)" "e_id (?es ! c) = int b" by (auto simp: precedes_def)
  have "?es ! r = return_of (int a) (history ! a)" "?es ! c = call_of (int b) (history ! b)"
    using makeEntries_elem [OF srt, of "?es ! r"] makeEntries_elem [OF srt, of "?es ! c"]
      nth_mem [of r ?es] nth_mem [of c ?es] rc by auto
  then show "opReturn (history ! a) < opCall (history ! b)"
    using makeEntries_time [OF srt rc(1,2)] by (auto simp: byTime_Less_def split: if_splits)
next
  let ?es = "makeEntries srt history"
  assume less: "opReturn (history ! a) < opCall (history ! b)"
  obtain r where r: "r < length ?es" "?es ! r = return_of (int a) (history ! a)"
    using makeEntries_elem [OF srt, of "return_of (int a) (history ! a)" history] assms(2)
    by (auto simp: in_set_conv_nth)
  obtain c where c: "c < length ?es" "?es ! c = call_of (int b) (history ! b)"
    using makeEntries_elem [OF srt, of "call_of (int b) (history ! b)" history] assms(3)
    by (auto simp: in_set_conv_nth)
  have "r \<noteq> c" using r c by auto
  moreover have "\<not> c < r" using makeEntries_time [OF srt _ r(1), of c] less r c by (auto simp: byTime_Less_def)
  ultimately have "r < c" by simp
  then show "precedes ?es (int a) (int b)"
    unfolding precedes_def using r c by (intro exI conjI) (assumption | simp)+
qed

section \<open>The checker decides linearizability of one partition\<close>

lemma op_run_accepts:
  assumes "sorts_by_time srt" and "set \<sigma> \<subseteq> {..<length history}"
  shows "op_run model (makeEntries srt history) s (map int \<sigma>) \<noteq> None \<longleftrightarrow>
    accepts (mStep model) s (map ((!) history) \<sigma>)"
  using assms(2)
proof (induction \<sigma> arbitrary: s)
  case (Cons i \<sigma>)
  let ?r = "mStep model s (opInput (history ! i)) (opOutput (history ! i))"
  have "op_step model (makeEntries srt history) s (int i) = Some (fst ?r, snd ?r)"
    using Cons.prems by (simp add: op_step_def makeEntries_value [OF assms(1)])
  then show ?case using Cons by (cases "fst ?r") simp_all
qed simp

lemma linearization_ops:
  assumes srt: "sorts_by_time srt" and "distinct \<sigma>" and "set \<sigma> = {..<length history}"
  shows "linearization model (makeEntries srt history) (map int \<sigma>) \<longleftrightarrow>
    real_time (map ((!) history) \<sigma>) \<and> accepts (mStep model) (mInit model) (map ((!) history) \<sigma>)"
proof -
  have "precedes (makeEntries srt history) (int (\<sigma> ! j)) (int (\<sigma> ! i)) \<longleftrightarrow>
      opReturn (history ! (\<sigma> ! j)) < opCall (history ! (\<sigma> ! i))"
    if "i < length \<sigma>" "j < length \<sigma>" for i j
    using assms(3) nth_mem [OF that(1)] nth_mem [OF that(2)] by (intro makeEntries_precedes [OF srt]) auto
  then have "sorted_wrt (\<lambda>a b. \<not> precedes (makeEntries srt history) b a) (map int \<sigma>) \<longleftrightarrow>
      real_time (map ((!) history) \<sigma>)"
    by (auto simp: real_time_def sorted_wrt_map sorted_wrt_iff_nth_less)
  then show ?thesis
    using assms op_run_accepts [OF srt, of \<sigma> history model "mInit model"]
    by (simp add: linearization_def makeEntries_ids [OF srt] distinct_map)
qed

lemma linearizable_iff:
  assumes srt: "sorts_by_time srt"
  shows "linearizable (mStep model) (mInit model) history \<longleftrightarrow>
    (\<exists>\<sigma>. linearization model (makeEntries srt history) \<sigma>)"
proof
  assume "linearizable (mStep model) (mInit model) history"
  then obtain ops where ops: "mset ops = mset history" "real_time ops" "accepts (mStep model) (mInit model) ops"
    by (auto simp: linearizable_def)
  then obtain \<sigma> where "distinct \<sigma>" "set \<sigma> = {..<length history}" "ops = map ((!) history) \<sigma>"
    using mset_eq_indices by blast
  then show "\<exists>\<sigma>. linearization model (makeEntries srt history) \<sigma>"
    using linearization_ops [OF srt] ops by blast
next
  assume "\<exists>\<sigma>. linearization model (makeEntries srt history) \<sigma>"
  then obtain \<sigma> where lin: "linearization model (makeEntries srt history) \<sigma>" by blast
  then have d: "distinct \<sigma>" and s: "set \<sigma> = int ` {..<length history}"
    by (simp_all add: linearization_def makeEntries_ids [OF srt])
  have eq: "map int (map nat \<sigma>) = \<sigma>" using s by (auto intro!: map_idI)
  have "distinct (map nat \<sigma>)" using d s by (auto simp: distinct_map inj_on_def)
  moreover have "set (map nat \<sigma>) = {..<length history}" using s by (simp add: image_image)
  ultimately show "linearizable (mStep model) (mInit model) history"
    using linearization_ops [OF srt, of "map nat \<sigma>" history model] lin mset_indices [of "map nat \<sigma>" history]
    unfolding eq linearizable_def by blast
qed

lemma checkSingle_linearizable:
  assumes "sorts_by_time srt" and "equal_ok model" and "proper history"
  obtains longs where "checkSingle model (makeEntries srt history) computePartial (\<lambda>_. False) =
    Some (linearizable (mStep model) (mInit model) history, longs)"
  using checkSingle_answer [OF makeEntries_wf [OF assms(1,3)] assms(2), of "\<lambda>_. False" computePartial]
    can_finish_linearizable [OF makeEntries_wf [OF assms(1,3)], of model]
    linearizable_iff [OF assms(1), of model history]
  unfolding answer_def by auto

section \<open>All partitions\<close>

lemma collect_all:
  assumes srt: "sorts_by_time srt" and eq: "equal_ok model"
    and proper: "\<forall>sub \<in> set parts. proper sub"
    and "set order \<subseteq> {..<length parts}" and "order \<noteq> []" and "cnt + length order = length parts"
    and "ok \<or> computeInfo"
  shows "collect model (map (makeEntries srt) parts) computeInfo ok cnt (map Result order) =
    Some (ok \<and> (\<forall>i \<in> set order. linearizable (mStep model) (mInit model) (parts ! i)), False)"
  using assms(4-)
proof (induction order arbitrary: ok cnt)
  case (Cons i order)
  let ?lin = "\<lambda>i. linearizable (mStep model) (mInit model) (parts ! i)"
  have i: "i < length parts" using Cons.prems(1) by simp
  obtain longs where run: "checkSingle model (makeEntries srt (parts ! i)) computeInfo (\<lambda>_. False) =
      Some (?lin i, longs)"
    using checkSingle_linearizable [OF srt eq, of "parts ! i" computeInfo] proper i by auto
  have get: "slice_get (map (makeEntries srt) parts) (int i) = Some (makeEntries srt (parts ! i))"
    using i by (simp add: slice_get_nat)
  show ?case
  proof (cases "order = []")
    case True
    then show ?thesis using Cons.prems by (auto simp: get run Let_def)
  next
    case False
    then have "length parts > Suc cnt" using Cons.prems(3) by (cases order) auto
    then show ?thesis using Cons.IH [of "Suc cnt" "ok \<and> ?lin i"] Cons.prems False
      by (auto simp: get run Let_def)
  qed
qed simp

end
