(* ===== verification/Porcupine_Kv.thy ===== *)
theory Porcupine_Kv
  imports Porcupine_Ops
begin

text \<open>
  The checker on \<open>KvModel\<close>, which checks every key on its own. That is enough: a history of the
  store is linearizable exactly when its operations on each key are, since operations on different
  keys can be merged by giving each one a point in time between its call and its return.
\<close>

section \<open>The store and its keys\<close>

abbreviation (input) op_key :: "(KvInput, KvOutput) Operation \<Rightarrow> string" where
  "op_key v \<equiv> inKey (opInput v)"

text \<open>The key/value store as a whole: the model's step on the value of the key.\<close>

definition kv_store_step :: "(string \<Rightarrow> string) \<Rightarrow> KvInput \<Rightarrow> KvOutput \<Rightarrow> bool \<times> (string \<Rightarrow> string)" where
  "kv_store_step store inp out =
     (let r = KvModel_Step (store (inKey inp)) inp out in (fst r, store(inKey inp := snd r)))"

text \<open>\<open>keys\<close> is the order in which the loop over the map of partitions yields the keys.\<close>

definition KvModel ::
  "((KvInput, KvOutput) Operation list \<Rightarrow> string list) \<Rightarrow> (string, KvInput, KvOutput) Model" where
  "KvModel keys =
     \<lparr>mPartition = Some (\<lambda>history. KvModel_Partition (keys history) history), mPartitionEvent = None,
      mInit = KvModel_Init, mStep = KvModel_Step, mEqual = None\<rparr>"

definition enumerates_keys :: "((KvInput, KvOutput) Operation list \<Rightarrow> string list) \<Rightarrow> bool" where
  "enumerates_keys keys \<longleftrightarrow>
     (\<forall>h. distinct (keys h) \<and> set (keys h) = fmdom' (groupByKey h))"

lemma accepts_store:
  "accepts kv_store_step store ops \<longleftrightarrow>
   (\<forall>k. accepts KvModel_Step (store k) (filter (\<lambda>v. op_key v = k) ops))"
proof (induction ops arbitrary: store)
  case (Cons v ops)
  let ?r = "KvModel_Step (store (op_key v)) (opInput v) (opOutput v)"
  have "accepts kv_store_step store (v # ops) \<longleftrightarrow>
      fst ?r \<and> (\<forall>k. accepts KvModel_Step ((store(op_key v := snd ?r)) k) (filter (\<lambda>v. op_key v = k) ops))"
    by (simp add: kv_store_step_def Let_def Cons.IH)
  then show ?case by (auto simp: split: if_splits)
qed simp

section \<open>Points in time\<close>

fun stamps :: "int \<Rightarrow> ('i, 'o) Operation list \<Rightarrow> (int \<times> ('i, 'o) Operation) list" where
  "stamps m [] = []"
| "stamps m (v # vs) = (max m (opCall v), v) # stamps (max m (opCall v)) vs"

lemma stamps_snd [simp]: "map snd (stamps m vs) = vs"
  by (induction vs arbitrary: m) simp_all

lemma stamps_low: "(t, v) \<in> set (stamps m vs) \<Longrightarrow> m \<le> t \<and> opCall v \<le> t"
proof (induction vs arbitrary: m)
  case (Cons w vs)
  then show ?case using Cons.IH [of "max m (opCall w)"] by auto
qed simp

lemma stamps_sorted: "sorted (map fst (stamps m vs))"
proof (induction vs arbitrary: m)
  case (Cons v vs)
  have "max m (opCall v) \<le> fst p" if "p \<in> set (stamps (max m (opCall v)) vs)" for p
    using that stamps_low [of "fst p" "snd p" "max m (opCall v)" vs] by simp
  then show ?case using Cons.IH by simp
qed simp

lemma stamps_high:
  assumes "real_time vs" and "\<And>v. v \<in> set vs \<Longrightarrow> m \<le> opReturn v \<and> opCall v \<le> opReturn v"
    and "(t, v) \<in> set (stamps m vs)"
  shows "t \<le> opReturn v"
  using assms
proof (induction vs arbitrary: m)
  case (Cons w vs)
  then have "\<And>v. v \<in> set vs \<Longrightarrow> max m (opCall w) \<le> opReturn v \<and> opCall v \<le> opReturn v"
    by (auto simp: real_time_def)
  then show ?case using Cons.IH [of "max m (opCall w)"] Cons.prems by (auto simp: real_time_def)
qed simp

section \<open>Merging the keys\<close>

lemma filter_concat_key:
  assumes "distinct ks" and "\<And>k x. k \<in> set ks \<Longrightarrow> x \<in> set (f k) \<Longrightarrow> g x = k"
  shows "filter (\<lambda>x. g x = k) (concat (map f ks)) = (if k \<in> set ks then f k else [])"
  using assms
proof (induction ks)
  case (Cons k' ks)
  have "filter (\<lambda>x. g x = k) (f k') = (if k' = k then f k' else [])"
    using Cons.prems(2) [of k'] by (auto intro: filter_True filter_False)
  then show ?case using Cons by auto
qed simp

lemma mset_partitions:
  assumes "distinct ks" and "g ` set xs \<subseteq> set ks"
  shows "mset (concat (map (\<lambda>k. filter (\<lambda>x. g x = k) xs) ks)) = mset xs"
proof (rule multiset_eqI)
  fix x
  have "count (mset (concat (map (\<lambda>k. filter (\<lambda>x. g x = k) xs) ks))) x =
      count (mset (filter (\<lambda>y. g y = g x) (concat (map (\<lambda>k. filter (\<lambda>x. g x = k) xs) ks)))) x"
    by simp
  also have "\<dots> = count (mset (if g x \<in> set ks then filter (\<lambda>y. g y = g x) xs else [])) x"
    by (subst filter_concat_key [OF assms(1)]) auto
  also have "\<dots> = count (mset xs) x"
    using assms(2) by (auto simp: count_mset_0_iff)
  finally show "count (mset (concat (map (\<lambda>k. filter (\<lambda>x. g x = k) xs) ks))) x = count (mset xs) x" .
qed

lemma store_linearizable_keys:
  assumes "linearizable kv_store_step store history"
  shows "linearizable KvModel_Step (store k) (filter (\<lambda>v. op_key v = k) history)"
proof -
  obtain ops where "mset ops = mset history" "real_time ops" "accepts kv_store_step store ops"
    using assms by (auto simp: linearizable_def)
  then have "mset (filter (\<lambda>v. op_key v = k) ops) = mset (filter (\<lambda>v. op_key v = k) history) \<and>
      real_time (filter (\<lambda>v. op_key v = k) ops) \<and>
      accepts KvModel_Step (store k) (filter (\<lambda>v. op_key v = k) ops)"
    by (simp add: accepts_store real_time_def sorted_wrt_filter)
  then show ?thesis unfolding linearizable_def by blast
qed

text \<open>All operations in the order of their points in time, given an order for each key.\<close>

definition merged :: "int \<Rightarrow> string list \<Rightarrow> (string \<Rightarrow> (KvInput, KvOutput) Operation list) \<Rightarrow>
    (int \<times> (KvInput, KvOutput) Operation) list" where
  "merged m ks f = sort_key fst (concat (map (\<lambda>k. stamps m (f k)) ks))"

lemma stamps_mem: "p \<in> set (stamps m vs) \<Longrightarrow> snd p \<in> set vs"
  using stamps_snd [of m vs] by (metis image_eqI list.set_map)

lemma merged_filter:
  assumes "distinct ks" and "\<And>k v. v \<in> set (f k) \<Longrightarrow> op_key v = k \<and> k \<in> set ks"
  shows "filter (\<lambda>v. op_key v = k) (map snd (merged m ks f)) = f k"
proof -
  have "filter (\<lambda>p. op_key (snd p) = k) (concat (map (\<lambda>k. stamps m (f k)) ks)) =
      (if k \<in> set ks then stamps m (f k) else [])"
    by (rule filter_concat_key [OF assms(1)]) (use assms(2) stamps_mem in blast)
  moreover have "f k = []" if "k \<notin> set ks" using that assms(2) [of "hd (f k)" k] by (cases "f k") auto
  ultimately have "filter (\<lambda>p. op_key (snd p) = k) (merged m ks f) = stamps m (f k)"
    by (auto simp: merged_def filter_sort sort_key_id_if_sorted stamps_sorted)
  then show ?thesis by (simp add: filter_map comp_def)
qed

lemma merged_mset: "mset (map snd (merged m ks f)) = mset (concat (map f ks))"
proof -
  have "mset (map snd (merged m ks f)) = mset (map snd (concat (map (\<lambda>k. stamps m (f k)) ks)))"
    by (simp add: merged_def)
  then show ?thesis by (simp only: map_concat map_map comp_def stamps_snd)
qed

lemma merged_real_time:
  assumes "\<And>k. real_time (f k)"
    and "\<And>k v. v \<in> set (f k) \<Longrightarrow> m \<le> opReturn v \<and> opCall v \<le> opReturn v"
  shows "real_time (map snd (merged m ks f))"
proof -
  have st: "opCall (snd p) \<le> fst p \<and> fst p \<le> opReturn (snd p)" if "p \<in> set (merged m ks f)" for p
  proof -
    obtain k where k: "(fst p, snd p) \<in> set (stamps m (f k))"
      using \<open>p \<in> set (merged m ks f)\<close> by (auto simp: merged_def)
    then have "fst p \<le> opReturn (snd p)" by (rule stamps_high [OF assms(1) assms(2) [of _ k], rotated])
    then show ?thesis using stamps_low [OF k] by simp
  qed
  have "sorted (map fst (merged m ks f))" by (simp add: merged_def)
  then have "sorted_wrt (\<lambda>p q. fst p \<le> fst q) (merged m ks f)" by (simp add: sorted_map)
  then have "sorted_wrt (\<lambda>p q. \<not> opReturn (snd q) < opCall (snd p)) (merged m ks f)"
    by (rule sorted_wrt_mono_rel [rotated]) (use st in \<open>meson order_trans linorder_not_less\<close>)
  then show ?thesis by (simp add: real_time_def sorted_wrt_map)
qed

lemma keys_linearizable_store:
  assumes proper: "proper history"
    and keys: "\<And>k. linearizable KvModel_Step (store k) (filter (\<lambda>v. op_key v = k) history)"
  shows "linearizable kv_store_step store history"
proof -
  obtain f where f: "mset (f k) = mset (filter (\<lambda>v. op_key v = k) history)" "real_time (f k)"
    "accepts KvModel_Step (store k) (f k)" for k
    using keys unfolding linearizable_def by metis
  define m where "m = Min (insert 0 (opCall ` set history))"
  define ks where "ks = remdups (map op_key history)"
  have mem: "v \<in> set history \<and> op_key v = k" if "v \<in> set (f k)" for v k
    using that mset_eq_setD [OF f(1) [of k]] by auto
  have "m \<le> opReturn v \<and> opCall v \<le> opReturn v" if "v \<in> set (f k)" for v k
  proof -
    have "m \<le> opCall v" using mem [OF that] by (simp add: m_def Min_le)
    moreover have "opCall v \<le> opReturn v" using proper mem [OF that] by (simp add: proper_def)
    ultimately show ?thesis by simp
  qed
  then have "real_time (map snd (merged m ks f))" by (rule merged_real_time [OF f(2)])
  moreover have "mset (map snd (merged m ks f)) = mset history"
  proof -
    have "mset (concat (map f ks)) = mset (concat (map (\<lambda>k. filter (\<lambda>v. op_key v = k) history) ks))"
      by (simp add: mset_concat comp_def f(1))
    also have "\<dots> = mset history" by (rule mset_partitions) (auto simp: ks_def)
    finally show ?thesis by (simp only: merged_mset)
  qed
  moreover have "accepts kv_store_step store (map snd (merged m ks f))"
  proof -
    have "filter (\<lambda>v. op_key v = k) (map snd (merged m ks f)) = f k" for k
      by (rule merged_filter) (use mem in \<open>auto simp: ks_def\<close>)
    then show ?thesis unfolding accepts_store using f(3) by simp
  qed
  ultimately show ?thesis unfolding linearizable_def by blast
qed

section \<open>The checker on the store's histories\<close>

lemma KvModel_parts:
  assumes "enumerates_keys keys"
  shows "KvModel_Partition (keys history) history =
    map (\<lambda>k. filter (\<lambda>v. op_key v = k) history) (sorted_list_of_set (op_key ` set history))"
  using assms KvModel_Partition_eq [of "keys history" history] by (simp add: enumerates_keys_def)

lemma parts_linearizable:
  assumes keys: "enumerates_keys keys" and proper: "proper history"
  shows "(\<forall>sub \<in> set (KvModel_Partition (keys history) history). linearizable KvModel_Step KvModel_Init sub) \<longleftrightarrow>
    linearizable kv_store_step (\<lambda>_. KvModel_Init) history"
proof
  assume all: "\<forall>sub \<in> set (KvModel_Partition (keys history) history). linearizable KvModel_Step KvModel_Init sub"
  show "linearizable kv_store_step (\<lambda>_. KvModel_Init) history"
  proof (rule keys_linearizable_store [OF proper])
    fix k
    show "linearizable KvModel_Step KvModel_Init (filter (\<lambda>v. op_key v = k) history)"
    proof (cases "k \<in> op_key ` set history")
      case True
      then show ?thesis using all by (auto simp: KvModel_parts [OF keys])
    next
      case False
      then have "filter (\<lambda>v. op_key v = k) history = []" by (auto simp: filter_empty_conv)
      then show ?thesis by (simp add: linearizable_def real_time_def)
    qed
  qed
next
  assume "linearizable kv_store_step (\<lambda>_. KvModel_Init) history"
  then show "\<forall>sub \<in> set (KvModel_Partition (keys history) history). linearizable KvModel_Step KvModel_Init sub"
    using store_linearizable_keys by (fastforce simp: KvModel_parts [OF keys])
qed

lemma parts_proper:
  assumes "enumerates_keys keys" and "proper history" and "sub \<in> set (KvModel_Partition (keys history) history)"
  shows "proper sub"
proof -
  obtain k where "sub = filter (\<lambda>v. op_key v = k) history"
    using assms(3) by (auto simp: KvModel_parts [OF assms(1)])
  then show ?thesis
    using assms(2) le_less_trans [OF length_filter_le [of "\<lambda>v. op_key v = k" history]]
    by (auto simp: proper_def)
qed

lemma KvModel_filled:
  "mPartition (fillDefault (KvModel keys)) = Some (\<lambda>history. KvModel_Partition (keys history) history)"
  "mStep (fillDefault (KvModel keys)) = KvModel_Step" "mInit (fillDefault (KvModel keys)) = KvModel_Init"
  "equal_ok (fillDefault (KvModel keys))"
  by (auto simp: fillDefault_def KvModel_def Let_def equal_ok_def ShallowEqual_def)

end
