(* ===== verification/Porcupine_Props.thy ===== *)
theory Porcupine_Props
  imports Porcupine_Kv
begin

text \<open>
  The properties of the linearizability checker: it decides linearizability of histories of the
  key/value store, the search itself always ends and returns real prefixes of linearizations, and
  a history it calls illegal is not linearizable, whatever the time limit does.
\<close>

section \<open>An order for the entries\<close>

definition byTime_sort :: "('i, 'o) entry list \<Rightarrow> ('i, 'o) entry list" where
  "byTime_sort es = sort_key (\<lambda>e. (e_time e, e_kind e)) es"

lemma byTime_sort_sorts: "sorts_by_time (byTime_sort :: ('i, 'o) entry list \<Rightarrow> ('i, 'o) entry list)"
  unfolding sorts_by_time_def
proof (intro allI conjI)
  fix es :: "('i, 'o) entry list"
  show "mset (byTime_sort es) = mset es" by (simp add: byTime_sort_def)
  have "sorted (map (\<lambda>e. (e_time e, e_kind e)) (byTime_sort es))" by (simp add: byTime_sort_def)
  then have "sorted_wrt (\<lambda>a b. (e_time a, e_kind a) \<le> (e_time b, e_kind b)) (byTime_sort es)"
    by (simp add: sorted_map)
  then show "sorted_wrt (\<lambda>a b. \<not> byTime_Less b a) (byTime_sort es)"
    by (rule sorted_wrt_mono_rel [rotated]) (auto simp: byTime_Less_def)
qed

definition first_keys :: "(KvInput, KvOutput) Operation list \<Rightarrow> string list" where
  "first_keys history = remdups (map (\<lambda>v. inKey (opInput v)) history)"

lemma first_keys_enumerates: "enumerates_keys first_keys"
  by (simp add: enumerates_keys_def first_keys_def groupByKey_dom)

section \<open>Results of the partitions\<close>

lemma checkOperations_all:
  assumes srt: "sorts_by_time srt" and keys: "enumerates_keys keys" and proper: "proper history"
    and "distinct order" and "set order = {..<card ((\<lambda>v. inKey (opInput v)) ` set history)}"
    and "history \<noteq> []"
  shows "checkOperations srt (KvModel keys) history verbose (map Result order) =
    Some (if linearizable kv_store_step (\<lambda>_. KvModel_Init) history then Ok else Illegal)"
proof -
  let ?parts = "KvModel_Partition (keys history) history" and ?model = "fillDefault (KvModel keys)"
  have len: "length ?parts = card ((\<lambda>v. inKey (opInput v)) ` set history)"
    by (simp add: KvModel_parts [OF keys])
  have order: "set order = {..<length ?parts}" "length order = length ?parts"
    using assms(4,5) distinct_card [of order] by (simp_all add: len)
  have "length ?parts > 0" using assms(6) unfolding len by (simp add: card_gt_0_iff)
  then have "collect ?model (map (makeEntries srt) ?parts) verbose True 0 (map Result order) =
      Some (True \<and> (\<forall>i \<in> set order. linearizable (mStep ?model) (mInit ?model) (?parts ! i)), False)"
    using order parts_proper [OF keys proper]
    by (intro collect_all [OF srt KvModel_filled(4)]) auto
  moreover have "(\<forall>i \<in> set order. linearizable KvModel_Step KvModel_Init (?parts ! i)) \<longleftrightarrow>
      linearizable kv_store_step (\<lambda>_. KvModel_Init) history"
    unfolding parts_linearizable [OF keys proper, symmetric] order(1) by (auto simp: all_set_conv_all_nth)
  ultimately show ?thesis
    by (simp add: checkOperations_def checkParallel_def KvModel_filled Let_def)
qed

lemma collect_illegal:
  assumes srt: "sorts_by_time srt" and eq: "equal_ok model" and proper: "\<forall>sub \<in> set parts. proper sub"
    and "collect model (map (makeEntries srt) parts) computeInfo ok cnt arrivals = Some (False, late)" and "ok"
  shows "\<exists>sub \<in> set parts. \<not> linearizable (mStep model) (mInit model) sub"
  using assms(4,5)
proof (induction arrivals arbitrary: ok cnt)
  case (Cons arr arrivals)
  show ?case
  proof (cases arr)
    case (Result i)
    have i: "i < length parts" using Cons.prems Result by (cases "i < length parts") (auto simp: slice_get_def)
    let ?lin = "linearizable (mStep model) (mInit model) (parts ! i)"
    obtain longs where run: "checkSingle model (makeEntries srt (parts ! i)) computeInfo (\<lambda>_. False) = Some (?lin, longs)"
      using checkSingle_linearizable [OF srt eq, of "parts ! i" computeInfo] proper i by auto
    show ?thesis
    proof (cases ?lin)
      case True
      then have "collect model (map (makeEntries srt) parts) computeInfo ok (cnt + 1) arrivals = Some (False, late)"
        using Cons.prems Result i run by (auto simp: slice_get_nat Let_def split: if_splits)
      then show ?thesis using Cons.IH Cons.prems(2) by blast
    qed (use i in auto)
  qed (use Cons.prems in simp)
qed simp

text \<open>With no partition no result ever arrives: on the empty history the loop of \<open>checkParallel\<close>
  waits for the time limit, and without one for ever.\<close>

lemma empty_history_waits:
  assumes "enumerates_keys keys" and "Timeout \<notin> set arrivals"
  shows "checkOperations srt (KvModel keys) [] verbose arrivals = None"
proof -
  have "collect (fillDefault (KvModel keys)) [] verbose True 0 arrivals = None"
  proof (cases arrivals)
    case (Cons arr rest)
    then show ?thesis using assms(2) by (cases arr) (simp_all add: slice_get_def)
  qed simp
  then show ?thesis
    by (simp add: checkOperations_def checkParallel_def KvModel_filled Let_def KvModel_parts [OF assms(1)])
qed

section \<open>Properties\<close>

text \<open>C7. The checker is right about the key/value store. For any history in which every operation
  returns after its call, \<open>CheckOperations\<close> with \<open>KvModel\<close> returns, whatever the order in which
  the goroutines for the keys finish, and its answer is whether the history of the whole store is
  linearizable: whether there is one order of all operations in which every \<open>Get\<close> returns the
  value the writes before it left, and in which no operation stands before one that returned
  before it was called. The sorting routine only has to sort.\<close>

theorem checker_decides:
  assumes "sorts_by_time srt" and "enumerates_keys keys" and "proper history" and "history \<noteq> []"
    and "distinct order" and "set order = {..<card ((\<lambda>v. inKey (opInput v)) ` set history)}"
  shows "CheckOperations srt (KvModel keys) history (map Result order) =
    Some (linearizable kv_store_step (\<lambda>_. KvModel_Init) history)"
  using checkOperations_all [OF assms(1-3,5,6,4), of False] by (simp add: CheckOperations_def)

definition example_history :: "(KvInput, KvOutput) Operation list" where
  "example_history =
     [\<lparr>opClientId = 0, opInput = \<lparr>inOp = 1, inKey = ''x'', inValue = ''a''\<rparr>, opCall = 0,
       opOutput = \<lparr>outValue = []\<rparr>, opReturn = 10\<rparr>,
      \<lparr>opClientId = 1, opInput = \<lparr>inOp = 0, inKey = ''x'', inValue = []\<rparr>, opCall = 5,
       opOutput = \<lparr>outValue = ''a''\<rparr>, opReturn = 6\<rparr>]"

theorem checker_decides_witness:
  "CheckOperations byTime_sort (KvModel first_keys) example_history [Result 0] = Some True"
proof -
  have "proper example_history" by (simp add: example_history_def proper_def)
  moreover have "linearizable kv_store_step (\<lambda>_. KvModel_Init) example_history"
    unfolding linearizable_def
    by (rule exI [of _ example_history])
      (simp add: example_history_def real_time_def kv_store_step_def KvModel_Step_def Let_def)
  ultimately show ?thesis
    using checker_decides [OF byTime_sort_sorts first_keys_enumerates, of example_history "[0]"]
    by (simp add: example_history_def lessThan_Suc)
qed

text \<open>C12. The search for one partition always returns, for any model whose states are compared
  with equality, and also when it is told to stop. It never panics: no index is out of range and
  no \<open>nil\<close> pointer is followed while nodes are taken out of the list and put back. Every entry of
  \<open>longest\<close> is an order of operations that may start a linearization and contains its operation.
  The answer \<open>true\<close> comes with a linearization, and unless it is stopped, the answer \<open>false\<close> means
  that there is none.\<close>

theorem search_returns:
  assumes "wf_entries es" and "equal_ok model"
  shows "\<exists>ok longs. checkSingle model es computePartial kill = Some (ok, longs) \<and>
    length longs = length es div 2 \<and>
    (\<forall>i seq. i < length longs \<and> longs ! i = Some seq \<longrightarrow>
       starts model es {} (mInit model) seq \<and> int i \<in> set seq) \<and>
    (ok \<longrightarrow> (\<exists>\<sigma>. linearization model es \<sigma> \<and> set longs \<subseteq> {Some \<sigma>})) \<and>
    ((\<forall>k. \<not> kill k) \<longrightarrow> ok = (\<exists>\<sigma>. linearization model es \<sigma>))"
proof -
  have "extends model es {} (mInit model) \<sigma> \<longleftrightarrow> linearization model es \<sigma>" for \<sigma>
    by (simp add: extends_iff [OF assms(1)] linearization_def)
  then show ?thesis
    using checkSingle_answer [OF assms, of kill computePartial] can_finish_linearizable [OF assms(1), of model]
    unfolding answer_def longs_ok_def by auto
qed

theorem search_returns_witness:
  "\<exists>ok longs. checkSingle (fillDefault (KvModel first_keys)) (makeEntries byTime_sort example_history) True (\<lambda>_. False) =
     Some (ok, longs) \<and> length longs = 2"
proof -
  have "proper example_history" by (simp add: example_history_def proper_def)
  from search_returns [OF makeEntries_wf [OF byTime_sort_sorts this] KvModel_filled(4), of first_keys True "\<lambda>_. False"]
  show ?thesis
    unfolding makeEntries_length [OF byTime_sort_sorts] by (auto simp: example_history_def)
qed

text \<open>C14. \<open>Illegal\<close> is never wrong: whichever results arrive before the time limit and in whichever
  order, a history that \<open>checkOperations\<close> reports as illegal is not linearizable. A time limit
  can only turn the answer into \<open>Unknown\<close>.\<close>

theorem illegal_is_right:
  assumes "sorts_by_time srt" and "enumerates_keys keys" and "proper history"
    and "checkOperations srt (KvModel keys) history verbose arrivals = Some Illegal"
  shows "\<not> linearizable kv_store_step (\<lambda>_. KvModel_Init) history"
proof -
  let ?parts = "KvModel_Partition (keys history) history" and ?model = "fillDefault (KvModel keys)"
  obtain late where "collect ?model (map (makeEntries srt) ?parts) verbose True 0 arrivals = Some (False, late)"
    using assms(4) by (auto simp: checkOperations_def checkParallel_def KvModel_filled Let_def
        bind_eq_Some_conv split: if_splits)
  then have "\<exists>sub \<in> set ?parts. \<not> linearizable (mStep ?model) (mInit ?model) sub"
    using parts_proper [OF assms(2,3)] by (intro collect_illegal [OF assms(1) KvModel_filled(4)]) auto
  then show ?thesis using parts_linearizable [OF assms(2,3)] by (auto simp: KvModel_filled)
qed

definition wrong_history :: "(KvInput, KvOutput) Operation list" where
  "wrong_history =
     [\<lparr>opClientId = 0, opInput = \<lparr>inOp = 1, inKey = ''x'', inValue = ''a''\<rparr>, opCall = 0,
       opOutput = \<lparr>outValue = []\<rparr>, opReturn = 4\<rparr>,
      \<lparr>opClientId = 1, opInput = \<lparr>inOp = 0, inKey = ''x'', inValue = []\<rparr>, opCall = 5,
       opOutput = \<lparr>outValue = []\<rparr>, opReturn = 6\<rparr>]"

theorem illegal_is_right_witness:
  "checkOperations byTime_sort (KvModel first_keys) wrong_history False [Result 0] = Some Illegal \<and>
   \<not> linearizable kv_store_step (\<lambda>_. KvModel_Init) wrong_history"
proof -
  have "\<not> linearizable kv_store_step (\<lambda>_. KvModel_Init) wrong_history"
  proof
    assume "linearizable kv_store_step (\<lambda>_. KvModel_Init) wrong_history"
    then obtain ops where ops: "mset ops = mset wrong_history" "real_time ops"
      "accepts kv_store_step (\<lambda>_. KvModel_Init) ops" by (auto simp: linearizable_def)
    obtain \<sigma> where \<sigma>: "distinct \<sigma>" "set \<sigma> = {..<length wrong_history}" "ops = map ((!) wrong_history) \<sigma>"
      using mset_eq_indices [OF ops(1)] by blast
    have "{..<length wrong_history} = {0, 1}" by (simp add: wrong_history_def lessThan_Suc insert_commute)
    then have set: "set \<sigma> = {0, 1}" by (simp only: \<sigma>(2))
    then have "length \<sigma> = 2" using distinct_card [OF \<sigma>(1)] by simp
    then obtain a b where "\<sigma> = [a, b]" by (auto simp: numeral_2_eq_2 length_Suc_conv)
    then have "\<sigma> = [0, 1] \<or> \<sigma> = [1, 0]" using set \<sigma>(1) by (auto simp: doubleton_eq_iff)
    then show False
      using ops(2,3) \<sigma>(3)
      by (auto simp: wrong_history_def real_time_def kv_store_step_def KvModel_Step_def Let_def)
  qed
  moreover have proper: "proper wrong_history" by (simp add: wrong_history_def proper_def)
  ultimately have run: "checkOperations byTime_sort (KvModel first_keys) wrong_history False [Result 0] = Some Illegal"
    using checkOperations_all [OF byTime_sort_sorts first_keys_enumerates, of wrong_history "[0]" False]
    by (simp add: wrong_history_def lessThan_Suc)
  then show ?thesis
    using illegal_is_right [OF byTime_sort_sorts first_keys_enumerates proper run] by blast
qed

end
