(* ===== verification/Spec2Isabelle.thy ===== *)
theory Spec2Isabelle
  imports Raft_Election Raft_Props Shard_Props KV_Props Clerk_Service MapReduce_Props
    Porcupine_Props
begin

text \<open>
  \<^bold>\<open>A sharded, replicated key/value store in Go: verification library.\<close>

  \<^bold>\<open>The program.\<close> Groups of servers hold parts (shards) of a key space. The servers of a group agree on
  a log of operations with Raft (\<open>src/raft\<close>) and apply it to their stores (\<open>src/kvraft\<close> for one group that
  holds everything, \<open>src/shardkv\<close> for many). A further Raft group, the shard controller (\<open>src/shardctrler\<close>),
  keeps the history of configurations that assign shards to groups; groups follow it and hand shards to
  one another. Clerks (\<open>client.go\<close> of the three services) retry requests and number them, and servers
  filter duplicates. \<open>src/mr\<close> is a MapReduce coordinator and worker, \<open>src/main/mrsequential.go\<close> its sequential
  counterpart. \<open>src/models\<close> and \<open>src/porcupine\<close> are the sequential model and the linearizability checker of
  the test suite.

  \<^bold>\<open>Conventions.\<close> A Go panic (index out of range, division by zero, a second close of a channel) is \<open>None\<close>
  in the option monad; where the source loops until something happens, \<open>None\<close> of a \<open>partial_function\<close> is
  also a loop that does not end, and what a theorem says of a result it says of \<open>Some\<close>. Structs are records,
  slices are lists read and written with the bounds checks of \<open>slice_get\<close> and \<open>slice_set\<close>, Go maps are \<open>fmap\<close>s,
  and the order in which \<open>range\<close> visits a map is an argument. \<open>int\<close> is unbounded except where the source
  works on bits. Each critical section (from taking a lock to releasing it) is one function from the
  old state to the new one; a goroutine or handler that releases its lock to wait is several functions,
  named \<open>_enter\<close>, \<open>_wait\<close>, \<open>_finish\<close> or \<open>_send\<close>, \<open>_reply\<close>. Times, random numbers and the outcomes of remote calls are
  arguments. Names keep the source's spelling; \<open>SC_\<close>, \<open>KV_\<close> and \<open>SKV_\<close> mark the three services where the
  source uses a name more than once.

  \<^bold>\<open>Theories.\<close>

  \<^item> \<open>Go_Prelude\<close>: slices, maps, and the lemma collection \<open>go_simps\<close> that every component uses.

  \<^item> \<open>Persister\<close>, \<open>Raft_Node\<close> (\<open>raft/persister.go\<close>, \<open>raft/raft.go\<close>): stable storage, the peer's state and all its
    handlers, timers and reply handlers. \<open>Raft_Inv\<close>, \<open>Raft_Commit\<close>, \<open>Raft_Snapshot\<close>: the invariant \<open>raft_wf\<close>, and what
    each handler does in terms of the log seen as a sequence of terms. \<open>Raft_Step\<close>: a peer as a machine over
    events; the invariant and durability across all of them. \<open>Raft_Election\<close>: clusters of peers with message
    loss, duplication and restarts, and election safety. \<open>Raft_Props\<close>: the properties of one peer.

  \<^item> \<open>Kv_Machine\<close>: the reference machine of a key/value store with a duplicate table, and the locales
    \<open>dedup_machine\<close> and \<open>snapshot_machine\<close>. \<open>Wait_Chan\<close>: the channels on which handlers wait for the apply loop.
    \<open>Raft_Service\<close>: the locale \<open>replicated_server\<close>, the contract between a service and its raft peer, from which
    follows that a replica's state is the replay of a prefix of the log.

  \<^item> \<open>KV_Server\<close>, \<open>KV_Inv\<close>, \<open>Kv_Model\<close>, \<open>KV_Props\<close> (\<open>kvraft/server.go\<close>, \<open>models/kv.go\<close>): the server of one group.

  \<^item> \<open>Shard_Config\<close>, \<open>Shard_Balance\<close>, \<open>Shard_Ctrler\<close>, \<open>Shard_Ctrler_Inv\<close> (\<open>shardctrler/common.go\<close>, \<open>shardctrler/server.go\<close>):
    configurations, rebalancing and its correctness and termination, the controller.

  \<^item> \<open>SKV_Server\<close>, \<open>SKV_Inv\<close> (\<open>shardkv/server.go\<close>): the server of a sharded group and its replicated machine.
    \<open>Shard_System\<close>, \<open>Shard_Migration\<close>, \<open>Shard_Safety\<close>, \<open>Shard_Reach\<close>, \<open>Shard_Props\<close>: all groups and the controller
    together, with the messages between them.

  \<^item> \<open>Clerks\<close>, \<open>Clerk_Props\<close>, \<open>Clerk_Service\<close> (the three \<open>client.go\<close>): the clients, and clients, network and log of the
    key/value service together.

  \<^item> \<open>MapReduce\<close>, \<open>MapReduce_Data\<close>, \<open>MapReduce_Job\<close>, \<open>MapReduce_Props\<close> (\<open>mr\<close>, \<open>main/mrsequential.go\<close>, \<open>mrapps\<close>).

  \<^item> \<open>Bitset\<close>, \<open>Porcupine\<close> (\<open>porcupine/bitset.go\<close>, \<open>checker.go\<close>, \<open>model.go\<close>, \<open>porcupine.go\<close>): the checker, with its
    linked list in a heap of nodes. \<open>Porcupine_List\<close>: the list refines a list of addresses, and \<open>unlift\<close> undoes
    \<open>lift\<close>. \<open>Porcupine_Spec\<close>: linearizations of a history and the space the search explores.
    \<open>Porcupine_Search\<close>, \<open>Porcupine_Loop\<close>: the invariant and the termination of the search. \<open>Porcupine_Ops\<close>:
    operations and their entries. \<open>Porcupine_Kv\<close>, \<open>Porcupine_Props\<close>: checking key by key is enough for the store.

  \<^bold>\<open>What is shown.\<close> For Raft: at most one leader in each term, in every reachable state of a cluster; a
  peer never panics and stays well formed; its persistent state survives a crash at any moment; the
  replication, commit and delivery rules do what they should. For each service: a replica holds the
  replay of a prefix of its log through commands, snapshots, crashes and restarts; each request takes
  effect once; apply loops do not panic. From the clerks' point of view the key/value service is
  linearizable. For the sharded service: however shards move, the group that serves a shard holds the
  result of the operations that took effect on it, no two groups serve a shard in one configuration, and
  no shard is lost. Rebalancing ends, balances, and moves as few shards as possible. A finished MapReduce
  job has printed what the sequential program prints. The checker of the test suite returns on every
  history and answers whether it is linearizable. Theorems of kind error show what goes wrong in the
  cases the code does not handle.

  \<^bold>\<open>Assumptions.\<close> The services rest on what Raft provides: each group has one growing log, of which every
  replica is handed a prefix (\<open>kv_replica\<close>, \<open>skv_replica\<close>, \<open>shard_reachable\<close>). That raft peers agree on committed
  entries is assumed there; election safety and the rules of a single peer are proved, log matching
  between peers is not. \<open>event_ok\<close> lists what a peer relies on.

  \<^bold>\<open>Bounds and fuel.\<close> There is no fuel. Loops that may not end are \<open>partial_function\<close>s, and that they
  return is proved: rebalancing and the search of the checker always do, clerk loops return when a
  server keeps accepting. The checker's histories have fewer than \<open>2^63\<close> operations, as Go's \<open>int\<close> demands.

  \<^bold>\<open>Not modelled.\<close> \<open>labrpc\<close> and \<open>labgob\<close>: the simulated network and the gob encoding only carry values; calls are
  arguments that may fail, repeat or be delayed, and encoded data are lists of values. \<open>config.go\<close> and
  \<open>test_test.go\<close> of every package are test harnesses. \<open>porcupine/visualization.go\<close> writes HTML; the
  partial linearizations that \<open>checkParallel\<close> gathers for it, and the functions that describe operations, are left out. \<open>util.go\<close>, the
  \<open>String\<close> methods and the deadlock and liveness monitors only log. \<open>main\<close> (apart from the sequential
  MapReduce) starts processes and loads plugins. The map functions of \<open>mrapps\<close> classify Unicode letters;
  they are arguments.
\<close>

end
